(* ===== verification/S2Prelude.thy ===== *)
theory S2Prelude
  imports Main "HOL-Library.Word"
begin

text \<open>
  What every other theory of the development shares: the machine integers of the C++ code as
  words, the outcomes a C++ function can have besides returning (a thrown exception, a failed
  \<open>assert\<close>, undefined behaviour), byte memory with bounded reads and writes, the little-endian
  image of a word, and the collections of rewrite rules the component theories use.
\<close>

unbundle bit_operations_syntax

section \<open>Machine integers\<close>

text \<open>
  The C++ integers keep their width. A signed integer is the word with the same bits, read with
  \<open>sint\<close>; an unsigned one is read with \<open>unat\<close>.
\<close>

type_synonym u8 = "8 word"
type_synonym u32 = "32 word"
type_synonym u64 = "64 word"
type_synonym i32 = "32 word"
type_synonym i64 = "64 word"

section \<open>Outcomes\<close>

text \<open>
  A C++ function that does not return normally throws (the three kinds of exception the library
  throws), fails an \<open>assert\<close>, or executes undefined behaviour (an access outside an object, an
  out-of-range conversion). Every one of them is a value of \<open>fault\<close>, and the result of a
  function that can fault is \<open>fault + 'a\<close>.
\<close>

datatype fault =
    S2ClientError nat string
  | InvalidArgument string
  | OutOfRange string
  | BadAlloc
  | AssertionFailed
  | UndefinedBehaviour

text \<open>The error codes of \<^verbatim>\<open>chunk_extern.h\<close>.\<close>

definition S2C_ERROR_INV_ARG :: nat where "S2C_ERROR_INV_ARG = 1"
definition S2C_ERROR_UNS_DATA_TYPE :: nat where "S2C_ERROR_UNS_DATA_TYPE = 2"
definition S2C_ERROR_UNKNOWN_FAILURE :: nat where "S2C_ERROR_UNKNOWN_FAILURE = 3"
definition S2C_ERROR_MEMORY_ALLOCATION :: nat where "S2C_ERROR_MEMORY_ALLOCATION = 4"
definition S2C_ERROR_READER_FAILED :: nat where "S2C_ERROR_READER_FAILED = 5"
definition S2C_ERROR_BAD_CONNECTION :: nat where "S2C_ERROR_BAD_CONNECTION = 6"
definition S2C_IO_ERROR :: nat where "S2C_IO_ERROR = 7"
definition S2C_ERROR_BAD_CHUNK :: nat where "S2C_ERROR_BAD_CHUNK = 8"

text \<open>\<open>and_then r f\<close> runs \<open>f\<close> on the value of \<open>r\<close>; a fault ends the computation.\<close>

fun and_then :: "fault + 'a \<Rightarrow> ('a \<Rightarrow> fault + 'b) \<Rightarrow> fault + 'b" where
  "and_then (Inl e) f = Inl e"
| "and_then (Inr x) f = f x"

lemma and_then_Inr_iff: "and_then r f = Inr y \<longleftrightarrow> (\<exists>x. r = Inr x \<and> f x = Inr y)"
  by (cases r) auto

lemma and_then_Inl_iff:
  "and_then r f = Inl e \<longleftrightarrow> r = Inl e \<or> (\<exists>x. r = Inr x \<and> f x = Inl e)"
  by (cases r) auto

lemma and_then_assoc: "and_then (and_then r f) g = and_then r (\<lambda>x. and_then (f x) g)"
  by (cases r) auto

lemma and_then_cong [fundef_cong]:
  "\<lbrakk> r = r'; \<And>x. r' = Inr x \<Longrightarrow> f x = f' x \<rbrakk> \<Longrightarrow> and_then r f = and_then r' f'"
  by (cases r') auto

section \<open>Words\<close>

named_theorems unat_arith_simps \<open>unsigned values of word operations that do not wrap\<close>

lemma unat_add_bounded [unat_arith_simps]:
  fixes a b :: "'n::len word"
  shows "unat a + unat b < 2 ^ LENGTH('n) \<Longrightarrow> unat (a + b) = unat a + unat b"
  by (simp add: unat_word_ariths)

lemma unat_add_le_word:
  fixes a b c :: "'n::len word"
  assumes "unat a + unat b \<le> unat c"
  shows "unat (a + b) = unat a + unat b"
  using assms unsigned_less [of c, where ?'a = nat] by (intro unat_add_bounded) linarith

lemma unat_sub_le_word:
  fixes a b :: "'n::len word"
  assumes "unat b \<le> unat a"
  shows "unat (a - b) = unat a - unat b"
  using assms by (simp add: unat_sub word_le_nat_alt)

lemma unat_of_nat64: "n < 18446744073709551616 \<Longrightarrow> unat (of_nat n :: u64) = n"
  by (simp add: unat_of_nat take_bit_nat_eq_self)

section \<open>Byte memory\<close>

text \<open>
  A buffer is the list of its bytes. \<open>peek o n m\<close> is what a read of \<open>n\<close> bytes at offset \<open>o\<close>
  sees, \<open>poke o bs m\<close> the memory after a write. Both are only used where the region lies inside
  the buffer: the operations of the model check the bounds first.
\<close>

definition peek :: "nat \<Rightarrow> nat \<Rightarrow> 'a list \<Rightarrow> 'a list" where
  "peek off n m = take n (drop off m)"

definition poke :: "nat \<Rightarrow> 'a list \<Rightarrow> 'a list \<Rightarrow> 'a list" where
  "poke off bs m = take off m @ bs @ drop (off + length bs) m"

lemma length_peek [simp]: "length (peek off n m) = min n (length m - off)"
  by (simp add: peek_def min.commute)

lemma length_poke [simp]: "off + length bs \<le> length m \<Longrightarrow> length (poke off bs m) = length m"
  by (simp add: poke_def)

lemma poke_Nil [simp]: "poke off [] m = m"
  by (simp add: poke_def)

lemma peek_0 [simp]: "peek off 0 m = []"
  by (simp add: peek_def)

lemma peek_poke_same:
  "off + length bs \<le> length m \<Longrightarrow> peek off (length bs) (poke off bs m) = bs"
  by (simp add: peek_def poke_def)

lemma peek_poke_inside:
  assumes "off + length bs \<le> length m" and "k + n \<le> length bs"
  shows "peek (off + k) n (poke off bs m) = peek k n bs"
  using assms by (simp add: peek_def poke_def drop_take)

lemma peek_poke_before:
  assumes "o' + n \<le> off" and "off \<le> length m"
  shows "peek o' n (poke off bs m) = peek o' n m"
proof -
  have "take n (take (off - o') (drop o' m)) = take n (drop o' m)"
    using assms by (simp add: min_def)
  moreover have "n \<le> length (take (off - o') (drop o' m)) \<or> n = 0"
    using assms by auto
  ultimately show ?thesis
    using assms by (auto simp: peek_def poke_def drop_take)
qed

lemma peek_poke_after:
  assumes "off + length bs \<le> o'" and "off + length bs \<le> length m"
  shows "peek o' n (poke off bs m) = peek o' n m"
  using assms by (simp add: peek_def poke_def)

lemma peek_peek:
  "k + n \<le> n' \<Longrightarrow> peek k n (peek off n' m) = peek (off + k) n m"
  by (simp add: peek_def drop_take min_def add.commute)

lemma peek_append: "peek off (n + n') m = peek off n m @ peek (off + n) n' m"
  by (simp add: peek_def take_add add.commute)

section \<open>Little-endian bytes\<close>

text \<open>
  A typed store \<open>*((T * )p) = val\<close> of the code leaves the bytes of the value in the buffer, least
  significant first (the platforms the library is built for are little-endian).
\<close>

primrec to_le :: "nat \<Rightarrow> 'n::len word \<Rightarrow> u8 list" where
  "to_le 0 w = []"
| "to_le (Suc n) w = ucast w # to_le n (drop_bit 8 w)"

primrec of_le :: "u8 list \<Rightarrow> 'n::len word" where
  "of_le [] = 0"
| "of_le (b # bs) = ucast b OR push_bit 8 (of_le bs)"

lemma length_to_le [simp]: "length (to_le n w) = n"
  by (induction n arbitrary: w) auto

lemma of_le_to_le: "of_le (to_le n w) = take_bit (8 * n) (w :: 'n::len word)"
proof (induction n arbitrary: w)
  case 0
  then show ?case by simp
next
  case (Suc n)
  show ?case
    unfolding to_le.simps of_le.simps Suc.IH
    by (rule bit_word_eqI) (auto simp: bit_simps add.commute not_less)
qed

lemma to_le_take_bit: "8 * n \<le> k \<Longrightarrow> to_le n (take_bit k w) = to_le n w"
proof (induction n arbitrary: k w)
  case (Suc n)
  have "ucast (take_bit k w) = (ucast w :: u8)"
    using Suc.prems by (intro bit_word_eqI) (auto simp: bit_simps)
  moreover have "drop_bit 8 (take_bit k w) = take_bit (k - 8) (drop_bit 8 w)"
    by (simp add: drop_bit_take_bit)
  ultimately show ?case using Suc by simp
qed simp

lemma to_le_of_le:
  "8 * length bs \<le> LENGTH('n::len) \<Longrightarrow> to_le (length bs) (of_le bs :: 'n word) = bs"
proof (induction bs)
  case (Cons b bs)
  let ?x = "of_le bs :: 'n word"
  have low: "ucast (ucast b OR push_bit 8 ?x) = b"
    using Cons.prems by (intro bit_word_eqI) (auto simp: bit_simps)
  have high: "drop_bit 8 (ucast b OR push_bit 8 ?x) = take_bit (LENGTH('n) - 8) ?x"
    using Cons.prems by (intro bit_word_eqI) (auto simp: bit_simps dest: bit_imp_le_length)
  have "to_le (length bs) (take_bit (LENGTH('n) - 8) ?x) = bs"
    using Cons by (simp add: to_le_take_bit)
  with low high show ?case by simp
qed simp

text \<open>
  The interface of a fixed-width encoding: its encoder yields \<open>width\<close> bytes, and the decoder
  recovers the value from them, wherever they lie in a buffer.
\<close>

locale byte_codec =
  fixes width :: nat
    and enc :: "'v \<Rightarrow> u8 list"
    and dec :: "u8 list \<Rightarrow> 'v"
  assumes enc_length: "length (enc x) = width"
    and dec_enc: "dec (enc x) = x"
    and enc_dec: "length bs = width \<Longrightarrow> enc (dec bs) = bs"
begin

lemma enc_inject: "enc x = enc y \<longleftrightarrow> x = y"
  by (metis dec_enc)

lemma dec_poke:
  "off + width \<le> length m \<Longrightarrow> dec (peek off width (poke off (enc x) m)) = x"
  by (metis dec_enc enc_length peek_poke_same)

end

interpretation le64: byte_codec 8 "to_le 8 :: u64 \<Rightarrow> u8 list" of_le
proof unfold_locales
  show "to_le 8 (of_le bs :: u64) = bs" if "length bs = 8" for bs
    using to_le_of_le [of bs, where ?'n = 64] that by simp
qed (simp_all add: of_le_to_le take_bit_word_eq_self)

interpretation le32: byte_codec 4 "to_le 4 :: u32 \<Rightarrow> u8 list" of_le
proof unfold_locales
  show "to_le 4 (of_le bs :: u32) = bs" if "length bs = 4" for bs
    using to_le_of_le [of bs, where ?'n = 32] that by simp
qed (simp_all add: of_le_to_le take_bit_word_eq_self)

section \<open>Signed values\<close>

lemma sint_word_of_int_id:
  assumes "- (2 ^ (LENGTH('n) - 1)) \<le> k" "k < 2 ^ (LENGTH('n) - 1)"
  shows "sint (word_of_int k :: 'n::len word) = k"
  using assms by (simp add: sint_sbintrunc' signed_take_bit_int_eq_self_iff)

lemma word_diff_eq_word_of_int:
  fixes a b :: "'n::len word"
  shows "a - b = word_of_int (uint a - uint b)"
  by (simp add: wi_hom_sub [symmetric])

lemma uint_less_of_bound: "uint (w :: 'n::len word) < 2 ^ LENGTH('n)"
  by (rule unsigned_less)

text \<open>The conversion of a 64-bit value to \<open>int\<close>, where it fits.\<close>

lemma sint_ucast_int:
  assumes "unat (s :: u64) < 2 ^ 31"
  shows "sint (ucast s :: i32) = int (unat s)"
proof -
  have "unat s < 2147483648" using assms by simp
  then have b: "uint s < 2147483648" "0 \<le> uint s"
    unfolding uint_nat by linarith+
  have u: "uint (ucast s :: i32) = uint s"
    using b by (simp add: unsigned_ucast_eq take_bit_int_eq_self)
  have "sint (ucast s :: i32) = signed_take_bit 31 (uint (ucast s :: i32))"
    by (simp add: sint_uint)
  also have "\<dots> = uint s"
    unfolding u by (rule signed_take_bit_int_eq_self) (use b in \<open>simp_all add: order.trans [of _ 0]\<close>)
  finally show ?thesis by simp
qed

section \<open>Concrete values\<close>

lemma replicate_few: "replicate 2 x = [x, x]" "replicate 3 x = [x, x, x]"
  by (simp_all add: numeral_eq_Suc)

end
