(* ===== verification/Utils.thy ===== *)
theory Utils
  imports S2Prelude "HOL-Library.Multiset"
begin

text \<open>
  The helper functions of \<^verbatim>\<open>utils.cpp\<close> that are not about SQL text: the assignment of database
  partitions to workers and to the reader threads of a worker, the choice of the aggregator a
  partition is read from, the comparison of server versions, and the test for a NULL buffer;
  and the decimal rendering of integers (\<^verbatim>\<open>std::to_string\<close>, \<^verbatim>\<open>operator<<\<close>) the rest uses.
\<close>

section \<open>Decimal text\<close>

definition digit_char :: "nat \<Rightarrow> char" where
  "digit_char d = char_of (48 + d)"

definition is_digit :: "char \<Rightarrow> bool" where
  "is_digit c \<longleftrightarrow> 48 \<le> (of_char c :: nat) \<and> (of_char c :: nat) \<le> 57"

definition digit_val :: "char \<Rightarrow> nat" where
  "digit_val c = of_char c - 48"

fun nat_to_string :: "nat \<Rightarrow> string" where
  "nat_to_string n =
     (if n < 10 then [digit_char n]
      else nat_to_string (n div 10) @ [digit_char (n mod 10)])"

declare nat_to_string.simps [simp del]

definition int_to_string :: "int \<Rightarrow> string" where
  "int_to_string i =
     (if i < 0 then CHR ''-'' # nat_to_string (nat (- i)) else nat_to_string (nat i))"

definition digits_value :: "string \<Rightarrow> nat" where
  "digits_value s = foldl (\<lambda>a c. 10 * a + digit_val c) 0 s"

lemma of_char_digit [simp]: "d < 10 \<Longrightarrow> (of_char (digit_char d) :: nat) = 48 + d"
  by (simp add: digit_char_def)

lemma is_digit_digit_char [simp]: "d < 10 \<Longrightarrow> is_digit (digit_char d)"
  by (simp add: is_digit_def)

lemma digit_val_digit_char [simp]: "d < 10 \<Longrightarrow> digit_val (digit_char d) = d"
  by (simp add: digit_val_def)

lemma nat_to_string_digits: "list_all is_digit (nat_to_string n)"
proof (induction n rule: nat_to_string.induct)
  case (1 n)
  then show ?case by (subst nat_to_string.simps) simp
qed

lemma nat_to_string_nonempty [simp]: "nat_to_string n \<noteq> []"
  by (subst nat_to_string.simps) simp

lemma digits_value_nat_to_string [simp]: "digits_value (nat_to_string n) = n"
proof (induction n rule: nat_to_string.induct)
  case (1 n)
  show ?case
  proof (cases "n < 10")
    case True
    then show ?thesis by (subst nat_to_string.simps) (simp add: digits_value_def)
  next
    case False
    with 1 have "digits_value (nat_to_string (n div 10)) = n div 10" by simp
    then have "digits_value (nat_to_string (n div 10) @ [digit_char (n mod 10)]) = n"
      by (simp add: digits_value_def)
    with False show ?thesis by (subst nat_to_string.simps) simp
  qed
qed

lemma nat_to_string_inject [simp]: "nat_to_string m = nat_to_string n \<longleftrightarrow> m = n"
  by (metis digits_value_nat_to_string)

lemma digit_not_in_nat_to_string:
  "\<not> is_digit c \<Longrightarrow> c \<notin> set (nat_to_string n)"
  using nat_to_string_digits by (auto simp: list_all_iff)

lemma takeWhile_digits_nat_to_string [simp]:
  "takeWhile is_digit (nat_to_string n @ s) = nat_to_string n @ takeWhile is_digit s"
  "dropWhile is_digit (nat_to_string n @ s) = dropWhile is_digit s"
  using nat_to_string_digits [of n] by (simp_all add: list_all_iff)

section \<open>Partitions of a worker and of a consumer\<close>

text \<open>
  \<^verbatim>\<open>WorkerPartitions\<close>: the loop counter is a C++ \<open>int\<close>; an addition that leaves its range is
  undefined behaviour. \<^verbatim>\<open>ConsumerPartitions\<close>: the counter is a \<open>uint64_t\<close> (a negative
  \<open>consumerId\<close> becomes a huge index) and the bound is the size of the vector.
\<close>

definition INT_MAX :: int where "INT_MAX = 2147483647"

function worker_loop :: "int \<Rightarrow> int \<Rightarrow> int \<Rightarrow> fault + int list" where
  "worker_loop n i parts =
     (if n \<le> 0 \<or> parts \<le> i then Inr []
      else if INT_MAX < i + n then Inl UndefinedBehaviour
      else and_then (worker_loop n (i + n) parts) (\<lambda>ps. Inr (i # ps)))"
  by pat_completeness auto
termination
  by (relation "measure (\<lambda>(n, i, parts). nat (parts - i))") auto

declare worker_loop.simps [simp del]

definition WorkerPartitions :: "int \<Rightarrow> int \<Rightarrow> int \<Rightarrow> fault + int list" where
  "WorkerPartitions numWorkers workerId totalPartitions =
     (if numWorkers \<le> 0
      then Inl (S2ClientError S2C_ERROR_INV_ARG ''received negative numWorkers'')
      else worker_loop numWorkers workerId totalPartitions)"

function consumer_loop :: "nat \<Rightarrow> nat \<Rightarrow> 'a list \<Rightarrow> 'a list" where
  "consumer_loop n i xs =
     (if n = 0 \<or> length xs \<le> i then [] else xs ! i # consumer_loop n (i + n) xs)"
  by pat_completeness auto
termination
  by (relation "measure (\<lambda>(n, i, xs). length xs - i)") auto

declare consumer_loop.simps [simp del]

definition ConsumerPartitions :: "int \<Rightarrow> int \<Rightarrow> int list \<Rightarrow> fault + int list" where
  "ConsumerPartitions nConsumers consumerId workerPartitions =
     (if nConsumers \<le> 0
      then Inl (S2ClientError S2C_ERROR_INV_ARG ''received negative nConsumers'')
      else Inr (consumer_loop (nat nConsumers) (unat (word_of_int consumerId :: u64))
                  workerPartitions))"

text \<open>The loop visits the indices congruent to its start, in order.\<close>

lemma filter_upt_stride:
  assumes "0 < n"
  shows "filter (\<lambda>k. k mod n = i mod n) [i..<L] =
    (if i < L then i # filter (\<lambda>k. k mod n = (i + n) mod n) [i + n..<L] else [])"
proof (cases "i < L")
  case True
  define m where "m = min (i + n) L"
  have m: "Suc i \<le> m" "m \<le> L"
    using True assms by (auto simp: m_def)
  have "k mod n \<noteq> i mod n" if "k \<in> set [Suc i..<m]" for k
  proof
    assume eq: "k mod n = i mod n"
    from that have "i < k" "k - i < n" by (auto simp: m_def)
    moreover from eq \<open>i < k\<close> have "n dvd k - i"
      by (simp add: mod_eq_dvd_iff_nat)
    ultimately show False
      using dvd_imp_le by fastforce
  qed
  then have none: "filter (\<lambda>k. k mod n = i mod n) [Suc i..<m] = []"
    by (intro filter_False) auto
  have "[i..<L] = i # [Suc i..<m] @ [m..<L]"
    using True m by (metis upt_conv_Cons le_add_diff_inverse upt_add_eq_append)
  with none have "filter (\<lambda>k. k mod n = i mod n) [i..<L] =
      i # filter (\<lambda>k. k mod n = i mod n) [m..<L]"
    by simp
  also have "[m..<L] = [i + n..<L]"
    by (auto simp: m_def min_def)
  finally show ?thesis
    using True by simp
qed simp

lemma consumer_loop_eq:
  "0 < n \<Longrightarrow> consumer_loop n i xs =
     map ((!) xs) (filter (\<lambda>k. k mod n = i mod n) [i..<length xs])"
proof (induction n i xs rule: consumer_loop.induct)
  case (1 n i xs)
  show ?case
  proof (cases "i < length xs")
    case True
    with 1 show ?thesis
      by (subst consumer_loop.simps, subst filter_upt_stride) auto
  next
    case False
    then show ?thesis by (subst consumer_loop.simps) simp
  qed
qed

lemma consumer_loop_from_start:
  assumes "c < n"
  shows "consumer_loop n c xs =
    map ((!) xs) (filter (\<lambda>k. k mod n = c) [0..<length xs])"
proof -
  have none: "filter (\<lambda>k. k mod n = c) [0..<min c (length xs)] = []"
    using assms by (intro filter_False) auto
  have "[0..<length xs] = [0..<min c (length xs)] @ [min c (length xs)..<length xs]"
    by (metis le_add_diff_inverse min.cobounded2 upt_add_eq_append zero_le)
  moreover have "[min c (length xs)..<length xs] = [c..<length xs]"
    by (auto simp: min_def)
  ultimately have "filter (\<lambda>k. k mod n = c) [0..<length xs] = filter (\<lambda>k. k mod n = c) [c..<length xs]"
    using none by simp
  with assms show ?thesis
    by (simp add: consumer_loop_eq)
qed

text \<open>\<open>WorkerPartitions\<close> in closed form: every \<open>numWorkers\<close>-th partition from the worker's id.\<close>

lemma worker_loop_eq:
  assumes "0 < n" "parts + n \<le> INT_MAX + 1"
  shows "worker_loop n i parts =
    Inr (filter (\<lambda>p. (p - i) mod n = 0) [i..parts - 1])"
  using assms
proof (induction n i parts rule: worker_loop.induct)
  case (1 n i parts)
  show ?case
  proof (cases "i < parts")
    case True
    have none: "filter (\<lambda>p. (p - i) mod n = 0) [i + 1..min (i + n) parts - 1] = []"
    proof (intro filter_False ballI)
      fix p assume "p \<in> set [i + 1..min (i + n) parts - 1]"
      then have "0 < p - i" "p - i < n" by auto
      then show "\<not> (p - i) mod n = 0" by simp
    qed
    have "[i..parts - 1] = i # [i + 1..parts - 1]"
      using True by (simp add: upto_rec1)
    also have "[i + 1..parts - 1] = [i + 1..min (i + n) parts - 1] @ [min (i + n) parts..parts - 1]"
    proof (cases "i + n < parts")
      case True
      with upto_split1 [of "i + 1" "i + n" "parts - 1"] \<open>0 < n\<close> show ?thesis
        by (simp add: min_def)
    qed (simp add: min_def)
    also have "[min (i + n) parts..parts - 1] = [i + n..parts - 1]"
      by (auto simp: min_def)
    finally have "filter (\<lambda>p. (p - i) mod n = 0) [i..parts - 1] =
        i # filter (\<lambda>p. (p - (i + n)) mod n = 0) [i + n..parts - 1]"
      using none by (simp add: diff_diff_eq [symmetric])
    moreover have "worker_loop n (i + n) parts =
        Inr (filter (\<lambda>p. (p - (i + n)) mod n = 0) [i + n..parts - 1])"
      using 1 True by auto
    ultimately show ?thesis
      using True 1(2,3) by (subst worker_loop.simps) simp
  next
    case False
    then show ?thesis by (subst worker_loop.simps) simp
  qed
qed

lemma WorkerPartitions_eq:
  assumes "0 < n" "0 \<le> w" "w < n" "parts + n \<le> INT_MAX + 1"
  shows "WorkerPartitions n w parts = Inr (filter (\<lambda>p. p mod n = w) [0..parts - 1])"
proof -
  have "filter (\<lambda>p. (p - w) mod n = 0) [w..parts - 1] = filter (\<lambda>p. p mod n = w) [w..parts - 1]"
    using assms by (intro filter_cong) (auto simp: mod_eq_0_iff_dvd mod_eq_dvd_iff [symmetric])
  also have "\<dots> = filter (\<lambda>p. p mod n = w) [0..parts - 1]"
  proof (cases "w \<le> parts - 1")
    case True
    have "filter (\<lambda>p. p mod n = w) [0..w - 1] = []"
      using assms by (intro filter_False) auto
    moreover have "[0..parts - 1] = [0..w - 1] @ [w..parts - 1]"
      using assms(2) True by (rule upto_split1)
    ultimately show ?thesis by simp
  next
    case False
    then have "filter (\<lambda>p. p mod n = w) [0..parts - 1] = []"
      using assms by (intro filter_False) auto
    with False show ?thesis by simp
  qed
  finally show ?thesis
    using assms by (simp add: WorkerPartitions_def worker_loop_eq)
qed

text \<open>
  The consumers of a worker share out its partitions: every partition of the list goes to
  exactly one of the queues \<open>0, \<dots>, n - 1\<close>.
\<close>

lemma sum_if_eq_mset:
  "(j :: nat) < n \<Longrightarrow> (\<Sum>c<n. if c = j then M else {#}) = (M :: 'a multiset)"
proof (induction n)
  case (Suc n)
  have "(\<Sum>c<j. if c = j then M else {#}) = {#}"
    by (intro sum.neutral) auto
  with Suc show ?case by (cases "j = n") auto
qed simp

lemma image_mset_sum:
  "(\<Sum>c<(n::nat). image_mset f (M c)) = image_mset f (\<Sum>c<n. M c)"
  by (induction n) auto

lemma mset_filter_mod_sum:
  fixes n :: nat
  assumes "0 < n"
  shows "(\<Sum>c<n. mset (filter (\<lambda>k. k mod n = c) ks)) = mset ks"
proof (induction ks)
  case (Cons k ks)
  have split: "mset (filter (\<lambda>j. j mod n = c) (k # ks)) =
      (if c = k mod n then {#k#} else {#}) + mset (filter (\<lambda>j. j mod n = c) ks)" for c
    by simp
  have "(\<Sum>c<n. (if c = k mod n then {#k#} else {#})) = {#k#}"
    using sum_if_eq_mset [of "k mod n" n "{#k#}"] assms by simp
  with Cons show ?case
    by (simp only: split sum.distrib) simp
qed simp

lemma sum_filter_mset:
  fixes f :: "'a \<Rightarrow> nat"
  assumes "\<forall>x \<in> set xs. f x < n"
  shows "(\<Sum>c<n. mset (filter (\<lambda>x. f x = c) xs)) = mset xs"
  using assms
proof (induction xs)
  case (Cons x xs)
  have split: "mset (filter (\<lambda>x. f x = c) (x # xs)) =
      (if c = f x then {#x#} else {#}) + mset (filter (\<lambda>x. f x = c) xs)" for c
    by simp
  have "(\<Sum>c<n. (if c = f x then {#x#} else {#})) = {#x#}"
    using Cons.prems by (intro sum_if_eq_mset) simp
  with Cons show ?case
    by (simp only: split sum.distrib) simp
qed simp

lemma consumer_loop_mset:
  assumes "0 < n"
  shows "(\<Sum>c<n. mset (consumer_loop n c xs)) = mset xs"
proof -
  have "(\<Sum>c<n. mset (consumer_loop n c xs)) =
      (\<Sum>c<n. image_mset ((!) xs) (mset (filter (\<lambda>k. k mod n = c) [0..<length xs])))"
    by (intro sum.cong refl) (simp add: consumer_loop_from_start)
  also have "\<dots> = image_mset ((!) xs) (\<Sum>c<n. mset (filter (\<lambda>k. k mod n = c) [0..<length xs]))"
    by (rule image_mset_sum)
  also have "\<dots> = mset (map ((!) xs) [0..<length xs])"
    using assms by (simp add: mset_filter_mod_sum del: mset_filter mset_upt)
  finally show ?thesis by (simp add: map_nth)
qed

lemma consumer_loop_set:
  assumes "c < n"
  shows "x \<in> set (consumer_loop n c xs) \<longleftrightarrow> (\<exists>k<length xs. k mod n = c \<and> xs ! k = x)"
  using assms by (auto simp: consumer_loop_from_start)

lemma unat_word_of_int64:
  "0 \<le> c \<Longrightarrow> c \<le> INT_MAX \<Longrightarrow> unat (word_of_int c :: u64) = nat c"
  by (simp add: INT_MAX_def unat_eq_nat_uint uint_word_of_int_eq take_bit_int_eq_self)

lemma ConsumerPartitions_eq:
  assumes "0 < n" "0 \<le> c" "c \<le> INT_MAX"
  shows "ConsumerPartitions n c ps = Inr (consumer_loop (nat n) (nat c) ps)"
  using assms by (simp add: ConsumerPartitions_def unat_word_of_int64)

section \<open>Aggregators\<close>

record Credentials =
  cred_host :: string
  cred_port :: u32
  cred_db :: string
  cred_user :: string
  cred_password :: string
  cred_ssl_ca :: "string option"

record AggregatorNode =
  agg_host :: string
  agg_port :: i32
  agg_externalHost :: string
  agg_externalPort :: i32

text \<open>
  \<^verbatim>\<open>FillCredentials\<close>: partition \<open>p\<close> is read from aggregator \<open>p mod n\<close> (the \<open>int\<close> is converted
  to the unsigned type of \<open>size()\<close>), by its external address when it has one; the name
  \<open>localhost\<close> is replaced, so that the client library connects by TCP.
\<close>

definition FillCredentials :: "AggregatorNode list \<Rightarrow> int \<Rightarrow> Credentials \<Rightarrow> Credentials" where
  "FillCredentials aggregators part creds =
     (if aggregators = [] then creds
      else
        let aggNumber = unat (word_of_int part :: u64) mod length aggregators;
            a = aggregators ! aggNumber;
            creds1 = (if agg_externalHost a \<noteq> []
                      then creds\<lparr>cred_host := agg_externalHost a, cred_port := agg_externalPort a\<rparr>
                      else creds\<lparr>cred_host := agg_host a, cred_port := agg_port a\<rparr>)
        in if cred_host creds1 = ''localhost'' then creds1\<lparr>cred_host := ''127.0.0.1''\<rparr>
           else creds1)"

lemma FillCredentials_keeps:
  "cred_db (FillCredentials as p c) = cred_db c"
  "cred_user (FillCredentials as p c) = cred_user c"
  "cred_password (FillCredentials as p c) = cred_password c"
  "cred_ssl_ca (FillCredentials as p c) = cred_ssl_ca c"
  by (simp_all add: FillCredentials_def Let_def)

lemma FillCredentials_twice:
  "as \<noteq> [] \<Longrightarrow> FillCredentials as p (FillCredentials as q c) = FillCredentials as p c"
  by (simp add: FillCredentials_def Let_def)

section \<open>NULL buffers\<close>

text \<open>
  \<^verbatim>\<open>IsNullBuffer\<close> reads from a \<open>char\<close> pointer: the argument is the rest of the buffer the pointer
  is in. The loop \<open>while (size--)\<close> stops when the counter is 0; a counter that starts below 0
  does not stop before it runs off the buffer or finds a different byte.
\<close>

fun null_loop :: "u8 \<Rightarrow> u8 list \<Rightarrow> int \<Rightarrow> fault + bool" where
  "null_loop firstChar bs sz =
     (if sz = 0 then Inr True
      else (case bs of
              [] \<Rightarrow> Inl UndefinedBehaviour
            | b # bs' \<Rightarrow> if b \<noteq> firstChar then Inr False else null_loop firstChar bs' (sz - 1)))"

declare null_loop.simps [simp del]

definition IsNullBuffer :: "u8 list \<Rightarrow> int \<Rightarrow> fault + bool" where
  "IsNullBuffer buff sz =
     (case buff of
        [] \<Rightarrow> Inl UndefinedBehaviour
      | firstChar # rest \<Rightarrow>
          if firstChar \<noteq> 32 \<and> firstChar \<noteq> 0 then Inr False
          else null_loop firstChar rest (sz - 1))"

lemma null_loop_eq:
  "0 \<le> n \<Longrightarrow> nat n \<le> length bs \<Longrightarrow>
   null_loop c bs n = Inr (\<forall>b \<in> set (take (nat n) bs). b = c)"
proof (induction c bs n rule: null_loop.induct)
  case (1 c bs n)
  show ?case
  proof (cases "n = 0")
    case True
    then show ?thesis by (simp add: null_loop.simps)
  next
    case False
    with "1.prems" obtain b bs' where bs: "bs = b # bs'"
      by (cases bs) auto
    have "nat n = Suc (nat (n - 1))" using False "1.prems" by simp
    with 1 False bs show ?thesis
      by (subst null_loop.simps) auto
  qed
qed

lemma IsNullBuffer_eq:
  assumes "0 < n" "nat n \<le> length bs"
  shows "IsNullBuffer bs n =
    Inr (take (nat n) bs = replicate (nat n) 0 \<or> take (nat n) bs = replicate (nat n) 32)"
proof (cases bs)
  case (Cons b bs')
  have n: "nat n = Suc (nat (n - 1))" using assms by simp
  have len: "nat (n - 1) \<le> length bs'" using assms Cons n by simp
  have rep: "take k xs = replicate k c \<longleftrightarrow> (\<forall>b \<in> set (take k xs). b = c)"
    if "k \<le> length xs" for k c and xs :: "u8 list"
    using that by (simp add: replicate_eqI list_eq_iff_nth_eq all_set_conv_all_nth)
  show ?thesis
    using assms(1) len null_loop_eq [of "n - 1" bs']
    by (auto simp: IsNullBuffer_def Cons n rep)
qed (use assms in simp)

section \<open>The contract\<close>

text \<open>C8. Reading in parallel reads every partition exactly once: the partitions of the workers, each
  shared out over that worker's consumers, are together the partitions \<open>0, \<dots>, parts - 1\<close>, none
  left out and none twice.\<close>

theorem every_partition_read_once:
  assumes "0 < nw" "nw \<le> INT_MAX" "0 < nc" "nc \<le> INT_MAX" "parts + nw \<le> INT_MAX + 1"
  shows "\<exists>P Q. (\<forall>w. 0 \<le> w \<and> w < nw \<longrightarrow> WorkerPartitions nw w parts = Inr (P w)) \<and>
    (\<forall>w c. 0 \<le> c \<and> c < nc \<longrightarrow> ConsumerPartitions nc c (P w) = Inr (Q w c)) \<and>
    (\<Sum>w<nat nw. \<Sum>c<nat nc. mset (Q (int w) (int c))) = mset [0..parts - 1]"
proof (intro exI conjI allI impI)
  let ?P = "\<lambda>w. filter (\<lambda>p. p mod nw = w) [0..parts - 1]"
  let ?Q = "\<lambda>w c. consumer_loop (nat nc) (nat c) (?P w)"
  show "WorkerPartitions nw w parts = Inr (?P w)" if "0 \<le> w \<and> w < nw" for w
    using WorkerPartitions_eq assms that by blast
  show "ConsumerPartitions nc c (?P w) = Inr (?Q w c)" if "0 \<le> c \<and> c < nc" for w c
    using ConsumerPartitions_eq assms that by simp
  have "(\<Sum>c<nat nc. mset (?Q (int w) (int c))) = mset (?P (int w))" for w
    using consumer_loop_mset [of "nat nc" "?P (int w)"] assms(3) by (simp del: mset_filter)
  then have "(\<Sum>w<nat nw. \<Sum>c<nat nc. mset (?Q (int w) (int c))) = (\<Sum>w<nat nw. mset (?P (int w)))"
    by (simp only:)
  also have "\<dots> = (\<Sum>w<nat nw. mset (filter (\<lambda>p. nat (p mod nw) = w) [0..parts - 1]))"
    using assms(1) by (intro sum.cong arg_cong [where f = mset] filter_cong refl) auto
  also have "\<dots> = mset [0..parts - 1]"
    using assms(1) by (intro sum_filter_mset) (simp add: nat_less_iff)
  finally show "(\<Sum>w<nat nw. \<Sum>c<nat nc. mset (?Q (int w) (int c))) = mset [0..parts - 1]" .
qed

theorem every_partition_read_once_witness:
  "\<exists>P Q. (\<forall>w. 0 \<le> w \<and> w < 3 \<longrightarrow> WorkerPartitions 3 w 8 = Inr (P w)) \<and>
    (\<forall>w c. 0 \<le> c \<and> c < 2 \<longrightarrow> ConsumerPartitions 2 c (P w) = Inr (Q w c)) \<and>
    (\<Sum>w<nat 3. \<Sum>c<nat 2. mset (Q (int w) (int c))) = mset [0..8 - 1]"
  by (rule every_partition_read_once) (simp_all add: INT_MAX_def)

text \<open>A partition is read from the aggregator its number selects round robin, by the external
  address where there is one, and never under the name \<open>localhost\<close>; the rest of the credentials is
  kept.\<close>

theorem FillCredentials_routes:
  assumes "aggregators \<noteq> []" "0 \<le> part" "part \<le> INT_MAX"
  shows "let a = aggregators ! (nat part mod length aggregators);
      c = FillCredentials aggregators part creds in
    cred_host c = (let h = (if agg_externalHost a \<noteq> [] then agg_externalHost a else agg_host a)
           in if h = ''localhost'' then ''127.0.0.1'' else h) \<and>
    cred_port c = (if agg_externalHost a \<noteq> [] then agg_externalPort a else agg_port a) \<and>
    cred_db c = cred_db creds \<and> cred_user c = cred_user creds \<and>
    cred_password c = cred_password creds \<and> cred_ssl_ca c = cred_ssl_ca creds"
  using assms
  by (simp add: FillCredentials_def unat_word_of_int64 Let_def)

theorem FillCredentials_routes_witness:
  "cred_host (FillCredentials [\<lparr>agg_host = ''a'', agg_port = 1, agg_externalHost = [], agg_externalPort = 0\<rparr>,
     \<lparr>agg_host = ''localhost'', agg_port = 2, agg_externalHost = [], agg_externalPort = 0\<rparr>] 3
     \<lparr>cred_host = ''x'', cred_port = 0, cred_db = [], cred_user = [], cred_password = [], cred_ssl_ca = None\<rparr>)
   = ''127.0.0.1''"
  using FillCredentials_routes [of "[\<lparr>agg_host = ''a'', agg_port = 1, agg_externalHost = [], agg_externalPort = 0\<rparr>,
     \<lparr>agg_host = ''localhost'', agg_port = 2, agg_externalHost = [], agg_externalPort = 0\<rparr>]" 3
     "\<lparr>cred_host = ''x'', cred_port = 0, cred_db = [], cred_user = [], cred_password = [], cred_ssl_ca = None\<rparr>"]
  by (simp add: INT_MAX_def Let_def numeral_2_eq_2 [symmetric] nth_Cons')

text \<open>\<open>IsNullBuffer\<close> recognises a null fixed-length value: exactly the buffers that are all zero
  bytes or all blanks.\<close>

theorem IsNullBuffer_correct:
  assumes "0 < n" "nat n \<le> length bs"
  shows "IsNullBuffer bs n =
    Inr (take (nat n) bs = replicate (nat n) 0 \<or> take (nat n) bs = replicate (nat n) 32)"
  using assms by (rule IsNullBuffer_eq)

theorem IsNullBuffer_correct_witness:
  "IsNullBuffer [32, 32, 0] 2 = Inr True \<and> IsNullBuffer [32, 32, 0] 3 = Inr False"
  using IsNullBuffer_correct [of 2 "[32, 32, 0]"] IsNullBuffer_correct [of 3 "[32, 32, 0]"]
  by (simp add: replicate_few)

end
