(* ===== verification/Hdat_Chunk.thy ===== *)
theory Hdat_Chunk
  imports Utils
begin

text \<open>
  The data of \<^verbatim>\<open>chunk_extern.h\<close> (columns, row schemas, chunks) and the class \<^verbatim>\<open>SuperChunk\<close> of
  \<^verbatim>\<open>hdat/super_chunk.hpp\<close>, which reads and writes the buffer of a chunk at a moving offset.
  A chunk's buffer holds fixed-size fields from its start and the bytes of variable-length fields
  from its end; \<open>variable_offset\<close> is how far the latter reach from the end.
\<close>

section \<open>Columns and schemas\<close>

datatype ColumnType = Int64 | Int32 | Double | Variable | Fixed | Time | Date | DateTime | Unsupported

record Column =
  col_type :: ColumnType
  col_size :: i64
  col_name :: string

text \<open>A \<^verbatim>\<open>RowSchema\<close> is its \<open>ColumnInfo\<close> array; \<open>numColumns\<close> is the length.\<close>

type_synonym RowSchema = "Column list"

definition int64Null :: i64 where "int64Null = 0x8000000000000000"
definition int32Null :: i32 where "int32Null = 0x80000000"

text \<open>\<open>doubleNull\<close> is given by its bytes; a \<open>double\<close> is modelled by its 64 bits.\<close>

definition doubleNull :: u64 where
  "doubleNull = of_le [0, 0, 0, 0, 0, 0xfe, 0xff, 0xff]"

definition isnan :: "u64 \<Rightarrow> bool" where
  "isnan d \<longleftrightarrow> take_bit 11 (drop_bit 52 d) = 0x7ff \<and> take_bit 52 d \<noteq> 0"

lemma isnan_doubleNull: "isnan doubleNull"
  by (simp add: isnan_def doubleNull_def)

section \<open>Chunks\<close>

record Chunk =
  m_ptr :: "u8 list"
  m_size :: u64
  row_count :: u64
  consumed_size :: u64
  variable_offset :: u64
  chunk_id :: u64
  partition_id :: u32

definition NewChunk :: "u8 list \<Rightarrow> u64 \<Rightarrow> u64 \<Rightarrow> u32 \<Rightarrow> Chunk" where
  "NewChunk ptr sz cid part =
     \<lparr>m_ptr = ptr, m_size = sz, row_count = 0, consumed_size = 0, variable_offset = 0,
      chunk_id = cid, partition_id = part\<rparr>"

text \<open>
  \<^verbatim>\<open>MoveChunk\<close> copies the fields of \<open>in\<close> one by one into the caller's chunk and deletes \<open>in\<close>.
\<close>

definition MoveChunk :: "Chunk \<Rightarrow> Chunk \<Rightarrow> Chunk" where
  "MoveChunk out inp =
     out\<lparr>m_ptr := m_ptr inp, m_size := m_size inp, row_count := row_count inp,
         chunk_id := chunk_id inp, partition_id := partition_id inp,
         consumed_size := consumed_size inp\<rparr>"

section \<open>Alignment and row size\<close>

definition defaultAlignmentSize :: u64 where "defaultAlignmentSize = 8"

definition sizeofAligned8 :: "u64 \<Rightarrow> u64" where
  "sizeofAligned8 len =
     (len + defaultAlignmentSize - 1) AND NOT (defaultAlignmentSize - 1)"

text \<open>
  \<^verbatim>\<open>rowSize\<close> runs over the columns; \<open>lengths[i]\<close> is only read for a variable-length column, and
  reading it past the array is undefined behaviour.
\<close>

fun rowSize_loop :: "u64 \<Rightarrow> RowSchema \<Rightarrow> u64 list \<Rightarrow> fault + u64" where
  "rowSize_loop total_size [] ls = Inr total_size"
| "rowSize_loop total_size (c # cs) ls =
     (case col_type c of
        Variable \<Rightarrow>
          (case ls of
             [] \<Rightarrow> Inl UndefinedBehaviour
           | l # _ \<Rightarrow> rowSize_loop (total_size + (l + 2 * defaultAlignmentSize)) cs (tl ls))
      | Fixed \<Rightarrow> rowSize_loop (total_size + sizeofAligned8 (col_size c)) cs (tl ls)
      | _ \<Rightarrow> rowSize_loop (total_size + defaultAlignmentSize) cs (tl ls))"

definition rowSize :: "RowSchema \<Rightarrow> u64 list \<Rightarrow> fault + u64" where
  "rowSize schema lengths = rowSize_loop 0 schema lengths"

section \<open>SuperChunk\<close>

record SuperChunk =
  sc_chunk :: Chunk
  sc_offset :: u64

definition SuperChunk :: "Chunk \<Rightarrow> SuperChunk" where
  "SuperChunk chunk = \<lparr>sc_chunk = chunk, sc_offset = 0\<rparr>"

definition GetOffset :: "SuperChunk \<Rightarrow> u64" where
  "GetOffset s = sc_offset s"

definition GetVariableOffset :: "SuperChunk \<Rightarrow> u64" where
  "GetVariableOffset s = variable_offset (sc_chunk s)"

definition IncrVariableOffset :: "u64 \<Rightarrow> SuperChunk \<Rightarrow> SuperChunk" where
  "IncrVariableOffset len s =
     s\<lparr>sc_chunk := (sc_chunk s)\<lparr>variable_offset := variable_offset (sc_chunk s) + len\<rparr>\<rparr>"

definition Size :: "SuperChunk \<Rightarrow> u64" where
  "Size s = m_size (sc_chunk s)"

definition RowCount :: "SuperChunk \<Rightarrow> u64" where
  "RowCount s = row_count (sc_chunk s)"

definition IncrRowCount :: "SuperChunk \<Rightarrow> SuperChunk" where
  "IncrRowCount s = s\<lparr>sc_chunk := (sc_chunk s)\<lparr>row_count := row_count (sc_chunk s) + 1\<rparr>\<rparr>"

text \<open>
  A store of bytes into the buffer (\<open>memcpy\<close>, \<open>memset\<close>, an assignment through a cast pointer):
  outside the allocated buffer it is undefined behaviour. \<open>consume\<close> is the bookkeeping every
  store does.
\<close>

definition store :: "u64 \<Rightarrow> u8 list \<Rightarrow> SuperChunk \<Rightarrow> fault + SuperChunk" where
  "store off bs s =
     (if unat off + length bs \<le> length (m_ptr (sc_chunk s))
      then Inr (s\<lparr>sc_chunk := (sc_chunk s)\<lparr>m_ptr := poke (unat off) bs (m_ptr (sc_chunk s))\<rparr>\<rparr>)
      else Inl UndefinedBehaviour)"

definition consume :: "u64 \<Rightarrow> SuperChunk \<Rightarrow> SuperChunk" where
  "consume len s =
     s\<lparr>sc_chunk := (sc_chunk s)\<lparr>consumed_size := consumed_size (sc_chunk s) + len\<rparr>\<rparr>"

definition advance :: "u64 \<Rightarrow> SuperChunk \<Rightarrow> SuperChunk" where
  "advance len s = s\<lparr>sc_offset := sc_offset s + len\<rparr>"

text \<open>
  \<^verbatim>\<open>WriteAt\<close>: the source is a \<open>const void*\<close>, \<open>None\<close> when it is \<open>NULL\<close>; \<open>memcpy\<close> reads
  \<open>len\<close> bytes of it, which must be there.
\<close>

definition WriteAt :: "u64 \<Rightarrow> u8 list option \<Rightarrow> u64 \<Rightarrow> SuperChunk \<Rightarrow> fault + SuperChunk" where
  "WriteAt off src len s =
     (if len = 0 then Inr s
      else (case src of
        None \<Rightarrow> Inl AssertionFailed
      | Some bs \<Rightarrow>
          if \<not> off < Size s then Inl AssertionFailed
          else if \<not> off + len \<le> Size s then Inl AssertionFailed
          else if length bs < unat len then Inl UndefinedBehaviour
          else and_then (store off (take (unat len) bs) s) (\<lambda>s'. Inr (consume len s'))))"

definition Write :: "u8 list option \<Rightarrow> u64 \<Rightarrow> SuperChunk \<Rightarrow> fault + SuperChunk" where
  "Write src len s = and_then (WriteAt (sc_offset s) src len s) (\<lambda>s'. Inr (advance len s'))"

definition Pad :: "u64 \<Rightarrow> bool \<Rightarrow> u8 \<Rightarrow> SuperChunk \<Rightarrow> fault + SuperChunk" where
  "Pad len is_fill_needed fill_character s =
     and_then (if is_fill_needed then store (sc_offset s) (replicate (unat len) fill_character) s
               else Inr s)
       (\<lambda>s'. Inr (consume len (advance len s')))"

definition Write8 :: "u8 list option \<Rightarrow> SuperChunk \<Rightarrow> fault + SuperChunk" where
  "Write8 src s = Write src 8 s"

definition Write4 :: "u8 list option \<Rightarrow> SuperChunk \<Rightarrow> fault + SuperChunk" where
  "Write4 src s = Write src 4 s"

definition Write8Typed :: "u64 \<Rightarrow> SuperChunk \<Rightarrow> fault + SuperChunk" where
  "Write8Typed v s =
     and_then (store (sc_offset s) (to_le 8 v) s) (\<lambda>s'. Inr (advance 8 (consume 8 s')))"

definition Write4Typed :: "u32 \<Rightarrow> SuperChunk \<Rightarrow> fault + SuperChunk" where
  "Write4Typed v s =
     and_then (store (sc_offset s) (to_le 4 v) s) (\<lambda>s'. Inr (advance 4 (consume 4 s')))"

text \<open>Reads through a cast pointer; outside the buffer they are undefined behaviour.\<close>

definition load :: "u64 \<Rightarrow> nat \<Rightarrow> SuperChunk \<Rightarrow> fault + u8 list" where
  "load off n s =
     (if unat off + n \<le> length (m_ptr (sc_chunk s)) then Inr (peek (unat off) n (m_ptr (sc_chunk s)))
      else Inl UndefinedBehaviour)"

definition Read8 :: "SuperChunk \<Rightarrow> fault + (u64 \<times> SuperChunk)" where
  "Read8 s = and_then (load (sc_offset s) 8 s) (\<lambda>bs. Inr (of_le bs, advance 8 s))"

definition Read4 :: "SuperChunk \<Rightarrow> fault + (u32 \<times> SuperChunk)" where
  "Read4 s = and_then (load (sc_offset s) 4 s) (\<lambda>bs. Inr (of_le bs, advance 4 s))"

text \<open>\<^verbatim>\<open>PtrAt\<close> yields a pointer into the buffer, modelled by its offset.\<close>

definition PtrAt :: "u64 \<Rightarrow> SuperChunk \<Rightarrow> fault + u64" where
  "PtrAt off s = (if off < Size s then Inr off else Inl AssertionFailed)"

text \<open>\<^verbatim>\<open>ReadAligned8\<close> returns \<open>None\<close> for \<open>false\<close>, and the pointer otherwise.\<close>

definition ReadAligned8 :: "u64 \<Rightarrow> SuperChunk \<Rightarrow> fault + (u64 option \<times> SuperChunk)" where
  "ReadAligned8 len s =
     (let alignedLen = sizeofAligned8 len in
      if Size s - sc_offset s < alignedLen then Inr (None, s)
      else and_then (PtrAt (sc_offset s) s) (\<lambda>p. Inr (Some p, advance alignedLen s)))"

text \<open>The bytes behind a pointer into the buffer, up to the buffer's end.\<close>

definition bytes_from :: "u64 \<Rightarrow> SuperChunk \<Rightarrow> u8 list" where
  "bytes_from off s = drop (unat off) (m_ptr (sc_chunk s))"

end
