(* ===== verification/Calendar.thy ===== *)
theory Calendar
  imports Utils "HOL-Library.Signed_Division"
begin

text \<open>
  The date and time conversions of \<^verbatim>\<open>hdat/common.hpp\<close>: the wire values \<open>MYSQL_TIME\<close> of the
  database client against the CAS values (days, or microseconds, since 1 January 1960), and the
  text the TSV writer sends. The C library functions they call (\<open>timegm\<close>, \<open>gmtime\<close>, \<open>strftime\<close>,
  \<open>difftime\<close>) are modelled on the proleptic Gregorian calendar with 64-bit \<open>time_t\<close>.
\<close>

section \<open>The Gregorian calendar\<close>

definition leap :: "int \<Rightarrow> bool" where
  "leap y \<longleftrightarrow> 4 dvd y \<and> (\<not> 100 dvd y \<or> 400 dvd y)"

text \<open>Days of the \<open>n\<close> years that precede year \<open>n + 1\<close>.\<close>

definition days_of_years :: "int \<Rightarrow> int" where
  "days_of_years n = 365 * n + n div 4 - n div 100 + n div 400"

text \<open>Days of the year before the first of month \<open>m\<close> (1 to 12).\<close>

definition month_start :: "bool \<Rightarrow> int \<Rightarrow> int" where
  "month_start lp m =
     (if m \<le> 1 then 0 else if m = 2 then 31
      else (if lp then 1 else 0) +
        (if m = 3 then 59 else if m = 4 then 90 else if m = 5 then 120 else if m = 6 then 151
         else if m = 7 then 181 else if m = 8 then 212 else if m = 9 then 243
         else if m = 10 then 273 else if m = 11 then 304 else if m = 12 then 334 else 365))"

definition days_in_month :: "bool \<Rightarrow> int \<Rightarrow> int" where
  "days_in_month lp m = month_start lp (m + 1) - month_start lp m"

text \<open>Days since 1 January 1970 of the first of a month (\<open>719162\<close> days precede it).\<close>

definition first_of_month :: "int \<Rightarrow> int \<Rightarrow> int" where
  "first_of_month y m = days_of_years (y - 1) + month_start (leap y) m - 719162"

record tm =
  tm_year :: int
  tm_mon :: int
  tm_mday :: int
  tm_hour :: int
  tm_min :: int
  tm_sec :: int

text \<open>
  \<open>timegm\<close>: a month outside 0 to 11 is carried into the year, the other fields are added as they
  are. No \<open>int\<close> fields overflow a 64-bit \<open>time_t\<close>.
\<close>

definition timegm :: "tm \<Rightarrow> int" where
  "timegm t =
     (first_of_month (1900 + tm_year t + tm_mon t div 12) (tm_mon t mod 12 + 1) + tm_mday t - 1) * 86400
     + tm_hour t * 3600 + tm_min t * 60 + tm_sec t"

text \<open>
  \<open>gmtime\<close>: the year is estimated from the mean length of a year and corrected by at most one.
\<close>

definition year_of_days :: "int \<Rightarrow> int" where
  "year_of_days n =
     (let e = 400 * n div 146097 in if n < days_of_years (e + 1) then e + 1 else e + 2)"

definition month_of_yday :: "bool \<Rightarrow> int \<Rightarrow> int" where
  "month_of_yday lp d =
     (if d < month_start lp 2 then 1 else if d < month_start lp 3 then 2
      else if d < month_start lp 4 then 3 else if d < month_start lp 5 then 4
      else if d < month_start lp 6 then 5 else if d < month_start lp 7 then 6
      else if d < month_start lp 8 then 7 else if d < month_start lp 9 then 8
      else if d < month_start lp 10 then 9 else if d < month_start lp 11 then 10
      else if d < month_start lp 12 then 11 else 12)"

definition gmtime :: "int \<Rightarrow> tm" where
  "gmtime t =
     (let n = t div 86400 + 719162; s = t mod 86400;
          y = year_of_days n; yday = n - days_of_years (y - 1);
          m = month_of_yday (leap y) yday
      in \<lparr>tm_year = y - 1900, tm_mon = m - 1, tm_mday = yday - month_start (leap y) m + 1,
          tm_hour = s div 3600, tm_min = s mod 3600 div 60, tm_sec = s mod 60\<rparr>)"

definition valid_date :: "int \<Rightarrow> int \<Rightarrow> int \<Rightarrow> bool" where
  "valid_date y m d \<longleftrightarrow> 1 \<le> m \<and> m \<le> 12 \<and> 1 \<le> d \<and> d \<le> days_in_month (leap y) m"

lemma div_step:
  fixes y n :: int
  assumes "0 < n"
  shows "y div n = (y - 1) div n + (if n dvd y then 1 else 0)"
proof (cases "n dvd y")
  case True
  then obtain q where q: "y = n * q" ..
  have "(y - 1) div n = q - 1"
    by (rule int_div_pos_eq [where r = "n - 1"]) (use assms q in \<open>auto simp: algebra_simps\<close>)
  with q assms True show ?thesis by simp
next
  case False
  then have "0 < y mod n"
    using assms by (simp add: dvd_eq_mod_eq_0 order_less_le)
  then have "(y - 1) div n = y div n"
    using assms by (intro int_div_pos_eq [where r = "y mod n - 1"])
      (auto simp: algebra_simps intro: order_less_trans [OF pos_mod_bound])
  with False show ?thesis by simp
qed

lemma div_range:
  fixes k n :: int
  assumes "0 < n"
  shows "n * (k div n) \<le> k" "k \<le> n * (k div n) + (n - 1)"
  using assms pos_mod_bound [of n k] pos_mod_sign [of n k] mult_div_mod_eq [of n k]
  by linarith+

lemma days_of_years_step: "days_of_years y = days_of_years (y - 1) + (if leap y then 366 else 365)"
proof -
  have dvds: "400 dvd y \<Longrightarrow> 100 dvd y" "100 dvd y \<Longrightarrow> 4 dvd y"
    using dvd_trans [of 100 400 y] dvd_trans [of 4 100 y] by simp_all
  have sum: "365 * y + (a + (if p then 1 else 0)) - (b + (if q then 1 else 0)) + (c + (if r then 1 else 0))
      = 365 * (y - 1) + a - b + c + (if p \<and> (\<not> q \<or> r) then 366 else 365)"
    if "r \<Longrightarrow> q" "q \<Longrightarrow> p" for a b c :: int and p q r
    by (cases p; cases q; cases r; use that in simp)
  have step: "y div 4 = (y - 1) div 4 + (if 4 dvd y then 1 else 0)"
    "y div 100 = (y - 1) div 100 + (if 100 dvd y then 1 else 0)"
    "y div 400 = (y - 1) div 400 + (if 400 dvd y then 1 else 0)"
    by (rule div_step, simp)+
  show ?thesis
    unfolding days_of_years_def leap_def step using dvds by (rule sum)
qed

text \<open>The estimate misses the year by at most one.\<close>

lemma days_of_years_bounds:
  "146097 * k \<le> 400 * days_of_years k + 591" "400 * days_of_years k \<le> 146097 * k + 288"
proof -
  define a b c where "a = k div 4" and "b = a div 25" and "c = b div 4"
  have "k div 100 = b" "k div 400 = c"
    by (simp_all add: a_def b_def c_def zdiv_zmult2_eq [symmetric])
  then have days: "days_of_years k = 365 * k + a - b + c"
    by (simp add: days_of_years_def a_def)
  define r t u where "r = k - 4 * a" and "t = a - 25 * b" and "u = b - 4 * c"
  then have k: "k = 4 * a + r" "a = 25 * b + t" "b = 4 * c + u" by simp_all
  have bounds: "0 \<le> r" "r \<le> 3" "0 \<le> t" "t \<le> 24" "0 \<le> u" "u \<le> 3"
    using div_range [of 4 k, folded a_def] div_range [of 25 a, folded b_def]
      div_range [of 4 b, folded c_def]
    unfolding r_def t_def u_def by simp_all
  have eq: "400 * days_of_years k = 146097 * k - 97 * r + 12 * t - 100 * u"
    unfolding days by (simp add: k algebra_simps)
  show "146097 * k \<le> 400 * days_of_years k + 591" "400 * days_of_years k \<le> 146097 * k + 288"
    using bounds unfolding eq by linarith+
qed

lemma year_of_days:
  assumes "days_of_years k \<le> n" "n < days_of_years (k + 1)"
  shows "year_of_days n = k + 1"
proof -
  define e where "e = 400 * n div 146097"
  have e: "146097 * e \<le> 400 * n" "400 * n \<le> 146097 * e + 146096"
    using div_range [of 146097 "400 * n"] by (simp_all add: e_def)
  have "146097 * (k - 1) < 146097 * (e + 1)"
    using e assms(1) days_of_years_bounds(1) [of k] by (simp add: algebra_simps)
  moreover have "146097 * e < 146097 * (k + 1)"
    using e assms(2) days_of_years_bounds(2) [of "k + 1"] by (simp add: algebra_simps)
  ultimately have "k - 1 \<le> e" "e \<le> k" by simp_all
  then consider "e = k" | "e = k - 1" by linarith
  then show ?thesis
    using assms by cases (simp_all add: year_of_days_def e_def [symmetric])
qed

lemma month_of_yday:
  assumes "1 \<le> m" "m \<le> 12" "1 \<le> d" "d \<le> days_in_month lp m"
  shows "month_of_yday lp (month_start lp m + d - 1) = m"
proof -
  have "m = 1 \<or> m = 2 \<or> m = 3 \<or> m = 4 \<or> m = 5 \<or> m = 6 \<or> m = 7 \<or> m = 8 \<or> m = 9 \<or>
      m = 10 \<or> m = 11 \<or> m = 12"
    using assms(1,2) by presburger
  then show ?thesis
    using assms by (elim disjE) (simp_all add: month_of_yday_def month_start_def days_in_month_def)
qed

lemma month_start_in_year:
  assumes "1 \<le> m" "m \<le> 12"
  shows "0 \<le> month_start lp m" "month_start lp (m + 1) \<le> (if lp then 366 else 365)"
  using assms by (auto simp: month_start_def)

text \<open>\<open>gmtime\<close> inverts \<open>timegm\<close> on every valid date and time of day.\<close>

lemma gmtime_timegm:
  assumes "valid_date y m d" "0 \<le> hh" "hh < 24" "0 \<le> mi" "mi < 60" "0 \<le> ss" "ss < 60"
  shows "gmtime (timegm \<lparr>tm_year = y - 1900, tm_mon = m - 1, tm_mday = d,
            tm_hour = hh, tm_min = mi, tm_sec = ss\<rparr>) =
         \<lparr>tm_year = y - 1900, tm_mon = m - 1, tm_mday = d, tm_hour = hh, tm_min = mi, tm_sec = ss\<rparr>"
proof -
  define n where "n = days_of_years (y - 1) + (month_start (leap y) m + d - 1)"
  define s where "s = hh * 3600 + mi * 60 + ss"
  note md = assms(1) [unfolded valid_date_def]
  have s: "0 \<le> s" "s < 86400" using assms by (auto simp: s_def)
  have "timegm \<lparr>tm_year = y - 1900, tm_mon = m - 1, tm_mday = d,
      tm_hour = hh, tm_min = mi, tm_sec = ss\<rparr> = (n - 719162) * 86400 + s"
    using md by (simp add: timegm_def first_of_month_def n_def s_def algebra_simps)
  moreover have "((n - 719162) * 86400 + s) div 86400 = n - 719162"
    "((n - 719162) * 86400 + s) mod 86400 = s"
    using s by (auto intro: int_div_pos_eq [where q = "n - 719162"] int_mod_pos_eq [where q = "n - 719162"])
  moreover have "days_of_years (y - 1) \<le> n" "n < days_of_years (y - 1 + 1)"
    using md month_start_in_year [of m "leap y"] days_of_years_step [of y]
    by (auto simp: n_def days_in_month_def)
  then have "year_of_days n = y"
    using year_of_days by fastforce
  moreover have "month_of_yday (leap y) (n - days_of_years (y - 1)) = m"
    using md by (simp add: n_def month_of_yday)
  moreover have "s div 3600 = hh" "s mod 3600 div 60 = mi" "s mod 60 = ss"
  proof -
    show "s div 3600 = hh"
      using assms by (intro int_div_pos_eq [where r = "mi * 60 + ss"]) (auto simp: s_def)
    have "s mod 3600 = mi * 60 + ss"
      using assms by (intro int_mod_pos_eq [where q = hh]) (auto simp: s_def)
    moreover have "(mi * 60 + ss) div 60 = mi"
      using assms by simp
    ultimately show "s mod 3600 div 60 = mi" by simp
    show "s mod 60 = ss"
      using assms by (intro int_mod_pos_eq [where q = "hh * 60 + mi"]) (auto simp: s_def)
  qed
  moreover have "n - days_of_years (y - 1) - month_start (leap y) m + 1 = d"
    by (simp add: n_def)
  ultimately show ?thesis
    unfolding gmtime_def Let_def by (simp only: diff_add_cancel)
qed

section \<open>Values of the database client\<close>

record MYSQL_TIME =
  t_year :: u32
  t_month :: u32
  t_day :: u32
  t_hour :: u32
  t_minute :: u32
  t_second :: u32
  t_second_part :: u64
  t_neg :: bool

definition secToMicroSec :: int where "secToMicroSec = 1000000"
definition dayToSec :: int where "dayToSec = 86400"

text \<open>\<open>difftime\<close> is exact on these values: a difference of dates up to the year 9999 is a
  \<open>double\<close> without rounding.\<close>

definition difftime :: "int \<Rightarrow> int \<Rightarrow> int" where
  "difftime t1 t0 = t1 - t0"

definition zeroTimePointCAS :: int where
  "zeroTimePointCAS = timegm \<lparr>tm_year = 60, tm_mon = 0, tm_mday = 1, tm_hour = 0, tm_min = 0, tm_sec = 0\<rparr>"

definition zeroTimePointUnix :: int where
  "zeroTimePointUnix = timegm \<lparr>tm_year = 70, tm_mon = 0, tm_mday = 1, tm_hour = 0, tm_min = 0, tm_sec = 0\<rparr>"

definition CASshiftSec :: int where
  "CASshiftSec = difftime zeroTimePointUnix zeroTimePointCAS"

lemma time_constants [simp]:
  "zeroTimePointCAS = - 315619200" "zeroTimePointUnix = 0" "CASshiftSec = 315619200"
  by (simp_all add: zeroTimePointCAS_def zeroTimePointUnix_def CASshiftSec_def difftime_def
      timegm_def first_of_month_def days_of_years_def month_start_def)

text \<open>
  \<^verbatim>\<open>toTimeCAS\<close>: the seconds are an \<open>unsigned int\<close>, the product with \<open>secToMicroSec\<close> an \<open>int64_t\<close>,
  the sum with the \<open>unsigned long\<close> microseconds 64 bits wide.
\<close>

definition toTimeCAS :: "MYSQL_TIME \<Rightarrow> i64" where
  "toTimeCAS dt =
     (let secs = t_second dt + t_minute dt * 60 + t_hour dt * 3600;
          timeVal = t_second_part dt + word_of_int secToMicroSec * (ucast secs :: u64)
      in if t_neg dt then - timeVal else timeVal)"

text \<open>
  \<^verbatim>\<open>toDateCAS\<close> and \<^verbatim>\<open>toDateTimeCAS\<close>. The fields of \<open>MYSQL_TIME\<close> are unsigned and those of \<open>tm\<close>
  signed. A \<open>double\<close> outside the range of the integer type it is cast to is undefined behaviour:
  the days of \<^verbatim>\<open>toDateCAS\<close> are cast to \<open>int32_t\<close>, the seconds of \<^verbatim>\<open>toDateTimeCAS\<close> to the unsigned
  \<open>ino64_t\<close>, for which every date before 1960 is out of range.
\<close>

definition dateTm :: "MYSQL_TIME \<Rightarrow> tm" where
  "dateTm dt = \<lparr>tm_year = sint (t_year dt - 1900), tm_mon = sint (t_month dt - 1),
     tm_mday = sint (t_day dt), tm_hour = 0, tm_min = 0, tm_sec = 0\<rparr>"

definition toDateCAS :: "MYSQL_TIME \<Rightarrow> fault + i32" where
  "toDateCAS dt =
     (let inputDate = timegm (dateTm dt) in
      if inputDate = - 1 then Inl (S2ClientError S2C_ERROR_INV_ARG ''Invalid Date read from DB'')
      else
        let days = difftime inputDate zeroTimePointCAS sdiv (3600 * 24) in
        if - INT_MAX - 1 \<le> days \<and> days \<le> INT_MAX then Inr (word_of_int days)
        else Inl UndefinedBehaviour)"

definition toDateTimeCAS :: "MYSQL_TIME \<Rightarrow> fault + i64" where
  "toDateTimeCAS dt =
     (let inputDate = timegm ((dateTm dt)\<lparr>tm_hour := sint (t_hour dt), tm_min := sint (t_minute dt),
                        tm_sec := sint (t_second dt)\<rparr>) in
      if inputDate = - 1 then Inl (S2ClientError S2C_ERROR_INV_ARG ''Invalid Date read from DB'')
      else
        let secs = difftime inputDate zeroTimePointCAS in
        if 0 \<le> secs then Inr ((word_of_int secs :: u64) * word_of_int secToMicroSec + t_second_part dt)
        else Inl UndefinedBehaviour)"

section \<open>Text of CAS values\<close>

definition zero_padded :: "nat \<Rightarrow> int \<Rightarrow> string" where
  "zero_padded w i = replicate (w - length (int_to_string i)) CHR ''0'' @ int_to_string i"

text \<open>\<open>strftime\<close> for the two formats used.\<close>

definition strftime_date :: "tm \<Rightarrow> string" where
  "strftime_date t = int_to_string (1900 + tm_year t) @ ''-'' @ zero_padded 2 (tm_mon t + 1) @ ''-'' @
     zero_padded 2 (tm_mday t)"

definition strftime_datetime :: "tm \<Rightarrow> string" where
  "strftime_datetime t = strftime_date t @ '' '' @ zero_padded 2 (tm_hour t) @ '':'' @
     zero_padded 2 (tm_min t) @ '':'' @ zero_padded 2 (tm_sec t)"

text \<open>
  \<^verbatim>\<open>fromTimeCAS\<close>: \<open>labs\<close> of the least value overflows; the cast in
  \<open>(int32_t)total_seconds / 60\<close> applies to \<open>total_seconds\<close>, before the division.
\<close>

definition fromTimeCAS :: "i64 \<Rightarrow> fault + string" where
  "fromTimeCAS cas_time =
     (if cas_time = 0x8000000000000000 then Inl UndefinedBehaviour
      else
        let abs_time = \<bar>sint cas_time\<bar>;
            total_seconds = abs_time sdiv secToMicroSec;
            microseconds = abs_time smod secToMicroSec;
            seconds = total_seconds smod 60;
            total_minutes = sint (word_of_int total_seconds :: i32) sdiv 60;
            minutes = total_minutes smod 60;
            hours = total_minutes sdiv 60;
            sign = (if abs_time = sint cas_time then '''' else ''-'')
        in Inr (sign @ int_to_string hours @ '':'' @ int_to_string minutes @ '':'' @
             int_to_string seconds @ ''.'' @ zero_padded 6 microseconds))"

text \<open>
  \<^verbatim>\<open>fromDateCAS\<close> has a buffer of 11 characters: when the text and its terminator do not fit,
  \<open>strftime\<close> leaves the buffer indeterminate. \<^verbatim>\<open>fromDateTimeCAS\<close> has 30.
\<close>

definition fromDateCAS :: "i32 \<Rightarrow> fault + string" where
  "fromDateCAS dtInt =
     (let UnixTimestamp = sint dtInt * dayToSec - CASshiftSec;
          txt = strftime_date (gmtime UnixTimestamp)
      in if 11 < length txt + 1 then Inl UndefinedBehaviour else Inr txt)"

definition fromDateTimeCAS :: "i64 \<Rightarrow> fault + string" where
  "fromDateTimeCAS dtInt =
     (let microSec0 = sint dtInt smod secToMicroSec;
          UnixTimestamp0 = sint dtInt sdiv secToMicroSec - CASshiftSec;
          microSec = (if microSec0 < 0 then microSec0 + secToMicroSec else microSec0);
          UnixTimestamp = (if microSec0 < 0 then UnixTimestamp0 - 1 else UnixTimestamp0);
          txt = strftime_datetime (gmtime UnixTimestamp)
      in if 30 < length txt + 1 then Inl UndefinedBehaviour
         else Inr (txt @ (if microSec \<noteq> 0 then ''.'' @ zero_padded 6 microSec else '''')))"

section \<open>What the conversions compute\<close>

text \<open>The dates the database accepts, and the text of a date and of a time of day.\<close>

definition mysql_date :: "MYSQL_TIME \<Rightarrow> bool" where
  "mysql_date dt \<longleftrightarrow> 1000 \<le> uint (t_year dt) \<and> uint (t_year dt) \<le> 9999 \<and>
     valid_date (uint (t_year dt)) (uint (t_month dt)) (uint (t_day dt))"

definition mysql_clock :: "MYSQL_TIME \<Rightarrow> bool" where
  "mysql_clock dt \<longleftrightarrow> uint (t_hour dt) < 24 \<and> uint (t_minute dt) < 60 \<and> uint (t_second dt) < 60 \<and>
     uint (t_second_part dt) < 1000000"

definition date_text :: "MYSQL_TIME \<Rightarrow> string" where
  "date_text dt = int_to_string (uint (t_year dt)) @ ''-'' @ zero_padded 2 (uint (t_month dt)) @
     ''-'' @ zero_padded 2 (uint (t_day dt))"

definition clock_text :: "MYSQL_TIME \<Rightarrow> string" where
  "clock_text dt = zero_padded 2 (uint (t_hour dt)) @ '':'' @ zero_padded 2 (uint (t_minute dt)) @
     '':'' @ zero_padded 2 (uint (t_second dt)) @
     (if t_second_part dt \<noteq> 0 then ''.'' @ zero_padded 6 (uint (t_second_part dt)) else '''')"

lemma length_nat_to_string:
  "n < 10 \<Longrightarrow> length (nat_to_string n) = 1"
  "10 \<le> n \<Longrightarrow> length (nat_to_string n) = Suc (length (nat_to_string (n div 10)))"
  by (subst nat_to_string.simps; simp)+

lemma length_zero_padded_2 [simp]:
  assumes "0 \<le> i" "i < 100"
  shows "length (zero_padded 2 i) = 2"
proof (cases "nat i < 10")
  case False
  then have "length (nat_to_string (nat i)) = 2"
    using assms by (simp add: length_nat_to_string)
  with assms show ?thesis by (simp add: zero_padded_def int_to_string_def)
qed (use assms in \<open>simp add: zero_padded_def int_to_string_def length_nat_to_string\<close>)

lemma length_int_to_string_4:
  assumes "1000 \<le> i" "i \<le> 9999"
  shows "length (int_to_string i) = 4"
proof -
  define n where "n = nat i"
  have n: "1000 \<le> n" "n \<le> 9999" using assms by (auto simp: n_def)
  then have "10 \<le> n" "10 \<le> n div 10" "10 \<le> n div 10 div 10" "n div 10 div 10 div 10 < 10"
    by auto
  then have "length (nat_to_string n) = 4"
    by (simp only: length_nat_to_string)
  with assms show ?thesis by (simp add: int_to_string_def n_def)
qed

lemma valid_date_bounds:
  assumes "valid_date y m d"
  shows "1 \<le> m" "m \<le> 12" "1 \<le> d" "d \<le> 31"
proof -
  show m: "1 \<le> m" "m \<le> 12" and "1 \<le> d" using assms by (auto simp: valid_date_def)
  have "days_in_month lp m \<le> 31" for lp
    using m by (auto simp: days_in_month_def month_start_def)
  with assms show "d \<le> 31" by (auto simp: valid_date_def intro: order_trans)
qed

lemma length_date_text:
  assumes "mysql_date dt"
  shows "length (date_text dt) = 10"
  using assms valid_date_bounds [of "uint (t_year dt)" "uint (t_month dt)" "uint (t_day dt)"]
  by (simp add: date_text_def mysql_date_def length_int_to_string_4)

lemma sint_u32_minus:
  fixes w c :: u32
  assumes "uint w \<le> 9999" "uint c \<le> 1900"
  shows "sint (w - c) = uint w - uint c"
proof -
  have "- 2147483648 \<le> uint w - uint c" "uint w - uint c < 2147483648"
    using assms uint_nonnegative [of w] uint_nonnegative [of c] by linarith+
  then show ?thesis
    unfolding word_diff_eq_word_of_int by (intro sint_word_of_int_id) simp_all
qed

lemma sint_u32_small: "uint (w :: u32) \<le> 9999 \<Longrightarrow> sint w = uint w"
  using sint_u32_minus [of w 0] by simp

lemma dateTm_eq:
  assumes "mysql_date dt"
  shows "dateTm dt = \<lparr>tm_year = uint (t_year dt) - 1900, tm_mon = uint (t_month dt) - 1,
    tm_mday = uint (t_day dt), tm_hour = 0, tm_min = 0, tm_sec = 0\<rparr>"
  using assms valid_date_bounds [of "uint (t_year dt)" "uint (t_month dt)" "uint (t_day dt)"]
  by (simp add: dateTm_def mysql_date_def sint_u32_minus sint_u32_small)

text \<open>Days since 1 January 1960.\<close>

definition cas_days :: "int \<Rightarrow> int \<Rightarrow> int \<Rightarrow> int" where
  "cas_days y m d = first_of_month y m + d - 1 + 3653"

lemma timegm_clock:
  assumes "1 \<le> m" "m \<le> 12"
  shows "timegm \<lparr>tm_year = y - 1900, tm_mon = m - 1, tm_mday = d, tm_hour = hh, tm_min = mi, tm_sec = ss\<rparr>
    = cas_days y m d * 86400 - 315619200 + (hh * 3600 + mi * 60 + ss)"
  using assms by (simp add: timegm_def cas_days_def)

lemma cas_days_bounds:
  assumes "1000 \<le> y" "y \<le> 9999" "valid_date y m d"
  shows "- 1000000 < cas_days y m d" "cas_days y m d < 4000000"
proof -
  note md = valid_date_bounds [OF assms(3)]
  have "0 \<le> month_start (leap y) m" "month_start (leap y) m \<le> 366"
    using md by (auto simp: month_start_def)
  moreover have "0 \<le> days_of_years (y - 1)" "days_of_years (y - 1) \<le> 3660000"
    using days_of_years_bounds [of "y - 1"] assms by simp_all
  ultimately show "- 1000000 < cas_days y m d" "cas_days y m d < 4000000"
    using md by (simp_all add: cas_days_def first_of_month_def)
qed

lemma toDateCAS_eq:
  assumes "mysql_date dt"
  shows "toDateCAS dt = Inr (word_of_int (cas_days (uint (t_year dt)) (uint (t_month dt)) (uint (t_day dt))))"
proof -
  let ?c = "cas_days (uint (t_year dt)) (uint (t_month dt)) (uint (t_day dt))"
  have v: "valid_date (uint (t_year dt)) (uint (t_month dt)) (uint (t_day dt))"
    and y: "1000 \<le> uint (t_year dt)" "uint (t_year dt) \<le> 9999"
    using assms by (auto simp: mysql_date_def)
  note b = cas_days_bounds [OF y v]
  have t: "timegm (dateTm dt) = ?c * 86400 - 315619200"
    using valid_date_bounds [OF v] by (simp add: dateTm_eq [OF assms] timegm_clock)
  have "?c * 86400 - 315619200 \<noteq> - 1"
  proof
    assume "?c * 86400 - 315619200 = - 1"
    then have "(?c * 86400) mod 2 = 315619199 mod 2" by simp
    then show False by (simp add: mod_mult_right_eq [symmetric])
  qed
  moreover have "(?c * 86400) sdiv 86400 = ?c"
    by (simp add: signed_divide_int_eq_divide_int)
  ultimately show ?thesis
    using b by (simp add: toDateCAS_def t difftime_def INT_MAX_def)
qed

lemma gmtime_cas:
  assumes "valid_date y m d" "0 \<le> hh" "hh < 24" "0 \<le> mi" "mi < 60" "0 \<le> ss" "ss < 60"
  shows "gmtime (cas_days y m d * 86400 - 315619200 + (hh * 3600 + mi * 60 + ss)) =
    \<lparr>tm_year = y - 1900, tm_mon = m - 1, tm_mday = d, tm_hour = hh, tm_min = mi, tm_sec = ss\<rparr>"
  using gmtime_timegm [OF assms] valid_date_bounds [OF assms(1)] by (simp add: timegm_clock)

lemma fromDateCAS_days:
  assumes "mysql_date dt"
  shows "fromDateCAS (word_of_int (cas_days (uint (t_year dt)) (uint (t_month dt)) (uint (t_day dt))))
    = Inr (date_text dt)"
proof -
  let ?c = "cas_days (uint (t_year dt)) (uint (t_month dt)) (uint (t_day dt))"
  have v: "valid_date (uint (t_year dt)) (uint (t_month dt)) (uint (t_day dt))"
    and y: "1000 \<le> uint (t_year dt)" "uint (t_year dt) \<le> 9999"
    using assms by (auto simp: mysql_date_def)
  have "sint (word_of_int ?c :: i32) = ?c"
    using cas_days_bounds [OF y v] by (intro sint_word_of_int_id) simp_all
  moreover have "strftime_date (gmtime (?c * 86400 - 315619200)) = date_text dt"
    using gmtime_cas [OF v, of 0 0 0] by (simp add: strftime_date_def date_text_def)
  ultimately show ?thesis
    using length_date_text [OF assms] by (simp add: fromDateCAS_def dayToSec_def)
qed

text \<open>The seconds of a time of day.\<close>

definition clock_secs :: "MYSQL_TIME \<Rightarrow> int" where
  "clock_secs dt = uint (t_hour dt) * 3600 + uint (t_minute dt) * 60 + uint (t_second dt)"

lemma clock_secs_bounds:
  assumes "mysql_clock dt"
  shows "0 \<le> clock_secs dt" "clock_secs dt < 86400"
  using assms by (auto simp: mysql_clock_def clock_secs_def intro!: add_nonneg_nonneg)

lemma timegm_datetime:
  assumes "mysql_date dt" "mysql_clock dt"
  shows "timegm ((dateTm dt)\<lparr>tm_hour := sint (t_hour dt), tm_min := sint (t_minute dt),
      tm_sec := sint (t_second dt)\<rparr>) =
    cas_days (uint (t_year dt)) (uint (t_month dt)) (uint (t_day dt)) * 86400 - 315619200 + clock_secs dt"
proof -
  have v: "valid_date (uint (t_year dt)) (uint (t_month dt)) (uint (t_day dt))"
    using assms by (auto simp: mysql_date_def)
  have "sint (t_hour dt) = uint (t_hour dt)" "sint (t_minute dt) = uint (t_minute dt)"
    "sint (t_second dt) = uint (t_second dt)"
    using assms(2) by (auto simp: mysql_clock_def intro!: sint_u32_small)
  with valid_date_bounds [OF v] show ?thesis
    by (simp add: dateTm_eq [OF assms(1)] timegm_clock clock_secs_def)
qed

text \<open>Microseconds since 1 January 1960.\<close>

definition cas_micros :: "MYSQL_TIME \<Rightarrow> int" where
  "cas_micros dt =
     (cas_days (uint (t_year dt)) (uint (t_month dt)) (uint (t_day dt)) * 86400 + clock_secs dt) * 1000000 +
     uint (t_second_part dt)"

lemma cas_days_1960: "1960 \<le> y \<Longrightarrow> 1 \<le> m \<Longrightarrow> m \<le> 12 \<Longrightarrow> 1 \<le> d \<Longrightarrow> 0 \<le> cas_days y m d"
proof -
  assume a: "1960 \<le> y" "1 \<le> m" "m \<le> 12" "1 \<le> d"
  define a4 a100 a400 where "a4 = (y - 1) div 4" and "a100 = (y - 1) div 100" and "a400 = (y - 1) div 400"
  have "a100 = a4 div 25" by (simp add: a4_def a100_def zdiv_zmult2_eq [symmetric])
  then have "25 * a100 \<le> a4" using div_range [of 25 a4] by simp
  moreover have "489 \<le> a4" "4 \<le> a400"
    using a zdiv_mono1 [of 1959 "y - 1" 4] zdiv_mono1 [of 1959 "y - 1" 400]
    by (simp_all add: a4_def a400_def)
  moreover have "y - 1 \<le> 4 * a4 + 3" using div_range [of 4 "y - 1"] by (simp add: a4_def)
  moreover have "a4 \<le> 25 * a100 + 24" using div_range [of 25 a4] \<open>a100 = a4 div 25\<close> by simp
  moreover have "a100 \<le> 4 * a400 + 3" using div_range [of 4 a100]
    by (simp add: a100_def a400_def zdiv_zmult2_eq [symmetric])
  moreover have "0 \<le> month_start (leap y) m" using a by (auto simp: month_start_def)
  moreover have "days_of_years (y - 1) = 365 * (y - 1) + a4 - a100 + a400"
    by (simp add: days_of_years_def a4_def a100_def a400_def)
  ultimately show "0 \<le> cas_days y m d"
    using a by (simp add: cas_days_def first_of_month_def)
qed

lemma toDateTimeCAS_eq:
  assumes "mysql_date dt" "mysql_clock dt" "1960 \<le> uint (t_year dt)"
    and "cas_days (uint (t_year dt)) (uint (t_month dt)) (uint (t_day dt)) * 86400 + clock_secs dt
      \<noteq> 315619199"
  shows "toDateTimeCAS dt = Inr (word_of_int (cas_micros dt))"
proof -
  let ?c = "cas_days (uint (t_year dt)) (uint (t_month dt)) (uint (t_day dt))"
  have v: "valid_date (uint (t_year dt)) (uint (t_month dt)) (uint (t_day dt))"
    using assms by (auto simp: mysql_date_def)
  have "0 \<le> ?c * 86400 + clock_secs dt"
    using cas_days_1960 [OF assms(3)] valid_date_bounds [OF v] clock_secs_bounds [OF assms(2)] by simp
  moreover have "(word_of_int (?c * 86400 + clock_secs dt) :: u64) * word_of_int 1000000 + t_second_part dt
      = word_of_int (cas_micros dt)"
    by (simp add: cas_micros_def)
  ultimately show ?thesis
    using assms(4)
    by (simp add: toDateTimeCAS_def timegm_datetime [OF assms(1,2)] difftime_def secToMicroSec_def
        algebra_simps)
qed

text \<open>
  The correction of a negative remainder turns the truncating division of C++ into the
  division that rounds down.
\<close>

lemma floor_correction:
  fixes x m :: int
  assumes "0 < m"
  shows "(if x smod m < 0 then x smod m + m else x smod m) = x mod m"
    "(if x smod m < 0 then x sdiv m - 1 else x sdiv m) = x div m"
proof -
  have r: "0 \<le> x mod m" "x mod m < m" using assms by simp_all
  show "(if x smod m < 0 then x smod m + m else x smod m) = x mod m"
    "(if x smod m < 0 then x sdiv m - 1 else x sdiv m) = x div m"
    using assms r
    by (auto simp: signed_modulo_int_eq_modulo_int signed_divide_int_eq_divide_int
        dvd_eq_mod_eq_0)
qed

lemma fromDateTimeCAS_floor:
  "fromDateTimeCAS x =
     (let micro = sint x mod 1000000; secs = sint x div 1000000 - 315619200;
          txt = strftime_datetime (gmtime secs)
      in if 30 < length txt + 1 then Inl UndefinedBehaviour
         else Inr (txt @ (if micro \<noteq> 0 then ''.'' @ zero_padded 6 micro else '''')))"
proof -
  have "(if sint x smod 1000000 < 0 then sint x sdiv 1000000 - CASshiftSec - 1
      else sint x sdiv 1000000 - CASshiftSec) = sint x div 1000000 - 315619200"
    using floor_correction(2) [of 1000000 "sint x"] by (auto split: if_splits)
  then show ?thesis
    unfolding fromDateTimeCAS_def Let_def secToMicroSec_def
    by (simp only: floor_correction(1) zero_less_numeral)
qed

lemma micros_range:
  fixes c k p :: int
  assumes "- 1000000 < c" "c < 4000000" "0 \<le> k" "k < 86400" "0 \<le> p" "p < 1000000"
  shows "- 9223372036854775808 \<le> (c * 86400 + k) * 1000000 + p"
    "(c * 86400 + k) * 1000000 + p < 9223372036854775808"
proof -
  have "- 1000000 * 86400 \<le> c * 86400 + k" "c * 86400 + k \<le> 4000000 * 86400"
    using assms by simp_all
  then have "- 1000000 * 86400 * 1000000 \<le> (c * 86400 + k) * 1000000"
    "(c * 86400 + k) * 1000000 \<le> 4000000 * 86400 * 1000000"
    by simp_all
  with assms show "- 9223372036854775808 \<le> (c * 86400 + k) * 1000000 + p"
    "(c * 86400 + k) * 1000000 + p < 9223372036854775808"
    by simp_all
qed

lemma fromDateTimeCAS_micros:
  assumes "mysql_date dt" "mysql_clock dt"
  shows "fromDateTimeCAS (word_of_int (cas_micros dt)) = Inr (date_text dt @ '' '' @ clock_text dt)"
proof -
  let ?c = "cas_days (uint (t_year dt)) (uint (t_month dt)) (uint (t_day dt))"
  have v: "valid_date (uint (t_year dt)) (uint (t_month dt)) (uint (t_day dt))"
    and y: "1000 \<le> uint (t_year dt)" "uint (t_year dt) \<le> 9999"
    using assms by (auto simp: mysql_date_def)
  note b = cas_days_bounds [OF y v] clock_secs_bounds [OF assms(2)]
  have p: "0 \<le> uint (t_second_part dt)" "uint (t_second_part dt) < 1000000"
    using assms(2) by (auto simp: mysql_clock_def)
  have "sint (word_of_int (cas_micros dt) :: i64) = cas_micros dt"
    using micros_range [OF b p] by (intro sint_word_of_int_id) (simp_all add: cas_micros_def)
  moreover have "cas_micros dt mod 1000000 = uint (t_second_part dt)"
    "cas_micros dt div 1000000 = ?c * 86400 + clock_secs dt"
    using p unfolding cas_micros_def
    by (auto intro: int_mod_pos_eq [where q = "?c * 86400 + clock_secs dt"]
        int_div_pos_eq [where r = "uint (t_second_part dt)"])
  moreover have "gmtime (?c * 86400 + clock_secs dt - 315619200) =
      \<lparr>tm_year = uint (t_year dt) - 1900, tm_mon = uint (t_month dt) - 1, tm_mday = uint (t_day dt),
       tm_hour = uint (t_hour dt), tm_min = uint (t_minute dt), tm_sec = uint (t_second dt)\<rparr>"
    using gmtime_cas [OF v, of "uint (t_hour dt)" "uint (t_minute dt)" "uint (t_second dt)"] assms(2)
    by (simp add: mysql_clock_def clock_secs_def algebra_simps)
  moreover have "t_second_part dt \<noteq> 0 \<longleftrightarrow> uint (t_second_part dt) \<noteq> 0"
    by (simp add: uint_0_iff)
  ultimately show ?thesis
    using length_date_text [OF assms(1)] assms(2)
    by (simp add: fromDateTimeCAS_floor Let_def strftime_datetime_def strftime_date_def date_text_def
        clock_text_def mysql_clock_def)
qed

section \<open>Times of day\<close>

text \<open>The times the database has: up to 838 hours, signed.\<close>

definition mysql_time :: "MYSQL_TIME \<Rightarrow> bool" where
  "mysql_time dt \<longleftrightarrow> uint (t_hour dt) \<le> 838 \<and> uint (t_minute dt) < 60 \<and> uint (t_second dt) < 60 \<and>
     uint (t_second_part dt) < 1000000"

definition time_micros :: "MYSQL_TIME \<Rightarrow> int" where
  "time_micros dt = clock_secs dt * 1000000 + uint (t_second_part dt)"

lemma toTimeCAS_eq:
  assumes "mysql_time dt"
  shows "toTimeCAS dt = word_of_int (if t_neg dt then - time_micros dt else time_micros dt)"
proof -
  have "uint (t_second dt + t_minute dt * 60 + t_hour dt * 3600) = clock_secs dt"
  proof -
    have "t_second dt + t_minute dt * 60 + t_hour dt * 3600 = word_of_int (clock_secs dt)"
      by (simp add: clock_secs_def add_ac)
    moreover have "0 \<le> clock_secs dt" "clock_secs dt < 2 ^ 32"
      using assms by (auto simp: clock_secs_def mysql_time_def intro!: add_nonneg_nonneg)
    ultimately show ?thesis
      by (simp add: uint_word_of_int_eq take_bit_int_eq_self)
  qed
  then have "(ucast (t_second dt + t_minute dt * 60 + t_hour dt * 3600) :: u64) = word_of_int (clock_secs dt)"
    by (simp only: ucast_eq)
  then show ?thesis
    by (simp add: toTimeCAS_def Let_def secToMicroSec_def time_micros_def algebra_simps)
qed

lemma fromTimeCAS_micros:
  assumes "mysql_time dt" "s = (if t_neg dt then - time_micros dt else time_micros dt)"
  shows "fromTimeCAS (word_of_int s) =
    Inr ((if t_neg dt \<and> time_micros dt \<noteq> 0 then ''-'' else '''') @ int_to_string (uint (t_hour dt)) @ '':'' @
      int_to_string (uint (t_minute dt)) @ '':'' @ int_to_string (uint (t_second dt)) @ ''.'' @
      zero_padded 6 (uint (t_second_part dt)))"
proof -
  define hh mi ss p where "hh = uint (t_hour dt)" and "mi = uint (t_minute dt)"
    and "ss = uint (t_second dt)" and "p = uint (t_second_part dt)"
  have r: "0 \<le> hh" "hh \<le> 838" "0 \<le> mi" "mi < 60" "0 \<le> ss" "ss < 60" "0 \<le> p" "p < 1000000"
    using assms(1) by (simp_all add: mysql_time_def hh_def mi_def ss_def p_def)
  define c where "c = hh * 3600 + mi * 60 + ss"
  have c: "0 \<le> c" "c < 3100000" and t: "time_micros dt = c * 1000000 + p"
    using r by (simp_all add: c_def time_micros_def clock_secs_def hh_def mi_def ss_def p_def)
  have "- 4000000000000 < s" "s < 4000000000000"
    using c r assms(2) by (auto simp: t)
  then have sw: "sint (word_of_int s :: i64) = s"
    by (intro sint_word_of_int_id) simp_all
  have "(word_of_int s :: i64) \<noteq> 0x8000000000000000"
  proof
    assume "(word_of_int s :: i64) = 0x8000000000000000"
    then have "s = sint (0x8000000000000000 :: i64)" using sw by simp
    then show False using \<open>- 4000000000000 < s\<close> by simp
  qed
  moreover have abs: "\<bar>s\<bar> = c * 1000000 + p"
    using c r assms(2) by (simp add: t)
  moreover have "(c * 1000000 + p) sdiv 1000000 = c" "(c * 1000000 + p) smod 1000000 = p"
    using c r by (simp_all add: signed_divide_int_def signed_modulo_int_def sgn_if)
  moreover have "sint (word_of_int c :: i32) = c"
    using c by (intro sint_word_of_int_id) simp_all
  moreover have "c smod 60 = ss" "c sdiv 60 = hh * 60 + mi"
    using c r by (auto simp: signed_divide_int_def signed_modulo_int_def sgn_if c_def
        intro: int_mod_pos_eq [where q = "hh * 60 + mi"] int_div_pos_eq [where r = ss])
  moreover have "(hh * 60 + mi) smod 60 = mi" "(hh * 60 + mi) sdiv 60 = hh"
    using r by (auto simp: signed_divide_int_def signed_modulo_int_def sgn_if
        intro: int_mod_pos_eq [where q = hh] int_div_pos_eq [where r = mi])
  moreover have "(\<bar>s\<bar> = s) \<longleftrightarrow> \<not> (t_neg dt \<and> time_micros dt \<noteq> 0)"
    using c r assms(2) by (auto simp: t)
  ultimately show ?thesis
    by (simp add: fromTimeCAS_def Let_def sw secToMicroSec_def hh_def mi_def ss_def p_def)
qed

section \<open>The contract\<close>

text \<open>Dates keep their value: a valid date of MySQL's range is converted to the library's day
  count and printed from it as the same date, year, month and day.\<close>

theorem date_round_trip:
  assumes "mysql_date dt"
  shows "and_then (toDateCAS dt) fromDateCAS = Inr (date_text dt)"
  using toDateCAS_eq [OF assms] fromDateCAS_days [OF assms] by simp

definition example_time :: MYSQL_TIME where
  "example_time = \<lparr>t_year = 2024, t_month = 2, t_day = 29, t_hour = 23, t_minute = 5, t_second = 9,
     t_second_part = 42, t_neg = False\<rparr>"

lemma example_time_ok:
  "mysql_date example_time" "mysql_clock example_time" "mysql_time example_time"
  by (simp_all add: mysql_date_def mysql_clock_def mysql_time_def example_time_def valid_date_def
      days_in_month_def month_start_def leap_def)

theorem date_round_trip_witness:
  "and_then (toDateCAS example_time) fromDateCAS = Inr ''2024-02-29''"
proof -
  have "date_text example_time = ''2024-02-29''" by code_simp
  with date_round_trip [OF example_time_ok(1)] show ?thesis by simp
qed

lemma cas_days_inject:
  assumes "mysql_date a" "mysql_date b"
    and "cas_days (uint (t_year a)) (uint (t_month a)) (uint (t_day a)) =
      cas_days (uint (t_year b)) (uint (t_month b)) (uint (t_day b))"
  shows "t_year a = t_year b \<and> t_month a = t_month b \<and> t_day a = t_day b"
proof -
  have g: "gmtime (cas_days (uint (t_year x)) (uint (t_month x)) (uint (t_day x)) * 86400 + 0 - 315619200) =
      \<lparr>tm_year = uint (t_year x) - 1900, tm_mon = uint (t_month x) - 1, tm_mday = uint (t_day x),
       tm_hour = 0, tm_min = 0, tm_sec = 0\<rparr>" if "mysql_date x" for x
    using that gmtime_cas [of "uint (t_year x)" "uint (t_month x)" "uint (t_day x)" 0 0 0]
    by (simp add: mysql_date_def)
  have "uint (t_year a) = uint (t_year b)" "uint (t_month a) = uint (t_month b)" "uint (t_day a) = uint (t_day b)"
    using g [OF assms(1)] g [OF assms(2)] assms(3) by simp_all
  then show ?thesis unfolding word_uint_eq_iff by blast
qed

lemma clock_last_second:
  assumes "mysql_clock dt" "clock_secs dt = 86399"
  shows "t_hour dt = 23 \<and> t_minute dt = 59 \<and> t_second dt = 59"
proof -
  have "uint (t_hour dt) = 23" "uint (t_minute dt) = 59" "uint (t_second dt) = 59"
    using assms by (auto simp: mysql_clock_def clock_secs_def)
  then have "uint (t_hour dt) = uint (23 :: u32)" "uint (t_minute dt) = uint (59 :: u32)"
    "uint (t_second dt) = uint (59 :: u32)" by simp_all
  then show ?thesis by (simp only: word_uint_eq_iff)
qed

lemma last_second_unique:
  assumes "mysql_date dt" "mysql_clock dt"
    and "cas_days (uint (t_year dt)) (uint (t_month dt)) (uint (t_day dt)) * 86400 + clock_secs dt = 315619199"
  shows "t_year dt = 1969 \<and> t_month dt = 12 \<and> t_day dt = 31 \<and>
    t_hour dt = 23 \<and> t_minute dt = 59 \<and> t_second dt = 59"
proof -
  let ?e = "example_time\<lparr>t_year := 1969, t_month := 12, t_day := 31\<rparr>"
  have e: "mysql_date ?e" "cas_days (uint (t_year ?e)) (uint (t_month ?e)) (uint (t_day ?e)) = 3652"
    by (simp_all add: mysql_date_def valid_date_def days_in_month_def month_start_def leap_def
        cas_days_def first_of_month_def days_of_years_def)
  define c where "c = cas_days (uint (t_year dt)) (uint (t_month dt)) (uint (t_day dt))"
  have "c * 86400 + clock_secs dt = 315619199" using assms(3) by (simp add: c_def)
  note eq = this
  have c: "c = 3652"
    using clock_secs_bounds [OF assms(2)] eq by linarith
  moreover have "clock_secs dt = 86399" using eq unfolding c by simp
  ultimately show ?thesis
    using cas_days_inject [OF assms(1) e(1)] e(2) clock_last_second [OF assms(2)]
    by (simp add: c_def)
qed

text \<open>C33. Date-times keep their value from 1960 on, to the microsecond, except for the one second
  1969-12-31 23:59:59.\<close>

theorem datetime_round_trip:
  assumes "mysql_date dt" "mysql_clock dt" "1960 \<le> uint (t_year dt)"
    and "\<not> (t_year dt = 1969 \<and> t_month dt = 12 \<and> t_day dt = 31 \<and>
      t_hour dt = 23 \<and> t_minute dt = 59 \<and> t_second dt = 59)"
  shows "and_then (toDateTimeCAS dt) fromDateTimeCAS = Inr (date_text dt @ '' '' @ clock_text dt)"
proof -
  have "cas_days (uint (t_year dt)) (uint (t_month dt)) (uint (t_day dt)) * 86400 + clock_secs dt \<noteq> 315619199"
    using last_second_unique [OF assms(1,2)] assms(4) by blast
  then show ?thesis
    using toDateTimeCAS_eq [OF assms(1-3)] fromDateTimeCAS_micros [OF assms(1,2)] by simp
qed

theorem datetime_round_trip_witness:
  "and_then (toDateTimeCAS example_time) fromDateTimeCAS = Inr ''2024-02-29 23:05:09.000042''"
proof -
  have "date_text example_time @ '' '' @ clock_text example_time = ''2024-02-29 23:05:09.000042''" by code_simp
  moreover have "1960 \<le> uint (t_year example_time)" "t_year example_time \<noteq> 1969"
    by (simp_all add: example_time_def)
  ultimately show ?thesis using datetime_round_trip [OF example_time_ok(1,2)] by simp
qed

text \<open>Times keep their value, sign included, for the whole range of MySQL's type.\<close>

theorem time_round_trip:
  assumes "mysql_time dt"
  shows "fromTimeCAS (toTimeCAS dt) =
    Inr ((if t_neg dt \<and> time_micros dt \<noteq> 0 then ''-'' else '''') @ int_to_string (uint (t_hour dt)) @ '':'' @
      int_to_string (uint (t_minute dt)) @ '':'' @ int_to_string (uint (t_second dt)) @ ''.'' @
      zero_padded 6 (uint (t_second_part dt)))"
  unfolding toTimeCAS_eq [OF assms] by (rule fromTimeCAS_micros [OF assms refl])

theorem time_round_trip_witness: "fromTimeCAS (toTimeCAS example_time) = Inr ''23:5:9.000042''"
proof -
  have "int_to_string 23 @ '':'' @ int_to_string 5 @ '':'' @ int_to_string 9 @ ''.'' @ zero_padded 6 42 =
      ''23:5:9.000042''" by code_simp
  with time_round_trip [OF example_time_ok(3)] show ?thesis by (simp add: example_time_def)
qed

text \<open>The last second of 1969 is a valid date-time that the conversion refuses, because
  \<^verbatim>\<open>timegm\<close> returns for it the value that also stands for an error.\<close>

theorem last_second_of_1969_refused:
  assumes "t_year dt = 1969" "t_month dt = 12" "t_day dt = 31" "t_hour dt = 23" "t_minute dt = 59" "t_second dt = 59"
  shows "mysql_date dt \<and> (\<exists>e. toDateTimeCAS dt = Inl e)"
proof -
  have d: "mysql_date dt"
    using assms by (simp add: mysql_date_def valid_date_def days_in_month_def month_start_def leap_def)
  have "timegm ((dateTm dt)\<lparr>tm_hour := sint (t_hour dt), tm_min := sint (t_minute dt),
      tm_sec := sint (t_second dt)\<rparr>) = - 1"
    using assms by (simp add: dateTm_eq [OF d] timegm_def first_of_month_def days_of_years_def
        month_start_def leap_def)
  then show ?thesis using d by (simp add: toDateTimeCAS_def Let_def)
qed

theorem last_second_of_1969_refused_witness:
  "\<exists>e. toDateTimeCAS (example_time\<lparr>t_year := 1969, t_month := 12, t_day := 31, t_hour := 23,
     t_minute := 59, t_second := 59\<rparr>) = Inl e"
  using last_second_of_1969_refused [of "example_time\<lparr>t_year := 1969, t_month := 12, t_day := 31,
     t_hour := 23, t_minute := 59, t_second := 59\<rparr>"] by simp

end
