(* ===== verification/Effects.thy ===== *)
theory Effects
  imports S2Prelude
begin

text \<open>
  The operations of a C++ object that can throw: an action takes the state of the object and
  returns a value or a fault, and the state either way, since an exception does not undo what was
  done before it. The theories about connections, readers and queues are written with these
  combinators.
\<close>

type_synonym ('s, 'a) act = "'s \<Rightarrow> (fault + 'a) \<times> 's"

definition give :: "'a \<Rightarrow> ('s, 'a) act" where
  "give a s = (Inr a, s)"

definition throw :: "fault \<Rightarrow> ('s, 'a) act" where
  "throw e s = (Inl e, s)"

definition look :: "('s \<Rightarrow> 'a) \<Rightarrow> ('s, 'a) act" where
  "look f s = (Inr (f s), s)"

definition modify :: "('s \<Rightarrow> 's) \<Rightarrow> ('s, unit) act" where
  "modify f s = (Inr (), f s)"

definition lift :: "fault + 'a \<Rightarrow> ('s, 'a) act" where
  "lift r s = (r, s)"

definition andThen :: "('s, 'a) act \<Rightarrow> ('a \<Rightarrow> ('s, 'b) act) \<Rightarrow> ('s, 'b) act" where
  "andThen m f s = (case m s of (Inl e, s') \<Rightarrow> (Inl e, s') | (Inr a, s') \<Rightarrow> f a s')"

text \<open>Operations given as functions: \<open>asking\<close> only looks at the state, \<open>updating\<close> changes it or throws before it does.\<close>

definition asking :: "('s \<Rightarrow> fault + 'a) \<Rightarrow> ('s, 'a) act" where
  "asking h s = (h s, s)"

definition updating :: "('s \<Rightarrow> fault + 's) \<Rightarrow> ('s, unit) act" where
  "updating f s = (case f s of Inl e \<Rightarrow> (Inl e, s) | Inr s' \<Rightarrow> (Inr (), s'))"

text \<open>\<open>handle\<close> is \<^verbatim>\<open>try ... catch (S2ClientError&)\<close>: other faults pass through.\<close>

definition handle :: "('s, 'a) act \<Rightarrow> (nat \<Rightarrow> string \<Rightarrow> ('s, 'a) act) \<Rightarrow> ('s, 'a) act" where
  "handle m h s =
     (case m s of
        (Inl (S2ClientError code msg), s') \<Rightarrow> h code msg s'
      | r \<Rightarrow> r)"

primrec for_each :: "('x \<Rightarrow> ('s, unit) act) \<Rightarrow> 'x list \<Rightarrow> ('s, unit) act" where
  "for_each f [] = give ()"
| "for_each f (x # xs) = andThen (f x) (\<lambda>_. for_each f xs)"

primrec collect :: "('x \<Rightarrow> ('s, 'y) act) \<Rightarrow> 'x list \<Rightarrow> ('s, 'y list) act" where
  "collect f [] = give []"
| "collect f (x # xs) = andThen (f x) (\<lambda>y. andThen (collect f xs) (\<lambda>ys. give (y # ys)))"

named_theorems act_simps \<open>running the combinators of actions\<close>

lemma run_basic [act_simps]:
  "give a s = (Inr a, s)"
  "throw e s = (Inl e, s)"
  "look f s = (Inr (f s), s)"
  "modify g s = (Inr (), g s)"
  "lift r s = (r, s)"
  "asking h s = (h s, s)"
  by (simp_all add: give_def throw_def look_def modify_def lift_def asking_def)

declare andThen_def [act_simps] handle_def [act_simps]

lemma run_andThen:
  "m s = (Inr a, s') \<Longrightarrow> andThen m f s = f a s'"
  "m s = (Inl e, s') \<Longrightarrow> andThen m f s = (Inl e, s')"
  by (simp_all add: andThen_def)

lemma run_handle:
  "m s = (Inr a, s') \<Longrightarrow> handle m h s = (Inr a, s')"
  "m s = (Inl (S2ClientError c t), s') \<Longrightarrow> handle m h s = h c t s'"
  by (simp_all add: handle_def)

lemma andThen_Inr_iff:
  "andThen m f s = (Inr b, s') \<longleftrightarrow> (\<exists>a t. m s = (Inr a, t) \<and> f a t = (Inr b, s'))"
  by (auto simp: andThen_def split: prod.splits sum.splits)

lemma andThen_Inl_iff:
  "andThen m f s = (Inl e, s') \<longleftrightarrow>
    m s = (Inl e, s') \<or> (\<exists>a t. m s = (Inr a, t) \<and> f a t = (Inl e, s'))"
  by (auto simp: andThen_def split: prod.splits sum.splits)

lemma updating_eq [act_simps]:
  "updating f s = (map_sum id (\<lambda>_. ()) (f s), case f s of Inl e \<Rightarrow> s | Inr s' \<Rightarrow> s')"
  by (simp add: updating_def split: sum.split)

lemma updating_Inr_iff: "updating f s = (Inr u, s') \<longleftrightarrow> f s = Inr s'"
  by (auto simp: updating_def split: sum.splits)

lemma andThen_assoc: "andThen (andThen m f) g = andThen m (\<lambda>a. andThen (f a) g)"
  by (rule ext) (simp add: andThen_def split: prod.splits sum.splits)

text \<open>
  A crash (a failed assertion, undefined behaviour) leaves no object. Otherwise an action keeps a
  property of the state if each of its parts does.
\<close>

fun crash :: "fault + 'a \<Rightarrow> bool" where
  "crash (Inl AssertionFailed) \<longleftrightarrow> True"
| "crash (Inl UndefinedBehaviour) \<longleftrightarrow> True"
| "crash _ \<longleftrightarrow> False"

definition keeps :: "('s \<Rightarrow> bool) \<Rightarrow> ('s, 'a) act \<Rightarrow> bool" where
  "keeps P m \<longleftrightarrow> (\<forall>s. P s \<longrightarrow> \<not> crash (fst (m s)) \<longrightarrow> P (snd (m s)))"

named_theorems keeps_intros \<open>preservation of a property of the state\<close>

lemma keeps_basic [keeps_intros]:
  "keeps P (give a)" "keeps P (throw e)" "keeps P (look f)" "keeps P (lift r)"
  by (simp_all add: keeps_def act_simps)

lemma crash_Inl: "crash (Inl e :: fault + 'a) \<longleftrightarrow> e = AssertionFailed \<or> e = UndefinedBehaviour"
  by (cases e) simp_all

lemma keeps_andThen [keeps_intros]:
  "keeps P m \<Longrightarrow> (\<And>a. keeps P (f a)) \<Longrightarrow> keeps P (andThen m f)"
  unfolding keeps_def andThen_def
  by (force simp: crash_Inl split: prod.splits sum.splits)

lemma keeps_if [keeps_intros]:
  "(b \<Longrightarrow> keeps P m) \<Longrightarrow> (\<not> b \<Longrightarrow> keeps P m') \<Longrightarrow> keeps P (if b then m else m')"
  by simp

lemma keeps_for_each [keeps_intros]:
  "(\<And>x. keeps P (f x)) \<Longrightarrow> keeps P (for_each f xs)"
  by (induction xs) (auto intro!: keeps_intros)

lemma keeps_collect [keeps_intros]:
  "(\<And>x. keeps P (f x)) \<Longrightarrow> keeps P (collect f xs)"
  by (induction xs) (auto intro!: keeps_intros)

end
