(* ===== verification/Hdat_Writer.thy ===== *)
theory Hdat_Writer
  imports Hdat_Chunk Calendar Effects
begin

text \<open>
  The class \<^verbatim>\<open>SuperChunkWriter\<close> of \<^verbatim>\<open>hdat/chunk_writer.cpp\<close> and the C functions around it
  (\<^verbatim>\<open>hdat_write_extern.h\<close>). A writer fills one chunk, row by row and column by column. A row that
  does not fit is refused before anything is written; a column that throws leaves those before it in the chunk.
\<close>

record Writer =
  w_sc :: SuperChunk
  w_chunk_size :: u64
  w_row_fixed_size :: u64
  w_column_count :: u32
  w_row_offset :: u64
  w_row_column_count :: u32
  w_schema :: RowSchema

section \<open>Single columns\<close>

text \<open>\<^verbatim>\<open>Reset\<close>; the constructor with arguments calls it.\<close>

definition Reset :: "Chunk \<Rightarrow> RowSchema \<Rightarrow> Writer" where
  "Reset chunk rowSchema =
     \<lparr>w_sc = SuperChunk chunk, w_chunk_size = m_size chunk, w_row_fixed_size = 0,
      w_column_count = 0, w_row_offset = 0, w_row_column_count = 0, w_schema = rowSchema\<rparr>"

definition HasEnoughSpace :: "u64 \<Rightarrow> Writer \<Rightarrow> fault + bool" where
  "HasEnoughSpace requestedSize w =
     (if \<not> GetOffset (w_sc w) + GetVariableOffset (w_sc w) \<le> w_chunk_size w then Inl AssertionFailed
      else Inr (\<not> w_chunk_size w - GetVariableOffset (w_sc w) - GetOffset (w_sc w) < requestedSize))"

definition RecordColumn :: "Writer \<Rightarrow> Writer" where
  "RecordColumn w =
     w\<lparr>w_column_count := (if w_row_fixed_size w = 0 then w_column_count w + 1 else w_column_count w),
       w_row_column_count := w_row_column_count w + 1\<rparr>"

text \<open>An operation of the writer: \<open>RecordColumn\<close>, then operations on its chunk.\<close>

definition on_chunk :: "(SuperChunk \<Rightarrow> fault + SuperChunk) \<Rightarrow> Writer \<Rightarrow> fault + Writer" where
  "on_chunk f w =
     (let w1 = RecordColumn w in and_then (f (w_sc w1)) (\<lambda>s. Inr (w1\<lparr>w_sc := s\<rparr>)))"

definition WriteFixed :: "u8 list option \<Rightarrow> i64 \<Rightarrow> i64 \<Rightarrow> bool \<Rightarrow> Writer \<Rightarrow> fault + Writer" where
  "WriteFixed val data_size field_size pad_with_zero =
     on_chunk (\<lambda>s. and_then (Write val data_size s)
       (\<lambda>s1. Pad (sizeofAligned8 field_size - data_size) True (if pad_with_zero then 0 else 32) s1))"

definition WriteInt64 :: "u8 list option \<Rightarrow> Writer \<Rightarrow> fault + Writer" where
  "WriteInt64 val = on_chunk (Write8 val)"

definition WriteInt32 :: "u8 list option \<Rightarrow> Writer \<Rightarrow> fault + Writer" where
  "WriteInt32 val = on_chunk (\<lambda>s. and_then (Write4 val s) (Pad 4 False 32))"

definition WriteDouble :: "u8 list option \<Rightarrow> u64 \<Rightarrow> Writer \<Rightarrow> fault + Writer" where
  "WriteDouble val len = on_chunk (Write8 val)"

definition WriteVariable :: "u8 list option \<Rightarrow> u64 \<Rightarrow> Writer \<Rightarrow> fault + Writer" where
  "WriteVariable val len w =
     on_chunk (\<lambda>s. let s1 = IncrVariableOffset len s in
       and_then (Write8Typed (GetVariableOffset s1) s1) (\<lambda>s2.
       and_then (Write8Typed len s2) (\<lambda>s3.
       WriteAt (w_chunk_size w - GetVariableOffset s3) val len s3))) w"

definition WriteInt64Null :: "Writer \<Rightarrow> fault + Writer" where
  "WriteInt64Null = on_chunk (Write8Typed int64Null)"

definition WriteInt32Null :: "Writer \<Rightarrow> fault + Writer" where
  "WriteInt32Null = on_chunk (\<lambda>s. and_then (Write4Typed int32Null s) (Pad 4 False 32))"

definition WriteDoubleNull :: "Writer \<Rightarrow> fault + Writer" where
  "WriteDoubleNull = on_chunk (Write8Typed doubleNull)"

definition WriteFixedNull :: "i32 \<Rightarrow> Writer \<Rightarrow> fault + Writer" where
  "WriteFixedNull len = on_chunk (Pad (sizeofAligned8 (scast len)) True 0)"

definition WriteVariableNull :: "Writer \<Rightarrow> fault + Writer" where
  "WriteVariableNull = WriteVariable None 0"

text \<open>The templates over numeric types, at the types the library instantiates them with.\<close>

definition WriteInt64Numeric :: "i64 \<Rightarrow> Writer \<Rightarrow> fault + Writer" where
  "WriteInt64Numeric val = on_chunk (Write8Typed val)"

definition WriteInt32Numeric :: "i32 \<Rightarrow> Writer \<Rightarrow> fault + Writer" where
  "WriteInt32Numeric val = on_chunk (\<lambda>s. and_then (Write4Typed val s) (Pad 4 False 32))"

definition WriteFloatNumeric :: "u64 \<Rightarrow> Writer \<Rightarrow> fault + Writer" where
  "WriteFloatNumeric val = on_chunk (Write8Typed val)"

definition WriteRowEnd :: "Writer \<Rightarrow> fault + Writer" where
  "WriteRowEnd w =
     and_then
       (if w_row_fixed_size w = 0
        then (if w_row_offset w \<noteq> 0 then Inl AssertionFailed
              else Inr (w\<lparr>w_row_fixed_size := GetOffset (w_sc w)\<rparr>))
        else Inr w)
       (\<lambda>w1. let s = IncrRowCount (w_sc w1) in
         Inr (w1\<lparr>w_sc := s, w_row_offset := GetOffset s, w_row_column_count := 0\<rparr>))"

section \<open>Rows\<close>

text \<open>
  A column value of a fetched row is a \<open>char*\<close>: \<open>NULL\<close>, a buffer of bytes, or, for the date and
  time types, a \<open>MYSQL_TIME\<close> the code casts it to. Using a pointer as what it does not point to
  is undefined behaviour.
\<close>

datatype cell = CellBytes "u8 list" | CellTime MYSQL_TIME

fun cell_bytes :: "cell \<Rightarrow> fault + u8 list" where
  "cell_bytes (CellBytes bs) = Inr bs"
| "cell_bytes (CellTime t) = Inl UndefinedBehaviour"

fun cell_time :: "cell \<Rightarrow> fault + MYSQL_TIME" where
  "cell_time (CellTime t) = Inr t"
| "cell_time (CellBytes bs) = Inl UndefinedBehaviour"

text \<open>One iteration of the loop of \<^verbatim>\<open>WriteRow\<close>.\<close>

definition write_column :: "Column \<Rightarrow> cell option \<Rightarrow> u64 \<Rightarrow> Writer \<Rightarrow> fault + Writer" where
  "write_column c v data_length w =
     (case col_type c of
        Int64 \<Rightarrow>
          (case v of None \<Rightarrow> WriteInt64Null w
           | Some x \<Rightarrow> and_then (cell_bytes x) (\<lambda>b. WriteInt64 (Some b) w))
      | Int32 \<Rightarrow>
          (case v of None \<Rightarrow> WriteInt32Null w
           | Some x \<Rightarrow> and_then (cell_bytes x) (\<lambda>b. WriteInt32 (Some b) w))
      | DateTime \<Rightarrow>
          (case v of None \<Rightarrow> WriteInt64Null w
           | Some x \<Rightarrow> and_then (cell_time x) (\<lambda>t. and_then (toDateTimeCAS t) (\<lambda>n. WriteInt64Numeric n w)))
      | Date \<Rightarrow>
          (case v of None \<Rightarrow> WriteInt32Null w
           | Some x \<Rightarrow> and_then (cell_time x) (\<lambda>t. and_then (toDateCAS t) (\<lambda>n. WriteInt32Numeric n w)))
      | Time \<Rightarrow>
          (case v of None \<Rightarrow> WriteInt64Null w
           | Some x \<Rightarrow> and_then (cell_time x) (\<lambda>t. WriteInt64Numeric (toTimeCAS t) w))
      | Double \<Rightarrow>
          (case v of None \<Rightarrow> WriteDoubleNull w
           | Some x \<Rightarrow> and_then (cell_bytes x) (\<lambda>b. WriteDouble (Some b) data_length w))
      | Fixed \<Rightarrow>
          (case v of None \<Rightarrow> WriteFixedNull (ucast (col_size c)) w
           | Some x \<Rightarrow> and_then (cell_bytes x) (\<lambda>b. WriteFixed (Some b) data_length (col_size c) False w))
      | Variable \<Rightarrow>
          (case v of None \<Rightarrow> WriteVariableNull w
           | Some x \<Rightarrow> and_then (cell_bytes x) (\<lambda>b. WriteVariable (Some b) data_length w))
      | Unsupported \<Rightarrow>
          Inl (S2ClientError S2C_ERROR_UNS_DATA_TYPE
            ''Trying to write unsupported data type to the chunk. Aborted.''))"

text \<open>The loop. A column that throws has written nothing, the columns before it stay written.\<close>

fun write_columns :: "RowSchema \<Rightarrow> cell option list \<Rightarrow> u64 list \<Rightarrow> (Writer, unit) act" where
  "write_columns [] row lengths = give ()"
| "write_columns (c # cs) (v # vs) (l # ls) =
     andThen (updating (write_column c v l)) (\<lambda>_. write_columns cs vs ls)"
| "write_columns (c # cs) row lengths = throw UndefinedBehaviour"

definition too_small_message :: "u64 \<Rightarrow> u64 \<Rightarrow> string" where
  "too_small_message chunk_size total_size =
     ''chunk size '' @ int_to_string (uint chunk_size) @ '' is too small. Required at least '' @
     int_to_string (uint total_size)"

definition WriteRow :: "cell option list \<Rightarrow> u64 list \<Rightarrow> (Writer, bool) act" where
  "WriteRow row lengths =
     andThen (asking (\<lambda>w. rowSize (w_schema w) lengths)) (\<lambda>total_size.
     andThen (asking (HasEnoughSpace total_size)) (\<lambda>enough.
     if \<not> enough then
       andThen (look (\<lambda>w. (RowCount (w_sc w), w_chunk_size w))) (\<lambda>(rows, chunk_size).
       if rows = 0 then throw (InvalidArgument (too_small_message chunk_size total_size))
       else give False)
     else
       andThen (look w_schema) (\<lambda>schema.
       andThen (write_columns schema row lengths) (\<lambda>_.
       andThen (updating WriteRowEnd) (\<lambda>_. give True)))))"

section \<open>The C functions\<close>

text \<open>
  \<^verbatim>\<open>CreateWriter\<close> reports a NULL argument or a failed allocation (\<open>alloc = False\<close>) by the error
  callback and returns NULL: the code and message given to the callback, or the writer.
\<close>

definition CreateWriter :: "bool \<Rightarrow> Chunk option \<Rightarrow> RowSchema option \<Rightarrow> (nat \<times> string) + Writer" where
  "CreateWriter alloc chunk schema =
     (case (chunk, schema) of
        (Some c, Some s) \<Rightarrow>
          if alloc then Inr (Reset c s)
          else Inl (S2C_ERROR_MEMORY_ALLOCATION, ''Memory allocation error in CreateWriter'')
      | _ \<Rightarrow> Inl (S2C_ERROR_INV_ARG, ''NULL pointer passed as Chunk* or RowSchema*''))"

text \<open>Each write function checks the space it needs and returns \<open>false\<close> when it is not there.\<close>

definition guarded :: "u64 \<Rightarrow> (Writer \<Rightarrow> fault + Writer) \<Rightarrow> Writer \<Rightarrow> fault + (bool \<times> Writer)" where
  "guarded space f w =
     and_then (HasEnoughSpace space w) (\<lambda>enough.
     if \<not> enough then Inr (False, w) else and_then (f w) (\<lambda>w'. Inr (True, w')))"

definition c_WriteInt64 :: "i64 \<Rightarrow> Writer \<Rightarrow> fault + (bool \<times> Writer)" where
  "c_WriteInt64 val = guarded defaultAlignmentSize (WriteInt64Numeric val)"

definition c_WriteInt32 :: "i64 \<Rightarrow> Writer \<Rightarrow> fault + (bool \<times> Writer)" where
  "c_WriteInt32 val = guarded defaultAlignmentSize (WriteInt32Numeric (ucast val))"

definition c_WriteDouble :: "u64 \<Rightarrow> Writer \<Rightarrow> fault + (bool \<times> Writer)" where
  "c_WriteDouble val = guarded defaultAlignmentSize (WriteFloatNumeric val)"

definition c_WriteFixed :: "u8 list option \<Rightarrow> i64 \<Rightarrow> i64 \<Rightarrow> bool \<Rightarrow> Writer \<Rightarrow> fault + (bool \<times> Writer)" where
  "c_WriteFixed val data_size field_size pad_with_zero =
     guarded (sizeofAligned8 field_size) (WriteFixed val data_size field_size pad_with_zero)"

text \<open>\<open>space_needed\<close> is an \<open>int\<close>: the 64-bit sum is truncated, then converted back.\<close>

definition c_WriteVariable :: "u8 list option \<Rightarrow> u64 \<Rightarrow> Writer \<Rightarrow> fault + (bool \<times> Writer)" where
  "c_WriteVariable val len =
     (let space_needed = (ucast (len + 2 * defaultAlignmentSize) :: i32) in
      guarded (scast space_needed) (WriteVariable val len))"

definition c_ResetWriter :: "Writer \<Rightarrow> Chunk \<Rightarrow> RowSchema \<Rightarrow> Writer" where
  "c_ResetWriter writer chunk schema = Reset chunk schema"

definition c_WriteRowEnd :: "Writer \<Rightarrow> fault + Writer" where
  "c_WriteRowEnd writer = WriteRowEnd writer"

end
