(* ===== verification/Hdat_Layout.thy ===== *)
theory Hdat_Layout
  imports Hdat_Writer
begin

text \<open>
  What a chunk's buffer means: the fields of a row as values, how a field lies in the buffer, and
  that the writer's operations put them there and leave everything written before in place.
\<close>

section \<open>Alignment\<close>

definition aligned8 :: "nat \<Rightarrow> nat" where
  "aligned8 n = (n + 7) div 8 * 8"

lemma and_not_7: "(x :: u64) AND NOT 7 = x - take_bit 3 x"
proof -
  have "x AND NOT 7 = push_bit 3 (drop_bit 3 x)"
  proof (rule bit_word_eqI)
    fix n
    assume "n < LENGTH(64)"
    have 7: "(7 :: u64) = mask 3" by (simp add: mask_eq_exp_minus_1)
    have "bit (7 :: u64) n \<longleftrightarrow> n < 3"
      using \<open>n < LENGTH(64)\<close> unfolding 7 bit_mask_iff by simp
    then show "bit (x AND NOT 7) n = bit (push_bit 3 (drop_bit 3 x)) n"
      using \<open>n < LENGTH(64)\<close> by (auto simp: bit_simps not_less)
  qed
  also have "\<dots> = x - take_bit 3 x"
    using bits_ident [of 3 x] by (simp add: eq_diff_eq)
  finally show ?thesis .
qed

lemma unat_sizeofAligned8:
  assumes "unat len + 7 < 2 ^ 64"
  shows "unat (sizeofAligned8 len) = aligned8 (unat len)"
proof -
  have "len + defaultAlignmentSize - 1 = len + 7" "defaultAlignmentSize - 1 = 7"
    by (simp_all add: defaultAlignmentSize_def)
  then have eq: "sizeofAligned8 len = (len + 7) - take_bit 3 (len + 7)"
    unfolding sizeofAligned8_def by (simp only: and_not_7)
  have u: "unat (len + 7) = unat len + 7"
    using assms by (subst unat_add_bounded) simp_all
  have t: "unat (take_bit 3 (len + 7)) = (unat len + 7) mod 8"
    by (simp only: unsigned_take_bit_eq u) (simp add: take_bit_eq_mod)
  have "unat (sizeofAligned8 len) = unat len + 7 - (unat len + 7) mod 8"
    unfolding eq by (subst unat_sub_le_word) (simp_all add: u t)
  then show ?thesis
    by (simp add: aligned8_def minus_mod_eq_div_mult)
qed

lemma aligned8_ge: "n \<le> aligned8 n"
  unfolding aligned8_def by simp

lemma aligned8_less: "aligned8 n < n + 8"
proof -
  have "(n + 7) div 8 * 8 \<le> n + 7" by (rule div_times_less_eq_dividend)
  then show ?thesis by (simp add: aligned8_def)
qed

lemma aligned8_dvd: "8 dvd aligned8 n"
  by (simp add: aligned8_def)

section \<open>Fields and where they lie\<close>

text \<open>
  The values the buffer can hold. A fixed-length field is its bytes with their padding; a
  variable-length one is an offset from the end of the buffer and a length, with the bytes there.
\<close>

datatype field =
    F8 u64
  | F4 u32
  | FFixed "u8 list"
  | FVar "u8 list"

fun field_width :: "field \<Rightarrow> nat" where
  "field_width (F8 w) = 8"
| "field_width (F4 w) = 8"
| "field_width (FFixed bs) = length bs"
| "field_width (FVar bs) = 16"

fun field_tail :: "field \<Rightarrow> nat" where
  "field_tail (FVar bs) = length bs"
| "field_tail f = 0"

definition field_bytes :: "field \<Rightarrow> nat" where
  "field_bytes f = field_width f + field_tail f"

fun field_at :: "u8 list \<Rightarrow> nat \<Rightarrow> nat \<Rightarrow> field \<Rightarrow> bool" where
  "field_at m v off (F8 w) \<longleftrightarrow> peek off 8 m = to_le 8 w"
| "field_at m v off (F4 w) \<longleftrightarrow> peek off 4 m = to_le 4 w"
| "field_at m v off (FFixed bs) \<longleftrightarrow> peek off (length bs) m = bs"
| "field_at m v off (FVar bs) \<longleftrightarrow>
     (\<exists>(vo :: u64) (len :: u64). peek off 8 m = to_le 8 vo \<and> peek (off + 8) 8 m = to_le 8 len \<and>
        unat len = length bs \<and> unat vo = v \<and> length bs \<le> v \<and> peek (length m - v) (length bs) m = bs)"

fun fields_at :: "u8 list \<Rightarrow> nat \<Rightarrow> nat \<Rightarrow> field list \<Rightarrow> bool" where
  "fields_at m v off [] \<longleftrightarrow> True"
| "fields_at m v off (f # fs) \<longleftrightarrow>
     field_at m (v + field_tail f) off f \<and> fields_at m (v + field_tail f) (off + field_width f) fs"

definition fields_width :: "field list \<Rightarrow> nat" where
  "fields_width fs = sum_list (map field_width fs)"

definition fields_tail :: "field list \<Rightarrow> nat" where
  "fields_tail fs = sum_list (map field_tail fs)"

lemma fields_at_append:
  "fields_at m v off (fs @ gs) \<longleftrightarrow>
     fields_at m v off fs \<and> fields_at m (v + fields_tail fs) (off + fields_width fs) gs"
  by (induction fs arbitrary: v off) (auto simp: fields_width_def fields_tail_def add.assoc)

text \<open>
  Two buffers agree on the written part: the first \<open>f\<close> and the last \<open>v\<close> bytes. Fields inside
  that part keep their meaning.
\<close>

definition agree :: "nat \<Rightarrow> nat \<Rightarrow> u8 list \<Rightarrow> u8 list \<Rightarrow> bool" where
  "agree f v m m' \<longleftrightarrow> length m' = length m \<and>
     (\<forall>off n. off + n \<le> f \<longrightarrow> peek off n m' = peek off n m) \<and>
     (\<forall>off n. length m \<le> off + v \<longrightarrow> peek off n m' = peek off n m)"

lemma agree_refl [simp]: "agree f v m m"
  by (simp add: agree_def)

lemma agree_trans:
  "agree f v m m' \<Longrightarrow> agree f' v' m' m'' \<Longrightarrow> f \<le> f' \<Longrightarrow> v \<le> v' \<Longrightarrow> agree f v m m''"
  unfolding agree_def by (auto simp: le_diff_conv2)

lemma agree_poke:
  assumes "f \<le> off" "off + length bs + v \<le> length m"
  shows "agree f v m (poke off bs m)"
  unfolding agree_def
proof (intro conjI allI impI)
  show "length (poke off bs m) = length m" using assms by simp
  show "peek o' n (poke off bs m) = peek o' n m" if "o' + n \<le> f" for o' n
    using assms that by (intro peek_poke_before) simp_all
  show "peek o' n (poke off bs m) = peek o' n m" if "length m \<le> o' + v" for o' n
    using assms that by (intro peek_poke_after) simp_all
qed

lemma field_at_agree:
  assumes "field_at m v off x" "agree f u m m'" "off + field_width x \<le> f" "v \<le> u"
  shows "field_at m' v off x"
proof (cases x)
  case (FVar bs)
  with assms(1) obtain vo :: u64 and len :: u64 where
    at: "peek off 8 m = to_le 8 vo" "peek (off + 8) 8 m = to_le 8 len" "unat len = length bs"
      "unat vo = v" "length bs \<le> v" "peek (length m - v) (length bs) m = bs"
    by auto
  have "peek off 8 m' = peek off 8 m" "peek (off + 8) 8 m' = peek (off + 8) 8 m"
    "peek (length m - v) (length bs) m' = peek (length m - v) (length bs) m" "length m' = length m"
    using assms FVar at by (auto simp: agree_def)
  with at show ?thesis
    unfolding FVar field_at.simps by (intro exI [of _ vo] exI [of _ len] conjI) simp_all
qed (use assms in \<open>auto simp: agree_def\<close>)

lemma fields_at_agree:
  assumes "fields_at m v off fs" "agree f u m m'" "off + fields_width fs \<le> f" "v + fields_tail fs \<le> u"
  shows "fields_at m' v off fs"
  using assms
proof (induction fs arbitrary: v off)
  case (Cons x xs)
  then show ?case
    using field_at_agree [of m "v + field_tail x" off x f u m'] by (auto simp: fields_width_def fields_tail_def)
qed simp

section \<open>The state of a writer\<close>

definition mem_of :: "Writer \<Rightarrow> u8 list" where
  "mem_of w = m_ptr (sc_chunk (w_sc w))"

definition off_of :: "Writer \<Rightarrow> nat" where
  "off_of w = unat (sc_offset (w_sc w))"

definition var_of :: "Writer \<Rightarrow> nat" where
  "var_of w = unat (variable_offset (sc_chunk (w_sc w)))"

definition sc_ok :: "SuperChunk \<Rightarrow> bool" where
  "sc_ok s \<longleftrightarrow> length (m_ptr (sc_chunk s)) = unat (m_size (sc_chunk s)) \<and>
     unat (sc_offset s) + unat (variable_offset (sc_chunk s)) \<le> unat (m_size (sc_chunk s)) \<and>
     consumed_size (sc_chunk s) = sc_offset s + variable_offset (sc_chunk s)"

text \<open>
  The invariant of a writer: the buffer is as large as the chunk says, the two regions do not
  overlap, and \<open>consumed_size\<close> is what they hold together.
\<close>

definition writer_ok :: "Writer \<Rightarrow> bool" where
  "writer_ok w \<longleftrightarrow> sc_ok (w_sc w) \<and> w_chunk_size w = m_size (sc_chunk (w_sc w))"

definition free_of :: "Writer \<Rightarrow> nat" where
  "free_of w = length (mem_of w) - var_of w - off_of w"

lemma writer_ok_bounds:
  assumes "writer_ok w"
  shows "off_of w + var_of w + free_of w = length (mem_of w)"
    "length (mem_of w) = unat (w_chunk_size w)" "length (mem_of w) < 2 ^ 64"
proof -
  show 1: "off_of w + var_of w + free_of w = length (mem_of w)"
    and 2: "length (mem_of w) = unat (w_chunk_size w)"
    using assms by (auto simp: writer_ok_def sc_ok_def off_of_def var_of_def free_of_def mem_of_def)
  show "length (mem_of w) < 2 ^ 64"
    unfolding 2 using unsigned_less [of "w_chunk_size w", where ?'a = nat] by simp
qed

lemma HasEnoughSpace_eq:
  assumes "writer_ok w"
  shows "HasEnoughSpace n w = Inr (unat n \<le> free_of w)"
proof -
  let ?o = "sc_offset (w_sc w)" and ?v = "variable_offset (sc_chunk (w_sc w))"
  have b: "unat ?o + unat ?v \<le> unat (w_chunk_size w)" and len: "length (mem_of w) = unat (w_chunk_size w)"
    using assms by (auto simp: writer_ok_def sc_ok_def mem_of_def)
  have s: "unat (?o + ?v) = unat ?o + unat ?v"
    using b by (rule unat_add_le_word)
  have v: "unat (w_chunk_size w - ?v) = unat (w_chunk_size w) - unat ?v"
    using b by (intro unat_sub_le_word) simp
  then have "unat (w_chunk_size w - ?v - ?o) = unat (w_chunk_size w) - unat ?v - unat ?o"
    using b by (subst unat_sub_le_word) simp_all
  with s b len show ?thesis
    by (simp add: HasEnoughSpace_def GetOffset_def GetVariableOffset_def word_le_nat_alt
        word_less_nat_alt free_of_def off_of_def var_of_def not_less)
qed

text \<open>
  \<open>puts f w w'\<close>: from \<open>w\<close> to \<open>w'\<close> the writer appended the field \<open>f\<close>: the offsets moved by its
  size, what was written before is untouched, and the field now lies at the old offset.
\<close>

definition frame_of ::
  "Writer \<Rightarrow> u64 \<times> RowSchema \<times> u64 \<times> u64 \<times> u64 \<times> u64 \<times> u32" where
  "frame_of w = (w_chunk_size w, w_schema w, w_row_offset w, w_row_fixed_size w,
     row_count (sc_chunk (w_sc w)), chunk_id (sc_chunk (w_sc w)), partition_id (sc_chunk (w_sc w)))"

definition puts :: "field list \<Rightarrow> Writer \<Rightarrow> Writer \<Rightarrow> bool" where
  "puts fs w w' \<longleftrightarrow> writer_ok w' \<and> off_of w' = off_of w + fields_width fs \<and>
     var_of w' = var_of w + fields_tail fs \<and> agree (off_of w) (var_of w) (mem_of w) (mem_of w') \<and>
     fields_at (mem_of w') (var_of w) (off_of w) fs \<and> frame_of w' = frame_of w"

lemma putsD:
  assumes "puts fs w w'"
  shows "writer_ok w'" "off_of w' = off_of w + fields_width fs" "var_of w' = var_of w + fields_tail fs"
    "agree (off_of w) (var_of w) (mem_of w) (mem_of w')"
    "fields_at (mem_of w') (var_of w) (off_of w) fs" "frame_of w' = frame_of w"
  using assms unfolding puts_def by blast+

lemma puts_Nil: "writer_ok w \<Longrightarrow> puts [] w w"
  by (simp add: puts_def fields_width_def fields_tail_def)

lemma puts_append:
  assumes "puts fs w w1" "puts gs w1 w2"
  shows "puts (fs @ gs) w w2"
proof -
  note 1 = putsD [OF assms(1)] and 2 = putsD [OF assms(2)]
  have "fields_at (mem_of w2) (var_of w) (off_of w) fs"
    by (rule fields_at_agree [OF 1(5) 2(4)]) (simp_all add: 1(2,3))
  moreover have "fields_at (mem_of w2) (var_of w + fields_tail fs) (off_of w + fields_width fs) gs"
    using 2(5) unfolding 1(2,3) .
  moreover have "agree (off_of w) (var_of w) (mem_of w) (mem_of w2)"
    by (rule agree_trans [OF 1(4) 2(4)]) (simp_all add: 1(2,3))
  moreover have "off_of w2 = off_of w + fields_width (fs @ gs)" "var_of w2 = var_of w + fields_tail (fs @ gs)"
    using 1 2 by (simp_all add: fields_width_def fields_tail_def)
  ultimately show ?thesis
    unfolding puts_def using 1(6) 2(1,6) by (simp add: fields_at_append)
qed

section \<open>Stores at the moving offset\<close>

text \<open>
  Every operation of \<^verbatim>\<open>SuperChunk\<close> that moves the offset stores some bytes there (fewer than it
  moves, when it pads without filling) and counts them: \<open>emit\<close>.
\<close>

definition emit :: "u64 \<Rightarrow> u8 list \<Rightarrow> SuperChunk \<Rightarrow> SuperChunk" where
  "emit len bs s =
     s\<lparr>sc_chunk := (sc_chunk s)\<lparr>m_ptr := poke (unat (sc_offset s)) bs (m_ptr (sc_chunk s)),
                               consumed_size := consumed_size (sc_chunk s) + len\<rparr>,
       sc_offset := sc_offset s + len\<rparr>"

abbreviation sc_mem :: "SuperChunk \<Rightarrow> u8 list" where "sc_mem s \<equiv> m_ptr (sc_chunk s)"
abbreviation sc_off :: "SuperChunk \<Rightarrow> nat" where "sc_off s \<equiv> unat (sc_offset s)"
abbreviation sc_var :: "SuperChunk \<Rightarrow> nat" where "sc_var s \<equiv> unat (variable_offset (sc_chunk s))"

text \<open>\<open>room n s\<close>: the invariant holds and \<open>n\<close> more bytes fit.\<close>

definition room :: "nat \<Rightarrow> SuperChunk \<Rightarrow> bool" where
  "room n s \<longleftrightarrow> sc_ok s \<and> sc_off s + n + sc_var s \<le> length (sc_mem s)"

lemma roomD:
  assumes "room n s"
  shows "sc_ok s" "sc_off s + n + sc_var s \<le> length (sc_mem s)"
    "length (sc_mem s) = unat (m_size (sc_chunk s))" "length (sc_mem s) < 2 ^ 64"
  using assms unsigned_less [of "m_size (sc_chunk s)", where ?'a = nat]
  by (auto simp: room_def sc_ok_def)

lemma Write_emit:
  assumes "room (unat len) s" "unat len \<le> length bs"
  shows "Write (Some bs) len s = Inr (emit len (take (unat len) bs) s)"
proof (cases "len = 0")
  case True
  then show ?thesis by (simp add: Write_def WriteAt_def advance_def emit_def)
next
  case False
  note r = roomD [OF assms(1)]
  have u: "unat (sc_offset s + len) = sc_off s + unat len"
    using r by (intro unat_add_le_word [where c = "m_size (sc_chunk s)"]) simp
  moreover have "0 < unat len" using False by (simp add: unat_gt_0)
  ultimately have "sc_offset s < Size s" "sc_offset s + len \<le> Size s"
    using r by (simp_all add: Size_def word_less_nat_alt word_le_nat_alt)
  with False assms r show ?thesis
    by (simp add: Write_def WriteAt_def store_def consume_def advance_def emit_def not_less)
qed

lemma Write8Typed_emit: "room 8 s \<Longrightarrow> Write8Typed v s = Inr (emit 8 (to_le 8 v) s)"
  by (frule roomD(2)) (simp add: Write8Typed_def store_def consume_def advance_def emit_def)

lemma Write4Typed_emit: "room 4 s \<Longrightarrow> Write4Typed v s = Inr (emit 4 (to_le 4 v) s)"
  by (frule roomD(2)) (simp add: Write4Typed_def store_def consume_def advance_def emit_def)

lemma Pad_emit:
  "room (unat len) s \<Longrightarrow> Pad len True c s = Inr (emit len (replicate (unat len) c) s)"
  "Pad len False c s = Inr (emit len [] s)"
  by (frule roomD(2)) (simp_all add: Pad_def store_def consume_def advance_def emit_def)

definition sc_frame :: "SuperChunk \<Rightarrow> u64 \<times> u64 \<times> u64 \<times> u32" where
  "sc_frame s = (m_size (sc_chunk s), row_count (sc_chunk s), chunk_id (sc_chunk s),
     partition_id (sc_chunk s))"

lemma emit_simps [simp]:
  "sc_var (emit len bs s) = sc_var s" "sc_frame (emit len bs s) = sc_frame s"
  "variable_offset (sc_chunk (emit len bs s)) = variable_offset (sc_chunk s)"
  "m_size (sc_chunk (emit len bs s)) = m_size (sc_chunk s)"
  by (simp_all add: emit_def sc_frame_def)

lemma emit_effect:
  assumes "room n s" "unat len \<le> n" "length bs \<le> unat len"
  shows "sc_off (emit len bs s) = sc_off s + unat len"
    "length (sc_mem (emit len bs s)) = length (sc_mem s)"
    "agree (sc_off s) (sc_var s) (sc_mem s) (sc_mem (emit len bs s))"
    "peek (sc_off s) (length bs) (sc_mem (emit len bs s)) = bs"
    "room (n - unat len) (emit len bs s)"
proof -
  note r = roomD [OF assms(1)]
  have "unat (sc_offset s + len) = sc_off s + unat len"
    using r assms by (intro unat_add_le_word [where c = "m_size (sc_chunk s)"]) simp
  then show off: "sc_off (emit len bs s) = sc_off s + unat len"
    by (simp add: emit_def)
  show len: "length (sc_mem (emit len bs s)) = length (sc_mem s)"
    using r assms by (simp add: emit_def)
  show "agree (sc_off s) (sc_var s) (sc_mem s) (sc_mem (emit len bs s))"
    using r assms by (simp add: emit_def agree_poke)
  show "peek (sc_off s) (length bs) (sc_mem (emit len bs s)) = bs"
    using r assms by (simp add: emit_def peek_poke_same)
  have "sc_ok (emit len bs s)"
    unfolding sc_ok_def off len emit_simps using r assms by (simp add: sc_ok_def emit_def)
  then show "room (n - unat len) (emit len bs s)"
    unfolding room_def off len using r assms by simp
qed

text \<open>\<open>puts\<close> on the level of the chunk, and its lifting to the writer.\<close>

definition sc_puts :: "field list \<Rightarrow> SuperChunk \<Rightarrow> SuperChunk \<Rightarrow> bool" where
  "sc_puts fs s s' \<longleftrightarrow> sc_ok s' \<and> sc_off s' = sc_off s + fields_width fs \<and>
     sc_var s' = sc_var s + fields_tail fs \<and> agree (sc_off s) (sc_var s) (sc_mem s) (sc_mem s') \<and>
     fields_at (sc_mem s') (sc_var s) (sc_off s) fs \<and> sc_frame s' = sc_frame s"

lemma on_chunk_puts:
  assumes "writer_ok w" "f (w_sc w) = Inr s'" "sc_puts fs (w_sc w) s'"
  shows "\<exists>w'. on_chunk f w = Inr w' \<and> puts fs w w'"
proof -
  let ?w = "(RecordColumn w)\<lparr>w_sc := s'\<rparr>"
  have "on_chunk f w = Inr ?w"
    using assms by (simp add: on_chunk_def RecordColumn_def)
  moreover have "puts fs w ?w"
    unfolding puts_def
  proof (intro conjI)
    have s: "w_sc ?w = s'" by simp
    note p = assms(3) [unfolded sc_puts_def]
    have size: "m_size (sc_chunk s') = m_size (sc_chunk (w_sc w))"
      using p by (simp add: sc_frame_def)
    show "writer_ok ?w"
      using p assms(1) size by (simp add: writer_ok_def RecordColumn_def)
    show "frame_of ?w = frame_of w"
      using p by (simp add: frame_of_def sc_frame_def RecordColumn_def)
    show "off_of ?w = off_of w + fields_width fs" "var_of ?w = var_of w + fields_tail fs"
      "agree (off_of w) (var_of w) (mem_of w) (mem_of ?w)"
      "fields_at (mem_of ?w) (var_of w) (off_of w) fs"
      using p unfolding mem_of_def off_of_def var_of_def s by blast+
  qed
  ultimately show ?thesis by blast
qed

lemma sc_puts_one_emit:
  assumes "room n s" "unat len \<le> n" "length bs \<le> unat len" "field_width f = unat len" "field_tail f = 0"
    and "field_at (sc_mem (emit len bs s)) (sc_var s) (sc_off s) f"
  shows "sc_puts [f] s (emit len bs s)"
  unfolding sc_puts_def
  using emit_effect [OF assms(1-3)] assms(4-) roomD(1) by (simp add: fields_width_def fields_tail_def)

lemma sc_puts_two_emits:
  assumes "room n s" "unat l1 + unat l2 \<le> n" "length b1 \<le> unat l1" "length b2 \<le> unat l2"
    and "field_width f = unat l1 + unat l2" "field_tail f = 0"
    and "field_at (sc_mem (emit l2 b2 (emit l1 b1 s))) (sc_var s) (sc_off s) f"
  shows "sc_puts [f] s (emit l2 b2 (emit l1 b1 s))"
proof -
  have l1: "unat l1 \<le> n" using assms by simp
  note e1 = emit_effect [OF assms(1) l1 assms(3)]
  have l2: "unat l2 \<le> n - unat l1" using assms by simp
  note e2 = emit_effect [OF e1(5) l2 assms(4)]
  have "agree (sc_off s) (sc_var s) (sc_mem s) (sc_mem (emit l2 b2 (emit l1 b1 s)))"
    by (rule agree_trans [OF e1(3) e2(3)]) (simp_all add: e1)
  then show ?thesis
    unfolding sc_puts_def using e1(1) e2(1) roomD(1) [OF e2(5)] assms(5-)
    by (simp add: fields_width_def fields_tail_def)
qed

section \<open>The writer's column operations\<close>

lemma writer_room:
  "writer_ok w \<Longrightarrow> n + var_of w + off_of w \<le> length (mem_of w) \<Longrightarrow> room n (w_sc w)"
  by (simp add: room_def writer_ok_def off_of_def var_of_def mem_of_def)

lemma free_room: "writer_ok w \<Longrightarrow> n \<le> free_of w \<Longrightarrow> room n (w_sc w)"
  using writer_ok_bounds(1) [of w] by (intro writer_room) simp_all

lemma emit_field:
  assumes "room n s" "unat len \<le> n" "length bs = unat len"
  shows "peek (sc_off s) (unat len) (sc_mem (emit len bs s)) = bs"
  using emit_effect(4) [OF assms(1,2), of bs] assms(3) by simp

lemma sc_puts_F8:
  assumes "room 8 s"
  shows "sc_puts [F8 v] s (emit 8 (to_le 8 v) s)"
  using emit_effect(4) [OF assms, of 8 "to_le 8 v"] by (intro sc_puts_one_emit [OF assms]) simp_all

lemma sc_puts_F4:
  assumes "room 8 s"
  shows "sc_puts [F4 v] s (emit 4 [] (emit 4 (to_le 4 v) s))"
proof (rule sc_puts_two_emits [OF assms])
  note e1 = emit_effect [OF assms, of 4 "to_le 4 v"]
  note e2 = emit_effect(3) [OF e1(5), of 4 "[]"]
  have "peek (sc_off s) 4 (sc_mem (emit 4 [] (emit 4 (to_le 4 v) s))) = peek (sc_off s) 4 (sc_mem (emit 4 (to_le 4 v) s))"
    using e2 e1(1) by (simp add: agree_def)
  then show "field_at (sc_mem (emit 4 [] (emit 4 (to_le 4 v) s))) (sc_var s) (sc_off s) (F4 v)"
    using e1(4) by simp
qed simp_all

lemma sc_puts_FFixed:
  assumes "room (length (a @ b)) s" "length a = unat l1" "length b = unat l2"
  shows "sc_puts [FFixed (a @ b)] s (emit l2 b (emit l1 a s))"
proof (rule sc_puts_two_emits [OF assms(1)])
  have l1: "unat l1 \<le> length (a @ b)" "length a \<le> unat l1" using assms by simp_all
  note e1 = emit_effect [OF assms(1) l1]
  have l2: "unat l2 \<le> length (a @ b) - unat l1" "length b \<le> unat l2" using assms by simp_all
  note e2 = emit_effect [OF e1(5) l2]
  have "peek (sc_off s) (length a) (sc_mem (emit l2 b (emit l1 a s))) = a"
    using e2(3) e1(1,4) assms by (simp add: agree_def)
  then show "field_at (sc_mem (emit l2 b (emit l1 a s))) (sc_var s) (sc_off s) (FFixed (a @ b))"
    using e2(4) e1(1) assms by (simp add: peek_append)
qed (use assms in simp_all)

text \<open>A field that is stored by a chain of emits is put by the writer.\<close>

lemma put_F8:
  assumes "writer_ok w" "8 \<le> free_of w"
  shows "\<exists>w'. on_chunk (Write8Typed v) w = Inr w' \<and> puts [F8 v] w w'"
  using on_chunk_puts [OF assms(1)] sc_puts_F8 Write8Typed_emit free_room [OF assms] by metis

lemma put_F4:
  assumes "writer_ok w" "8 \<le> free_of w"
  shows "\<exists>w'. on_chunk (\<lambda>s. and_then (Write4Typed v s) (Pad 4 False 32)) w = Inr w' \<and> puts [F4 v] w w'"
proof (rule on_chunk_puts [OF assms(1) _ sc_puts_F4])
  show "room 8 (w_sc w)" using free_room [OF assms] .
  then have "room 4 (w_sc w)" by (simp add: room_def)
  then show "and_then (Write4Typed v (w_sc w)) (Pad 4 False 32) = Inr (emit 4 [] (emit 4 (to_le 4 v) (w_sc w)))"
    by (simp add: Write4Typed_emit Pad_emit)
qed


lemma put_bytes8:
  assumes "writer_ok w" "8 \<le> free_of w" "8 \<le> length bs"
  shows "\<exists>w'. on_chunk (Write8 (Some bs)) w = Inr w' \<and> puts [F8 (of_le (take 8 bs))] w w'"
proof (rule on_chunk_puts [OF assms(1) _ sc_puts_F8])
  show r: "room 8 (w_sc w)" using free_room [OF assms(1,2)] .
  show "Write8 (Some bs) (w_sc w) = Inr (emit 8 (to_le 8 (of_le (take 8 bs) :: u64)) (w_sc w))"
    using Write_emit [of 8 "w_sc w" bs] r assms(3) by (simp add: Write8_def le64.enc_dec)
qed

lemma put_bytes4:
  assumes "writer_ok w" "8 \<le> free_of w" "4 \<le> length bs"
  shows "\<exists>w'. on_chunk (\<lambda>s. and_then (Write4 (Some bs) s) (Pad 4 False 32)) w = Inr w' \<and>
    puts [F4 (of_le (take 4 bs))] w w'"
proof (rule on_chunk_puts [OF assms(1) _ sc_puts_F4])
  show "room 8 (w_sc w)" using free_room [OF assms(1,2)] .
  then have r: "room 4 (w_sc w)" by (simp add: room_def)
  show "and_then (Write4 (Some bs) (w_sc w)) (Pad 4 False 32) =
      Inr (emit 4 [] (emit 4 (to_le 4 (of_le (take 4 bs) :: u32)) (w_sc w)))"
    using Write_emit [of 4 "w_sc w" bs] r assms(3) by (simp add: Write4_def le32.enc_dec Pad_emit)
qed

lemma put_Fixed:
  assumes "writer_ok w" "aligned8 (unat field_size) \<le> free_of w" "unat field_size + 7 < 2 ^ 64"
    and "unat data_size \<le> unat field_size" "unat data_size \<le> length bs"
  shows "\<exists>w'. WriteFixed (Some bs) data_size field_size False w = Inr w' \<and>
    puts [FFixed (take (unat data_size) bs @ replicate (aligned8 (unat field_size) - unat data_size) 32)] w w'"
    (is "\<exists>w'. _ \<and> puts [FFixed (?a @ ?b)] w w'")
proof -
  let ?pad = "sizeofAligned8 field_size - data_size"
  have al: "unat (sizeofAligned8 field_size) = aligned8 (unat field_size)"
    using assms(3) by (rule unat_sizeofAligned8)
  then have le: "unat data_size \<le> unat (sizeofAligned8 field_size)"
    using assms(4) aligned8_ge [of "unat field_size"] by linarith
  have pad: "unat ?pad = aligned8 (unat field_size) - unat data_size"
    using unat_sub_le_word [OF le] al by simp
  have ab: "length ?a = unat data_size" "length ?b = unat ?pad"
    "length (?a @ ?b) = aligned8 (unat field_size)"
    using assms(5) pad le al by simp_all
  have r: "room (length (?a @ ?b)) (w_sc w)"
    unfolding ab(3) by (rule free_room [OF assms(1,2)])
  have r1: "room (unat data_size) (w_sc w)"
    using r le unfolding ab(3) al by (simp add: room_def)
  have "room (unat ?pad) (emit data_size ?a (w_sc w))"
    using emit_effect(5) [OF r, of data_size ?a] ab by simp
  then have "and_then (Write (Some bs) data_size (w_sc w))
      (\<lambda>s1. Pad ?pad True (if False then 0 else 32) s1) = Inr (emit ?pad ?b (emit data_size ?a (w_sc w)))"
    using Write_emit [OF r1 assms(5)] by (simp add: Pad_emit pad)
  then show ?thesis
    unfolding WriteFixed_def by (rule on_chunk_puts [OF assms(1) _ sc_puts_FFixed [OF r ab(1,2)]])
qed

lemma put_FixedNull:
  assumes "writer_ok w" "aligned8 n \<le> free_of w" "n < 2 ^ 31" "unat (scast len :: u64) = n"
  shows "\<exists>w'. WriteFixedNull len w = Inr w' \<and> puts [FFixed (replicate (aligned8 n) 0)] w w'"
proof -
  let ?l = "sizeofAligned8 (scast len)"
  have al: "unat ?l = aligned8 n"
    using unat_sizeofAligned8 [of "scast len"] assms(3,4) by simp
  have r: "room (unat ?l) (w_sc w)" unfolding al by (rule free_room [OF assms(1,2)])
  have "sc_puts [FFixed (replicate (aligned8 n) 0)] (w_sc w) (emit ?l (replicate (unat ?l) 0) (w_sc w))"
    using emit_effect(4) [OF r, of ?l "replicate (unat ?l) 0"] al by (intro sc_puts_one_emit [OF r]) simp_all
  then show ?thesis
    unfolding WriteFixedNull_def
    by (rule on_chunk_puts [OF assms(1), rotated]) (rule Pad_emit(1) [OF r])
qed

lemma put_Variable:
  assumes "writer_ok w" "16 + unat len \<le> free_of w"
    and "val = Some bs \<and> unat len \<le> length bs \<or> val = None \<and> len = 0 \<and> bs = []"
  shows "\<exists>w'. WriteVariable val len w = Inr w' \<and> puts [FVar (take (unat len) bs)] w w'"
proof -
  let ?s = "w_sc w"
  let ?m = "sc_mem ?s" and ?o = "sc_off ?s" and ?v = "variable_offset (sc_chunk ?s)"
  let ?v' = "?v + len" and ?b = "take (unat len) bs"
  note r = roomD [OF free_room [OF assms(1,2)]]
  have cs: "w_chunk_size w = m_size (sc_chunk ?s)" using assms(1) by (simp add: writer_ok_def)
  have v': "unat ?v' = unat ?v + unat len"
    by (rule unat_add_le_word [where c = "m_size (sc_chunk ?s)"]) (use r in simp)
  have o8: "unat (sc_offset ?s + 8) = ?o + 8"
    by (subst unat_add_le_word [where c = "m_size (sc_chunk ?s)"]) (use r in simp_all)
  have o16: "unat (sc_offset ?s + 8 + 8) = ?o + 16"
    by (subst unat_add_le_word [where c = "m_size (sc_chunk ?s)"]) (use r o8 in simp_all)
  have at: "unat (w_chunk_size w - ?v') = length ?m - (unat ?v + unat len)"
    using r cs v' by (subst unat_sub_le_word) simp_all
  have lb: "length ?b = unat len" using assms(3) by auto
  let ?m2 = "poke (?o + 8) (to_le 8 len) (poke ?o (to_le 8 ?v') ?m)"
  let ?m3 = "poke (length ?m - (unat ?v + unat len)) ?b ?m2"
  let ?s' = "?s\<lparr>sc_chunk := (sc_chunk ?s)\<lparr>m_ptr := ?m3, variable_offset := ?v',
      consumed_size := consumed_size (sc_chunk ?s) + 8 + 8 + len\<rparr>, sc_offset := sc_offset ?s + 8 + 8\<rparr>"
  let ?s3 = "emit 8 (to_le 8 len) (emit 8 (to_le 8 ?v') (IncrVariableOffset len ?s))"
  have s3: "sc_mem ?s3 = ?m2" "GetVariableOffset ?s3 = ?v'" "Size ?s3 = m_size (sc_chunk ?s)"
    by (simp_all add: emit_def IncrVariableOffset_def GetVariableOffset_def Size_def o8)
  have "WriteAt (w_chunk_size w - ?v') val len ?s3 = Inr ?s'"
  proof (cases "len = 0")
    case True
    then show ?thesis
      using o8 by (simp add: WriteAt_def emit_def IncrVariableOffset_def)
  next
    case False
    then have val: "val = Some bs" "unat len \<le> length bs" "0 < unat len"
      using assms(3) by (auto simp: unat_gt_0)
    have "w_chunk_size w - ?v' < Size ?s3"
      unfolding word_less_nat_alt at s3 using r val v' by simp
    moreover have "unat (w_chunk_size w - ?v' + len) = length ?m - unat ?v"
      by (subst unat_add_le_word [where c = "m_size (sc_chunk ?s)"]) (use r at in simp_all)
    then have "w_chunk_size w - ?v' + len \<le> Size ?s3"
      unfolding word_le_nat_alt s3 using r by simp
    moreover have "store (w_chunk_size w - ?v') ?b ?s3 =
        Inr (?s3\<lparr>sc_chunk := (sc_chunk ?s3)\<lparr>m_ptr := ?m3\<rparr>\<rparr>)"
      unfolding store_def s3 at using r lb by simp
    ultimately show ?thesis
      using False val o8 by (simp add: WriteAt_def consume_def emit_def IncrVariableOffset_def)
  qed
  moreover have "Write8Typed ?v' (IncrVariableOffset len ?s) = Inr (emit 8 (to_le 8 ?v') (IncrVariableOffset len ?s))"
    using r by (simp add: Write8Typed_def store_def emit_def consume_def advance_def IncrVariableOffset_def)
  moreover have "Write8Typed len (emit 8 (to_le 8 ?v') (IncrVariableOffset len ?s)) = Inr ?s3"
    using r o8 by (simp add: Write8Typed_def store_def emit_def consume_def advance_def IncrVariableOffset_def)
  moreover have "GetVariableOffset (IncrVariableOffset len ?s) = ?v'"
    by (simp add: GetVariableOffset_def IncrVariableOffset_def)
  ultimately have run: "(let s1 = IncrVariableOffset len ?s in
       and_then (Write8Typed (GetVariableOffset s1) s1) (\<lambda>s2.
       and_then (Write8Typed len s2) (\<lambda>s3.
       WriteAt (w_chunk_size w - GetVariableOffset s3) val len s3))) = Inr ?s'"
    unfolding Let_def by (simp add: s3)
  have m1: "length (poke ?o (to_le 8 ?v') ?m) = length ?m" and m2: "length ?m2 = length ?m"
    and m3: "length ?m3 = length ?m"
    using r lb by simp_all
  have ag: "agree ?o (unat ?v) ?m ?m3"
  proof (rule agree_trans [OF agree_trans])
    show "agree ?o (unat ?v) ?m (poke ?o (to_le 8 ?v') ?m)" using r by (intro agree_poke) simp_all
    show "agree (?o + 8) (unat ?v) (poke ?o (to_le 8 ?v') ?m) ?m2" using r m1 by (intro agree_poke) simp_all
    show "agree (?o + 16) (unat ?v) ?m2 ?m3" using r m1 m2 lb by (intro agree_poke) simp_all
  qed simp_all
  have e3: "peek o' 8 ?m3 = peek o' 8 ?m2" if "o' + 8 \<le> ?o + 16" for o'
    by (rule peek_poke_before) (use r m2 that in simp_all)
  have e2: "peek ?o 8 ?m2 = peek ?o 8 (poke ?o (to_le 8 ?v') ?m)"
    by (rule peek_poke_before) (use r m1 in simp_all)
  have p1: "peek ?o 8 ?m3 = to_le 8 ?v'"
    using peek_poke_same [of ?o "to_le 8 ?v'" ?m] r e3 e2 by simp
  have p2: "peek (?o + 8) 8 ?m3 = to_le 8 len"
    using peek_poke_same [of "?o + 8" "to_le 8 len" "poke ?o (to_le 8 ?v') ?m"] r m1 e3 by simp
  have p3: "peek (length ?m3 - unat ?v') (length ?b) ?m3 = ?b"
    unfolding v' m3 by (rule peek_poke_same) (use r lb m2 in simp)
  have "sc_puts [FVar ?b] ?s ?s'"
    unfolding sc_puts_def
  proof (intro conjI)
    show "sc_ok ?s'" using r o16 v' m3 by (simp add: sc_ok_def algebra_simps)
    show "sc_off ?s' = ?o + fields_width [FVar ?b]" "sc_var ?s' = unat ?v + fields_tail [FVar ?b]"
      using o16 v' lb by (simp_all add: fields_width_def fields_tail_def)
    show "agree ?o (unat ?v) ?m (sc_mem ?s')" using ag by simp
    show "sc_frame ?s' = sc_frame ?s" by (simp add: sc_frame_def)
    have "field_at ?m3 (unat ?v') ?o (FVar ?b)"
      unfolding field_at.simps by (intro exI [of _ ?v'] exI [of _ len] conjI p1 p2 p3) (use lb v' in simp_all)
    then show "fields_at (sc_mem ?s') (sc_var ?s) ?o [FVar ?b]" using v' lb by simp
  qed
  then show ?thesis
    unfolding WriteVariable_def by (rule on_chunk_puts [OF assms(1), rotated]) (rule run)
qed

section \<open>Rows\<close>

text \<open>
  The field a column value is stored as (the reference for \<open>write_column\<close>), and when a value is
  one the library may be given: buffers hold what their type or length says, a fixed-length value
  fits its column, and dates can be converted.
\<close>

fun field_of :: "Column \<Rightarrow> cell option \<Rightarrow> u64 \<Rightarrow> field" where
  "field_of c None l =
     (case col_type c of
        Int32 \<Rightarrow> F4 int32Null
      | Date \<Rightarrow> F4 int32Null
      | Double \<Rightarrow> F8 doubleNull
      | Fixed \<Rightarrow> FFixed (replicate (aligned8 (unat (col_size c))) 0)
      | Variable \<Rightarrow> FVar []
      | _ \<Rightarrow> F8 int64Null)"
| "field_of c (Some (CellBytes bs)) l =
     (case col_type c of
        Int32 \<Rightarrow> F4 (of_le (take 4 bs))
      | Fixed \<Rightarrow> FFixed (take (unat l) bs @ replicate (aligned8 (unat (col_size c)) - unat l) 32)
      | Variable \<Rightarrow> FVar (take (unat l) bs)
      | _ \<Rightarrow> F8 (of_le (take 8 bs)))"
| "field_of c (Some (CellTime t)) l =
     (case col_type c of
        Date \<Rightarrow> (case toDateCAS t of Inr n \<Rightarrow> F4 n | Inl e \<Rightarrow> F4 0)
      | Time \<Rightarrow> F8 (toTimeCAS t)
      | _ \<Rightarrow> (case toDateTimeCAS t of Inr n \<Rightarrow> F8 n | Inl e \<Rightarrow> F8 0))"

fun cell_ok :: "Column \<Rightarrow> cell option \<Rightarrow> u64 \<Rightarrow> bool" where
  "cell_ok c None l \<longleftrightarrow>
     col_type c \<noteq> Unsupported \<and> (col_type c = Fixed \<longrightarrow> unat (col_size c) < 2 ^ 31)"
| "cell_ok c (Some (CellBytes bs)) l \<longleftrightarrow>
     (case col_type c of
        Int64 \<Rightarrow> 8 \<le> length bs
      | Double \<Rightarrow> 8 \<le> length bs
      | Int32 \<Rightarrow> 4 \<le> length bs
      | Fixed \<Rightarrow> unat (col_size c) < 2 ^ 31 \<and> unat l \<le> unat (col_size c) \<and> unat l \<le> length bs
      | Variable \<Rightarrow> unat l \<le> length bs
      | _ \<Rightarrow> False)"
| "cell_ok c (Some (CellTime t)) l \<longleftrightarrow>
     (case col_type c of
        Date \<Rightarrow> (case toDateCAS t of Inr _ \<Rightarrow> True | Inl _ \<Rightarrow> False)
      | DateTime \<Rightarrow> (case toDateTimeCAS t of Inr _ \<Rightarrow> True | Inl _ \<Rightarrow> False)
      | Time \<Rightarrow> True
      | _ \<Rightarrow> False)"

text \<open>The bytes \<open>rowSize\<close> reserves for a column.\<close>

definition reserve :: "Column \<Rightarrow> u64 \<Rightarrow> nat" where
  "reserve c l =
     (case col_type c of
        Variable \<Rightarrow> 16 + unat l
      | Fixed \<Rightarrow> aligned8 (unat (col_size c))
      | _ \<Rightarrow> 8)"

lemma field_fits:
  assumes "cell_ok c v l"
  shows "field_bytes (field_of c v l) \<le> reserve c l"
proof (cases v)
  case None
  then show ?thesis by (simp add: field_bytes_def reserve_def split: ColumnType.split)
next
  case (Some x)
  show ?thesis
  proof (cases x)
    case (CellBytes bs)
    show ?thesis
      using assms aligned8_ge [of "unat (col_size c)"]
      unfolding Some CellBytes by (auto simp: field_bytes_def reserve_def split: ColumnType.splits)
  next
    case (CellTime t)
    show ?thesis
      using assms unfolding Some CellTime
      by (auto simp: field_bytes_def reserve_def split: ColumnType.splits sum.splits)
  qed
qed

lemma unat_fixed_null_size:
  assumes "unat (s :: i64) < 2 ^ 31"
  shows "unat (scast (ucast s :: i32) :: u64) = unat s"
proof -
  have "unat s < 2147483648" using assms by simp
  then have b: "uint s < 2147483648" "0 \<le> uint s"
    unfolding uint_nat by linarith+
  have u: "uint (ucast s :: i32) = uint s"
    using b by (simp add: unsigned_ucast_eq take_bit_int_eq_self)
  have "sint (ucast s :: i32) = signed_take_bit 31 (uint (ucast s :: i32))"
    by (simp add: sint_uint)
  also have "\<dots> = uint s"
    unfolding u by (rule signed_take_bit_int_eq_self) (use b in \<open>simp_all add: order.trans [of _ 0]\<close>)
  finally have "(scast (ucast s :: i32) :: u64) = word_of_int (uint s)"
    by (simp only: scast_eq)
  then show ?thesis by simp
qed

lemmas put_ops = put_F8 put_F4 put_bytes8 put_bytes4 put_Fixed put_FixedNull put_Variable

lemmas column_ops = write_column_def WriteInt64Null_def WriteInt32Null_def WriteDoubleNull_def
  WriteVariableNull_def WriteInt64_def WriteInt32_def WriteDouble_def WriteInt64Numeric_def
  WriteInt32Numeric_def

lemma write_null_puts:
  assumes "writer_ok w" "cell_ok c None l" "reserve c l \<le> free_of w"
  shows "\<exists>w'. write_column c None l w = Inr w' \<and> puts [field_of c None l] w w'"
proof (cases "col_type c")
  case Variable
  have "16 + unat (0 :: u64) \<le> free_of w" using assms(3) Variable by (simp add: reserve_def)
  from put_Variable [OF assms(1) this, of None "[]"] Variable show ?thesis
    by (simp add: column_ops)
next
  case Fixed
  then have "aligned8 (unat (col_size c)) \<le> free_of w" "unat (col_size c) < 2 ^ 31"
    using assms by (simp_all add: reserve_def)
  from put_FixedNull [OF assms(1) this unat_fixed_null_size [OF this(2)]] Fixed show ?thesis
    by (simp add: column_ops)
qed (use assms in \<open>simp_all add: column_ops reserve_def put_F8 put_F4\<close>)

lemma write_bytes_puts:
  assumes "writer_ok w" "cell_ok c (Some (CellBytes bs)) l" "reserve c l \<le> free_of w"
  shows "\<exists>w'. write_column c (Some (CellBytes bs)) l w = Inr w' \<and>
    puts [field_of c (Some (CellBytes bs)) l] w w'"
proof (cases "col_type c")
  case Variable
  with assms put_Variable [OF assms(1), of l "Some bs" bs] show ?thesis
    by (simp add: column_ops reserve_def)
next
  case Fixed
  with assms put_Fixed [OF assms(1), of "col_size c" l bs] show ?thesis
    by (simp add: column_ops reserve_def)
qed (use assms in \<open>simp_all add: column_ops reserve_def put_bytes8 put_bytes4\<close>)

lemma write_time_puts:
  assumes "writer_ok w" "cell_ok c (Some (CellTime t)) l" "reserve c l \<le> free_of w"
  shows "\<exists>w'. write_column c (Some (CellTime t)) l w = Inr w' \<and>
    puts [field_of c (Some (CellTime t)) l] w w'"
proof (cases "col_type c")
  case Date
  with assms obtain n where "toDateCAS t = Inr n" by (auto split: sum.splits)
  with Date assms show ?thesis by (simp add: column_ops reserve_def put_F4)
next
  case DateTime
  with assms obtain n where "toDateTimeCAS t = Inr n" by (auto split: sum.splits)
  with DateTime assms show ?thesis by (simp add: column_ops reserve_def put_F8)
qed (use assms in \<open>simp_all add: column_ops reserve_def put_F8\<close>)

lemma write_column_puts:
  assumes "writer_ok w" "cell_ok c v l" "reserve c l \<le> free_of w"
  shows "\<exists>w'. write_column c v l w = Inr w' \<and> puts [field_of c v l] w w'"
proof (cases v)
  case None
  with assms show ?thesis using write_null_puts by blast
next
  case (Some x)
  with assms show ?thesis using write_bytes_puts write_time_puts by (cases x) blast+
qed

section \<open>Whole rows\<close>

fun row_fields :: "RowSchema \<Rightarrow> cell option list \<Rightarrow> u64 list \<Rightarrow> field list" where
  "row_fields (c # cs) (v # vs) (l # ls) = field_of c v l # row_fields cs vs ls"
| "row_fields _ _ _ = []"

fun row_ok :: "RowSchema \<Rightarrow> cell option list \<Rightarrow> u64 list \<Rightarrow> bool" where
  "row_ok [] [] [] \<longleftrightarrow> True"
| "row_ok (c # cs) (v # vs) (l # ls) \<longleftrightarrow> cell_ok c v l \<and> row_ok cs vs ls"
| "row_ok _ _ _ \<longleftrightarrow> False"

fun row_reserve :: "RowSchema \<Rightarrow> u64 list \<Rightarrow> nat" where
  "row_reserve (c # cs) (l # ls) = reserve c l + row_reserve cs ls"
| "row_reserve _ _ = 0"

definition fields_bytes :: "field list \<Rightarrow> nat" where
  "fields_bytes fs = sum_list (map field_bytes fs)"

lemma fields_bytes_eq: "fields_bytes fs = fields_width fs + fields_tail fs"
  by (induction fs) (simp_all add: fields_bytes_def fields_width_def fields_tail_def field_bytes_def)

lemma row_fits: "row_ok cs vs ls \<Longrightarrow> fields_bytes (row_fields cs vs ls) \<le> row_reserve cs ls"
  by (induction cs vs ls rule: row_ok.induct)
     (auto simp: fields_bytes_def intro!: add_mono field_fits)

lemma cell_ok_size: "cell_ok c v l \<Longrightarrow> col_type c = Fixed \<Longrightarrow> unat (col_size c) < 2 ^ 31"
  by (cases "(c, v, l)" rule: cell_ok.cases) auto

lemma unat_sizeofAligned8_small:
  "unat len < 2 ^ 31 \<Longrightarrow> unat (sizeofAligned8 len) = aligned8 (unat len)"
  by (rule unat_sizeofAligned8) simp

text \<open>What \<open>rowSize\<close> needs to know of a row: a length for every column, and sizes that are not absurd.\<close>

definition sizes_ok :: "RowSchema \<Rightarrow> u64 list \<Rightarrow> bool" where
  "sizes_ok cs ls \<longleftrightarrow>
     length ls = length cs \<and> (\<forall>c \<in> set cs. col_type c = Fixed \<longrightarrow> unat (col_size c) < 2 ^ 31)"

lemma row_ok_sizes: "row_ok cs vs ls \<Longrightarrow> sizes_ok cs ls"
  by (induction cs vs ls rule: row_ok.induct) (auto simp: sizes_ok_def dest: cell_ok_size)

lemma rowSize_loop_eq:
  assumes "sizes_ok cs ls" "unat n + row_reserve cs ls < 2 ^ 64"
  shows "\<exists>t. rowSize_loop n cs ls = Inr t \<and> unat t = unat n + row_reserve cs ls"
  using assms
proof (induction cs ls arbitrary: n rule: row_reserve.induct)
  case (1 c cs l ls)
  define k :: u64 where
    "k = (case col_type c of Variable \<Rightarrow> l + 2 * defaultAlignmentSize
          | Fixed \<Rightarrow> sizeofAligned8 (col_size c) | _ \<Rightarrow> defaultAlignmentSize)"
  have sizes: "sizes_ok cs ls" "col_type c = Fixed \<longrightarrow> unat (col_size c) < 2 ^ 31"
    using 1(2) by (simp_all add: sizes_ok_def)
  have bound: "unat n + reserve c l < 2 ^ 64" using 1(3) by simp
  have k: "unat k = reserve c l"
  proof (cases "col_type c")
    case Variable
    then have "unat l + unat (16 :: u64) < 2 ^ 64" using bound by (simp add: reserve_def)
    then show ?thesis
      using Variable unat_add_bounded [of l 16] by (simp add: k_def reserve_def defaultAlignmentSize_def)
  next
    case Fixed
    then show ?thesis using sizes(2) by (simp add: k_def reserve_def unat_sizeofAligned8_small)
  qed (simp_all add: k_def reserve_def defaultAlignmentSize_def)
  have nk: "unat (n + k) = unat n + reserve c l"
    using bound k by (subst unat_add_bounded) simp_all
  have "rowSize_loop n (c # cs) (l # ls) = rowSize_loop (n + k) cs ls"
    by (cases "col_type c") (simp_all add: k_def)
  with "1.IH" [of "n + k"] sizes(1) 1(3) nk show ?case by (simp add: add.assoc)
qed (simp_all add: sizes_ok_def)

lemma rowSize_eq:
  assumes "sizes_ok cs ls" "row_reserve cs ls < 2 ^ 64"
  obtains t where "rowSize cs ls = Inr t" "unat t = row_reserve cs ls"
  using rowSize_loop_eq [OF assms(1), of 0] assms(2) by (auto simp: rowSize_def)

lemma puts_free:
  assumes "puts fs w w'" "writer_ok w"
  shows "free_of w = free_of w' + fields_bytes fs"
proof -
  note p = putsD [OF assms(1)]
  have "length (mem_of w') = length (mem_of w)" using p(4) by (simp add: agree_def)
  then show ?thesis
    using writer_ok_bounds(1) [OF p(1)] writer_ok_bounds(1) [OF assms(2)] p(2,3)
    by (simp add: fields_bytes_eq)
qed

text \<open>
  What writing a row comes to: the fields it stores and, if a column throws, the error; the columns
  from there on are not stored. \<open>None\<close> for a row that has not the values its columns name.
\<close>

definition column_error :: "Column \<Rightarrow> cell option \<Rightarrow> fault option" where
  "column_error c v =
     (case (col_type c, v) of
        (Unsupported, _) \<Rightarrow> Some (S2ClientError S2C_ERROR_UNS_DATA_TYPE
          ''Trying to write unsupported data type to the chunk. Aborted.'')
      | (Date, Some (CellTime t)) \<Rightarrow> (case toDateCAS t of Inl e \<Rightarrow> Some e | Inr n \<Rightarrow> None)
      | (DateTime, Some (CellTime t)) \<Rightarrow> (case toDateTimeCAS t of Inl e \<Rightarrow> Some e | Inr n \<Rightarrow> None)
      | _ \<Rightarrow> None)"

fun row_result :: "RowSchema \<Rightarrow> cell option list \<Rightarrow> u64 list \<Rightarrow> (field list \<times> fault option) option" where
  "row_result [] [] [] = Some ([], None)"
| "row_result (c # cs) (v # vs) (l # ls) =
     (if cell_ok c v l then map_option (\<lambda>(fs, err). (field_of c v l # fs, err)) (row_result cs vs ls)
      else map_option (\<lambda>e. ([], Some e)) (column_error c v))"
| "row_result _ _ _ = None"

lemma row_ok_result: "row_ok cs vs ls \<Longrightarrow> row_result cs vs ls = Some (row_fields cs vs ls, None)"
  by (induction cs vs ls rule: row_ok.induct) auto


lemma row_result_ok:
  "row_result cs vs ls = Some (fs, None) \<Longrightarrow> row_ok cs vs ls \<and> fs = row_fields cs vs ls"
  by (induction cs vs ls arbitrary: fs rule: row_result.induct) (auto split: if_splits)

lemma write_column_error: "column_error c v = Some e \<Longrightarrow> write_column c v l w = Inl e"
  by (auto simp: column_error_def write_column_def split: ColumnType.splits option.splits cell.splits sum.splits)

definition outcome :: "fault option \<Rightarrow> fault + unit" where
  "outcome err = (case err of None \<Rightarrow> Inr () | Some e \<Rightarrow> Inl e)"

lemma write_columns_puts:
  assumes "row_result cs vs ls = Some (fs, err)" "writer_ok w" "row_reserve cs ls \<le> free_of w"
  shows "\<exists>w'. write_columns cs vs ls w = (outcome err, w') \<and> puts fs w w'"
  using assms
proof (induction cs vs ls arbitrary: w fs rule: row_result.induct)
  case (2 c cs v vs l ls)
  show ?case
  proof (cases "cell_ok c v l")
    case True
    then obtain gs where gs: "row_result cs vs ls = Some (gs, err)" "fs = field_of c v l # gs"
      using 2(2) by auto
    obtain w1 where w1: "write_column c v l w = Inr w1" "puts [field_of c v l] w w1"
      using write_column_puts [of w c v l] True 2(3,4) by auto
    have "fields_bytes [field_of c v l] \<le> reserve c l"
      using field_fits True by (simp add: fields_bytes_def)
    then have "row_reserve cs ls \<le> free_of w1"
      using puts_free [OF w1(2)] 2(3,4) by simp
    with "2.IH" [OF True gs(1), of w1] putsD(1) [OF w1(2)]
    obtain w2 where "write_columns cs vs ls w1 = (outcome err, w2)" "puts gs w1 w2" by auto
    with w1 gs(2) puts_append [OF w1(2)] show ?thesis by (auto simp: act_simps)
  next
    case False
    then show ?thesis
      using 2(2,3) write_column_error [of c v _ l w] by (auto simp: act_simps outcome_def puts_Nil)
  qed
qed (simp_all add: puts_Nil act_simps outcome_def)

text \<open>
  Between two rows: \<open>holds rows w\<close> says that the writer's chunk holds exactly these rows (each a
  list of fields), from offset 0, and that \<open>row_count\<close> counts them.
\<close>

definition holds :: "field list list \<Rightarrow> Writer \<Rightarrow> bool" where
  "holds rows w \<longleftrightarrow> writer_ok w \<and> off_of w = fields_width (concat rows) \<and>
     var_of w = fields_tail (concat rows) \<and> fields_at (mem_of w) 0 0 (concat rows) \<and>
     row_count (sc_chunk (w_sc w)) = of_nat (length rows) \<and>
     w_row_offset w = sc_offset (w_sc w) \<and> (w_row_fixed_size w = 0 \<longrightarrow> w_row_offset w = 0)"

lemma Reset_holds:
  assumes "length (m_ptr c) = unat (m_size c)" "row_count c = 0" "consumed_size c = 0" "variable_offset c = 0"
  shows "holds [] (Reset c schema)"
  using assms by (simp add: holds_def Reset_def writer_ok_def sc_ok_def SuperChunk_def off_of_def
      var_of_def mem_of_def fields_width_def fields_tail_def)

definition chunk_key :: "Writer \<Rightarrow> u64 \<times> u32 \<times> u64" where
  "chunk_key w = (chunk_id (sc_chunk (w_sc w)), partition_id (sc_chunk (w_sc w)), w_chunk_size w)"

lemma WriteRowEnd_eq:
  assumes "w_row_fixed_size w = 0 \<longrightarrow> w_row_offset w = 0"
  shows "\<exists>w'. WriteRowEnd w = Inr w' \<and> writer_ok w' = writer_ok w \<and> mem_of w' = mem_of w \<and>
    off_of w' = off_of w \<and> var_of w' = var_of w \<and> w_row_offset w' = sc_offset (w_sc w') \<and>
    (w_row_fixed_size w' = 0 \<longrightarrow> w_row_offset w' = 0) \<and> w_schema w' = w_schema w \<and>
    row_count (sc_chunk (w_sc w')) = row_count (sc_chunk (w_sc w)) + 1 \<and> chunk_key w' = chunk_key w"
  using assms
  by (auto simp: WriteRowEnd_def Let_def IncrRowCount_def GetOffset_def writer_ok_def sc_ok_def
      mem_of_def off_of_def var_of_def chunk_key_def)

lemma holds_extend:
  assumes "holds rows w" "puts fs w w1" "WriteRowEnd w1 = Inr w2"
  shows "holds (rows @ [fs]) w2" "w_schema w2 = w_schema w" "mem_of w2 = mem_of w1"
    "chunk_key w2 = chunk_key w"
proof -
  note p = putsD [OF assms(2)]
  have fr: "w_row_fixed_size w1 = 0 \<longrightarrow> w_row_offset w1 = 0" "w_schema w1 = w_schema w"
    "row_count (sc_chunk (w_sc w1)) = row_count (sc_chunk (w_sc w))"
    using p(6) assms(1) unfolding frame_of_def holds_def by auto
  obtain w' where w': "WriteRowEnd w1 = Inr w'" "writer_ok w' = writer_ok w1" "mem_of w' = mem_of w1"
    "off_of w' = off_of w1" "var_of w' = var_of w1" "w_row_offset w' = sc_offset (w_sc w')"
    "w_row_fixed_size w' = 0 \<longrightarrow> w_row_offset w' = 0" "w_schema w' = w_schema w1"
    "row_count (sc_chunk (w_sc w')) = row_count (sc_chunk (w_sc w1)) + 1" "chunk_key w' = chunk_key w1"
    using WriteRowEnd_eq [OF fr(1)] by blast
  have eq: "w' = w2" using w'(1) assms(3) by simp
  note e = w'(2-) [unfolded eq]
  have h: "off_of w = fields_width (concat rows)" "var_of w = fields_tail (concat rows)"
    "fields_at (mem_of w) 0 0 (concat rows)"
    "row_count (sc_chunk (w_sc w)) = of_nat (length rows)"
    using assms(1) unfolding holds_def by blast+
  have "fields_at (mem_of w1) 0 0 (concat rows)"
    by (rule fields_at_agree [OF h(3) p(4)]) (simp_all add: h(1,2))
  with p(5) have at: "fields_at (mem_of w2) 0 0 (concat (rows @ [fs]))"
    using h(1,2) e(2) by (simp add: fields_at_append)
  show "w_schema w2 = w_schema w" using e(7) fr(2) by simp
  show "mem_of w2 = mem_of w1" by (rule e(2))
  show "chunk_key w2 = chunk_key w" using e(9) p(6) by (simp add: chunk_key_def frame_of_def)
  have "writer_ok w2" using e(1) p(1) by simp
  moreover have "off_of w2 = fields_width (concat (rows @ [fs]))" "var_of w2 = fields_tail (concat (rows @ [fs]))"
    using e(3,4) p(2,3) h(1,2) by (simp_all add: fields_width_def fields_tail_def)
  moreover have "row_count (sc_chunk (w_sc w2)) = of_nat (length (rows @ [fs]))"
    using e(8) fr(3) h(4) by simp
  ultimately show "holds (rows @ [fs]) w2"
    unfolding holds_def using at e(5,6) by blast
qed

text \<open>\<open>WriteRow\<close> on a row that fits, on one whose column throws, and on one that does not fit.\<close>

lemma WriteRow_fits:
  assumes "holds rows w" "row_result (w_schema w) row lengths = Some (fs, err)"
    and "sizes_ok (w_schema w) lengths" "row_reserve (w_schema w) lengths \<le> free_of w"
  obtains w1 where "puts fs w w1"
    "WriteRow row lengths w = andThen (lift (outcome err)) (\<lambda>_. andThen (updating WriteRowEnd) (\<lambda>_. give True)) w1"
proof -
  have ok: "writer_ok w" using assms(1) by (simp add: holds_def)
  have small: "row_reserve (w_schema w) lengths < 2 ^ 64"
    using assms(4) writer_ok_bounds [OF ok] by linarith
  obtain t where t: "rowSize (w_schema w) lengths = Inr t" "unat t = row_reserve (w_schema w) lengths"
    using rowSize_eq [OF assms(3) small] .
  obtain w1 where w1: "write_columns (w_schema w) row lengths w = (outcome err, w1)" "puts fs w w1"
    using write_columns_puts [OF assms(2) ok assms(4)] by blast
  have "WriteRow row lengths w = andThen (lift (outcome err)) (\<lambda>_. andThen (updating WriteRowEnd) (\<lambda>_. give True)) w1"
    using t assms(4) HasEnoughSpace_eq [OF ok] w1(1) by (simp add: WriteRow_def act_simps)
  with w1(2) that show thesis by blast
qed

lemma WriteRow_written:
  assumes "holds rows w" "row_ok (w_schema w) row lengths" "row_reserve (w_schema w) lengths \<le> free_of w"
  shows "\<exists>w'. WriteRow row lengths w = (Inr True, w') \<and>
    holds (rows @ [row_fields (w_schema w) row lengths]) w' \<and> w_schema w' = w_schema w \<and>
    chunk_key w' = chunk_key w"
proof -
  let ?fs = "row_fields (w_schema w) row lengths"
  obtain w1 where w1: "puts ?fs w w1"
    "WriteRow row lengths w = andThen (lift (outcome None)) (\<lambda>_. andThen (updating WriteRowEnd) (\<lambda>_. give True)) w1"
    by (rule WriteRow_fits [OF assms(1) row_ok_result [OF assms(2)] row_ok_sizes [OF assms(2)] assms(3)])
  have "w_row_fixed_size w1 = 0 \<longrightarrow> w_row_offset w1 = 0"
    using putsD(6) [OF w1(1)] assms(1) unfolding frame_of_def holds_def by auto
  then obtain w2 where w2: "WriteRowEnd w1 = Inr w2" using WriteRowEnd_eq by blast
  then have "WriteRow row lengths w = (Inr True, w2)"
    using w1(2) by (simp add: act_simps outcome_def)
  with holds_extend [OF assms(1) w1(1) w2] show ?thesis by blast
qed

lemma WriteRow_throws:
  assumes "holds rows w" "row_result (w_schema w) row lengths = Some (fs, Some e)"
    and "sizes_ok (w_schema w) lengths" "row_reserve (w_schema w) lengths \<le> free_of w"
  shows "\<exists>w'. WriteRow row lengths w = (Inl e, w') \<and> puts fs w w'"
  by (rule WriteRow_fits [OF assms]) (auto simp: act_simps outcome_def)

lemma WriteRow_full:
  assumes "writer_ok w" "sizes_ok (w_schema w) lengths" "row_reserve (w_schema w) lengths < 2 ^ 64"
    and "\<not> row_reserve (w_schema w) lengths \<le> free_of w"
  shows "WriteRow row lengths w =
    (if row_count (sc_chunk (w_sc w)) = 0
     then Inl (InvalidArgument (too_small_message (w_chunk_size w) (of_nat (row_reserve (w_schema w) lengths))))
     else Inr False, w)"
proof -
  obtain t where t: "rowSize (w_schema w) lengths = Inr t" "unat t = row_reserve (w_schema w) lengths"
    using rowSize_eq [OF assms(2,3)] .
  have "of_nat (row_reserve (w_schema w) lengths) = t" by (simp flip: t(2))
  with t assms(4) HasEnoughSpace_eq [OF assms(1)] show ?thesis
    by (simp add: WriteRow_def RowCount_def act_simps)
qed

end
