(* ===== verification/Hdat_Reader.thy ===== *)
theory Hdat_Reader
  imports Hdat_Layout
begin

text \<open>
  The class \<^verbatim>\<open>SuperChunkReader\<close> of \<^verbatim>\<open>hdat/chunk_reader.cpp\<close> and the C functions around it
  (\<^verbatim>\<open>hdat_read_extern.h\<close>), and the round trip through a chunk: what the reader returns for the
  fields the writer stored. A read that returns \<open>true\<close> is \<open>Some\<close> of its output parameters, one
  that returns \<open>false\<close> is \<open>None\<close>; a failed \<open>assert\<close> and an access outside the buffer are faults.
\<close>

record Reader =
  r_sc :: SuperChunk
  r_schema :: RowSchema
  r_error :: string

section \<open>Operations\<close>

text \<open>The constructor; \<open>m_error\<close> is an empty string then, and \<^verbatim>\<open>Reset\<close> keeps it.\<close>

definition SuperChunkReader :: "Chunk \<Rightarrow> RowSchema \<Rightarrow> Reader" where
  "SuperChunkReader chunk rowSchema = \<lparr>r_sc = SuperChunk chunk, r_schema = rowSchema, r_error = []\<rparr>"

definition ResetReader :: "Chunk \<Rightarrow> RowSchema \<Rightarrow> Reader \<Rightarrow> Reader" where
  "ResetReader chunk rowSchema r = r\<lparr>r_sc := SuperChunk chunk, r_schema := rowSchema\<rparr>"

definition CanRead :: "u64 \<Rightarrow> u64 \<Rightarrow> Reader \<Rightarrow> bool" where
  "CanRead offset len r \<longleftrightarrow> offset + len \<le> Size (r_sc r)"

definition ReadFloat :: "Reader \<Rightarrow> fault + ((u64 \<times> bool) option \<times> Reader)" where
  "ReadFloat r =
     (if \<not> CanRead (GetOffset (r_sc r)) 8 r
      then Inr (None, r\<lparr>r_error := ''no space available to read Float''\<rparr>)
      else and_then (Read8 (r_sc r)) (\<lambda>(v, s). Inr (Some (v, isnan v), r\<lparr>r_sc := s\<rparr>)))"

definition ReadInt64 :: "Reader \<Rightarrow> fault + ((i64 \<times> bool) option \<times> Reader)" where
  "ReadInt64 r =
     (if \<not> CanRead (GetOffset (r_sc r)) 8 r
      then Inr (None, r\<lparr>r_error := ''no space available to read Int64''\<rparr>)
      else and_then (Read8 (r_sc r)) (\<lambda>(v, s). Inr (Some (v, v = int64Null), r\<lparr>r_sc := s\<rparr>)))"

definition ReadInt32 :: "Reader \<Rightarrow> fault + ((i32 \<times> bool) option \<times> Reader)" where
  "ReadInt32 r =
     (if \<not> CanRead (GetOffset (r_sc r)) 8 r
      then Inr (None, r\<lparr>r_error := ''no space available to read Int32''\<rparr>)
      else and_then (Read4 (r_sc r)) (\<lambda>(v, s).
           and_then (Pad 4 False 32 s) (\<lambda>s'. Inr (Some (v, v = int32Null), r\<lparr>r_sc := s'\<rparr>))))"

text \<open>
  The outputs of \<^verbatim>\<open>ReadVariable\<close> are the pointer (an offset into the buffer, \<open>None\<close> when it is
  not set), the length and the null flag.
\<close>

definition ReadVariable :: "Reader \<Rightarrow> fault + ((u64 option \<times> u64 \<times> bool) option \<times> Reader)" where
  "ReadVariable r =
     (if \<not> CanRead (GetOffset (r_sc r)) 16 r
      then Inr (None, r\<lparr>r_error := ''no space available to read Variable length and offset''\<rparr>)
      else and_then (Read8 (r_sc r)) (\<lambda>(offset, s1).
           if offset = 0 then Inl AssertionFailed
           else and_then (Read8 s1) (\<lambda>(len, s2).
             let r2 = r\<lparr>r_sc := s2\<rparr> in
             if len = 0 then Inr (Some (None, len, True), r2)
             else let offset' = Size s2 - offset in
               if \<not> CanRead offset' len r2
               then Inr (None, r2\<lparr>r_error := ''no space available to read Variable''\<rparr>)
               else and_then (PtrAt offset' s2) (\<lambda>p. Inr (Some (Some p, len, False), r2)))))"

text \<open>\<^verbatim>\<open>ReadFixed\<close> passes the 64-bit length to \<^verbatim>\<open>IsNullBuffer\<close> as an \<open>int\<close>.\<close>

definition ReadFixed :: "u64 \<Rightarrow> Reader \<Rightarrow> fault + ((u64 option \<times> bool) option \<times> Reader)" where
  "ReadFixed len r =
     (if len = 0 then Inr (Some (None, True), r)
      else and_then (ReadAligned8 len (r_sc r)) (\<lambda>(p, s).
        case p of
          None \<Rightarrow> Inr (None, r)
        | Some off \<Rightarrow>
            and_then (IsNullBuffer (bytes_from off s) (sint (ucast len :: i32)))
              (\<lambda>null. Inr (Some (Some off, null), r\<lparr>r_sc := s\<rparr>))))"

definition CreateReader :: "bool \<Rightarrow> Chunk option \<Rightarrow> RowSchema \<Rightarrow> (nat \<times> string) + Reader" where
  "CreateReader alloc chunk schema =
     (case chunk of
        None \<Rightarrow> Inl (S2C_ERROR_INV_ARG, ''NULL pointer passed as Chunk*'')
      | Some c \<Rightarrow>
          if alloc then Inr (SuperChunkReader c schema)
          else Inl (S2C_ERROR_MEMORY_ALLOCATION, ''Memory allocation error in CreateWriter''))"

text \<open>The other C functions pass their arguments on to the methods.\<close>

definition c_ResetReader :: "Reader \<Rightarrow> Chunk \<Rightarrow> RowSchema \<Rightarrow> Reader" where
  "c_ResetReader reader chunk schema = ResetReader chunk schema reader"

definition c_ReadInt64 :: "Reader \<Rightarrow> fault + ((i64 \<times> bool) option \<times> Reader)" where
  "c_ReadInt64 reader = ReadInt64 reader"

definition c_ReadInt32 :: "Reader \<Rightarrow> fault + ((i32 \<times> bool) option \<times> Reader)" where
  "c_ReadInt32 reader = ReadInt32 reader"

definition c_ReadFloat :: "Reader \<Rightarrow> fault + ((u64 \<times> bool) option \<times> Reader)" where
  "c_ReadFloat reader = ReadFloat reader"

definition c_ReadFixed :: "Reader \<Rightarrow> u64 \<Rightarrow> fault + ((u64 option \<times> bool) option \<times> Reader)" where
  "c_ReadFixed reader len = ReadFixed len reader"

definition c_ReadVariable :: "Reader \<Rightarrow> fault + ((u64 option \<times> u64 \<times> bool) option \<times> Reader)" where
  "c_ReadVariable reader = ReadVariable reader"

section \<open>Reading one field\<close>

abbreviation r_mem :: "Reader \<Rightarrow> u8 list" where "r_mem r \<equiv> sc_mem (r_sc r)"
abbreviation r_off :: "Reader \<Rightarrow> nat" where "r_off r \<equiv> sc_off (r_sc r)"

text \<open>A reader on a buffer as large as the chunk says, not behind its end.\<close>

definition reader_ok :: "Reader \<Rightarrow> bool" where
  "reader_ok r \<longleftrightarrow> length (r_mem r) = unat (m_size (sc_chunk (r_sc r))) \<and> r_off r \<le> length (r_mem r)"

text \<open>\<open>moved n r r'\<close>: the reader read \<open>n\<close> bytes.\<close>

definition moved :: "nat \<Rightarrow> Reader \<Rightarrow> Reader \<Rightarrow> bool" where
  "moved n r r' \<longleftrightarrow> reader_ok r' \<and> r_mem r' = r_mem r \<and> r_off r' = r_off r + n"

lemma reader_length: "reader_ok r \<Longrightarrow> length (r_mem r) < 2 ^ 64"
  using unsigned_less [of "m_size (sc_chunk (r_sc r))", where ?'a = nat] by (simp add: reader_ok_def)

lemma reader_offset:
  assumes "reader_ok r" "r_off r + unat n \<le> length (r_mem r)"
  shows "unat (sc_offset (r_sc r) + n) = r_off r + unat n"
  using assms by (intro unat_add_le_word [where c = "m_size (sc_chunk (r_sc r))"]) (simp add: reader_ok_def)

lemma CanRead_eq:
  assumes "reader_ok r" "r_off r + unat n \<le> length (r_mem r)"
  shows "CanRead (GetOffset (r_sc r)) n r"
  using reader_offset [OF assms] assms
  by (simp add: CanRead_def GetOffset_def Size_def word_le_nat_alt reader_ok_def)

lemma advance_moved:
  assumes "reader_ok r" "r_off r + unat n \<le> length (r_mem r)"
  shows "moved (unat n) r (r\<lparr>r_sc := advance n (r_sc r)\<rparr>)"
  using assms reader_offset [OF assms] by (simp add: moved_def reader_ok_def advance_def)

lemma Read8_eq:
  assumes "reader_ok r" "r_off r + 8 \<le> length (r_mem r)"
  shows "Read8 (r_sc r) = Inr (of_le (peek (r_off r) 8 (r_mem r)), advance 8 (r_sc r))"
  using assms(2) by (simp add: Read8_def load_def)

lemma read_F8:
  assumes "reader_ok r" "r_off r + 8 \<le> length (r_mem r)" "field_at (r_mem r) v (r_off r) (F8 x)"
  shows "ReadInt64 r = Inr (Some (x, x = int64Null), r\<lparr>r_sc := advance 8 (r_sc r)\<rparr>)"
    and "ReadFloat r = Inr (Some (x, isnan x), r\<lparr>r_sc := advance 8 (r_sc r)\<rparr>)"
    and "moved 8 r (r\<lparr>r_sc := advance 8 (r_sc r)\<rparr>)"
proof -
  have "CanRead (GetOffset (r_sc r)) 8 r" using assms by (intro CanRead_eq) simp_all
  then show "ReadInt64 r = Inr (Some (x, x = int64Null), r\<lparr>r_sc := advance 8 (r_sc r)\<rparr>)"
    and "ReadFloat r = Inr (Some (x, isnan x), r\<lparr>r_sc := advance 8 (r_sc r)\<rparr>)"
    using Read8_eq [OF assms(1,2)] assms(3) by (simp_all add: ReadInt64_def ReadFloat_def le64.dec_enc)
  show "moved 8 r (r\<lparr>r_sc := advance 8 (r_sc r)\<rparr>)"
    using advance_moved [of r 8] assms by simp
qed

lemma read_F4:
  assumes "reader_ok r" "r_off r + 8 \<le> length (r_mem r)" "field_at (r_mem r) v (r_off r) (F4 x)"
  shows "\<exists>r'. ReadInt32 r = Inr (Some (x, x = int32Null), r') \<and> moved 8 r r'"
proof -
  have "CanRead (GetOffset (r_sc r)) 8 r" using assms by (intro CanRead_eq) simp_all
  moreover have "Read4 (r_sc r) = Inr (x, advance 4 (r_sc r))"
    using assms(2,3) by (simp add: Read4_def load_def le32.dec_enc)
  moreover have "moved 8 r (r\<lparr>r_sc := consume 4 (advance 4 (advance 4 (r_sc r)))\<rparr>)"
    using advance_moved [of r 8] assms
    by (simp add: moved_def reader_ok_def advance_def consume_def add.commute [of 8 "sc_offset (r_sc r)"])
  ultimately show ?thesis by (simp add: ReadInt32_def Pad_def)
qed

lemma read_FFixed:
  assumes "reader_ok r" "r_off r + length bs \<le> length (r_mem r)" "field_at (r_mem r) v (r_off r) (FFixed bs)"
    and "length bs = aligned8 (unat len)" "0 < unat len" "unat len < 2 ^ 31"
  shows "\<exists>r'. ReadFixed len r =
      Inr (Some (Some (sc_offset (r_sc r)),
        take (unat len) bs = replicate (unat len) 0 \<or> take (unat len) bs = replicate (unat len) 32), r') \<and>
    moved (length bs) r r'"
proof -
  have al: "unat (sizeofAligned8 len) = length bs"
    unfolding assms(4) using assms(6) by (rule unat_sizeofAligned8_small)
  have lt: "r_off r < length (r_mem r)" and le: "unat len \<le> length bs"
    using assms(2,4,5) aligned8_ge [of "unat len"] by linarith+
  have sz: "unat (Size (r_sc r)) = length (r_mem r)" using assms(1) by (simp add: reader_ok_def Size_def)
  have "unat (Size (r_sc r) - sc_offset (r_sc r)) = length (r_mem r) - r_off r"
    using lt sz by (subst unat_sub_le_word) simp_all
  then have "\<not> Size (r_sc r) - sc_offset (r_sc r) < sizeofAligned8 len"
    using assms(2) al by (simp add: word_less_nat_alt)
  moreover have "sc_offset (r_sc r) < Size (r_sc r)"
    using lt sz by (simp add: word_less_nat_alt)
  ultimately have run: "ReadAligned8 len (r_sc r) = Inr (Some (sc_offset (r_sc r)), advance (sizeofAligned8 len) (r_sc r))"
    by (simp add: ReadAligned8_def PtrAt_def Let_def)
  let ?buf = "bytes_from (sc_offset (r_sc r)) (advance (sizeofAligned8 len) (r_sc r))"
  have buf: "?buf = drop (r_off r) (r_mem r)" by (simp add: bytes_from_def advance_def)
  have "take (length bs) ?buf = bs" using assms(3) by (simp add: buf peek_def)
  then have tk: "take (unat len) ?buf = take (unat len) bs" using le by (metis min.absorb1 take_take)
  have len_buf: "unat len \<le> length ?buf" using assms(2) le by (simp add: buf)
  have si: "sint (ucast len :: i32) = int (unat len)" using assms(6) by (rule sint_ucast_int)
  have "IsNullBuffer ?buf (int (unat len)) =
      Inr (take (unat len) ?buf = replicate (unat len) 0 \<or> take (unat len) ?buf = replicate (unat len) 32)"
    using IsNullBuffer_eq [of "int (unat len)" ?buf] len_buf assms(5)
    by (simp only: nat_int of_nat_0_less_iff)
  moreover have "moved (length bs) r (r\<lparr>r_sc := advance (sizeofAligned8 len) (r_sc r)\<rparr>)"
    using advance_moved [of r "sizeofAligned8 len"] assms(1,2) al by simp
  moreover have "len \<noteq> 0" using assms(5) by auto
  ultimately show ?thesis
    by (simp add: ReadFixed_def run si tk)
qed

text \<open>The start of \<^verbatim>\<open>ReadVariable\<close>: the stored offset, which must not be 0, and the length.\<close>

lemma read_FVar_head:
  assumes "reader_ok r" "r_off r + 16 \<le> length (r_mem r)" "field_at (r_mem r) v (r_off r) (FVar bs)"
  obtains vo len s2 where "CanRead (GetOffset (r_sc r)) 16 r" "Read8 (r_sc r) = Inr (vo, advance 8 (r_sc r))"
    "Read8 (advance 8 (r_sc r)) = Inr (len, s2)" "unat vo = v" "unat len = length bs"
    "Size s2 = m_size (sc_chunk (r_sc r))" "sc_mem s2 = r_mem r" "moved 16 r (r\<lparr>r_sc := s2\<rparr>)"
proof -
  obtain vo :: u64 and len :: u64 where at: "peek (r_off r) 8 (r_mem r) = to_le 8 vo"
    "peek (r_off r + 8) 8 (r_mem r) = to_le 8 len" "unat len = length bs" "unat vo = v"
    using assms(3) by auto
  let ?s2 = "advance 8 (advance 8 (r_sc r))"
  show thesis
  proof (rule that [of vo len ?s2])
    show "CanRead (GetOffset (r_sc r)) 16 r" using assms by (intro CanRead_eq) simp_all
    show "Read8 (r_sc r) = Inr (vo, advance 8 (r_sc r))"
      using Read8_eq [OF assms(1)] assms(2) at(1) by (simp add: le64.dec_enc)
    have "unat (sc_offset (r_sc r) + 8) = r_off r + 8"
      using reader_offset [OF assms(1), of 8] assms(2) by simp
    then show "Read8 (advance 8 (r_sc r)) = Inr (len, ?s2)"
      using at(2) assms(2) by (simp add: Read8_def load_def advance_def le64.dec_enc)
    show "moved 16 r (r\<lparr>r_sc := ?s2\<rparr>)"
      using advance_moved [of r 16] assms(1,2) by (simp add: moved_def reader_ok_def advance_def add.assoc)
  qed (use at in \<open>simp_all add: Size_def advance_def\<close>)
qed

lemma read_FVar:
  assumes "reader_ok r" "r_off r + 16 \<le> length (r_mem r)" "field_at (r_mem r) v (r_off r) (FVar bs)"
    and "v \<le> length (r_mem r)" "bs \<noteq> []"
  shows "\<exists>r' p len. ReadVariable r = Inr (Some (Some p, len, False), r') \<and> unat len = length bs \<and>
    peek (unat p) (length bs) (r_mem r') = bs \<and> moved 16 r r'"
proof -
  have at: "length bs \<le> v" "peek (length (r_mem r) - v) (length bs) (r_mem r) = bs" using assms(3) by auto
  obtain vo len s2 where h: "CanRead (GetOffset (r_sc r)) 16 r" "Read8 (r_sc r) = Inr (vo, advance 8 (r_sc r))"
    "Read8 (advance 8 (r_sc r)) = Inr (len, s2)" "unat vo = v" "unat len = length bs"
    "Size s2 = m_size (sc_chunk (r_sc r))" "sc_mem s2 = r_mem r" "moved 16 r (r\<lparr>r_sc := s2\<rparr>)"
    using read_FVar_head [OF assms(1-3)] .
  have nz: "len \<noteq> 0" "vo \<noteq> 0" "0 < length bs" using h(4,5) at(1) assms(5) by auto
  have sz: "unat (m_size (sc_chunk (r_sc r))) = length (r_mem r)" using assms(1) by (simp add: reader_ok_def)
  have off: "unat (Size s2 - vo) = length (r_mem r) - v"
    unfolding h(6) using h(4) assms(4) sz by (subst unat_sub_le_word) simp_all
  have lt: "Size s2 - vo < Size s2"
    unfolding word_less_nat_alt off unfolding h(6) sz using at(1) assms(4) nz(3) by linarith
  have "unat (Size s2 - vo + len) = length (r_mem r) - v + length bs"
    using off h(5,6) at(1) assms(4) sz by (subst unat_add_le_word [where c = "Size s2"]) simp_all
  then have "CanRead (Size s2 - vo) len (r\<lparr>r_sc := s2\<rparr>)"
    unfolding CanRead_def word_le_nat_alt using at(1) assms(4) h(6) sz by simp
  then have "ReadVariable r = Inr (Some (Some (Size s2 - vo), len, False), r\<lparr>r_sc := s2\<rparr>)"
    using h(1-3) nz lt by (simp add: ReadVariable_def PtrAt_def Let_def)
  moreover have "peek (unat (Size s2 - vo)) (length bs) (r_mem (r\<lparr>r_sc := s2\<rparr>)) = bs"
    unfolding off using at(2) h(7) by simp
  ultimately show ?thesis using h(5,8) by blast
qed

text \<open>An empty value after some that are not: its offset is not 0, and it is read as null.\<close>

lemma read_FVar_empty:
  assumes "reader_ok r" "r_off r + 16 \<le> length (r_mem r)" "field_at (r_mem r) v (r_off r) (FVar [])" "0 < v"
  shows "\<exists>r'. ReadVariable r = Inr (Some (None, 0, True), r') \<and> moved 16 r r'"
proof -
  obtain vo len s2 where h: "CanRead (GetOffset (r_sc r)) 16 r" "Read8 (r_sc r) = Inr (vo, advance 8 (r_sc r))"
    "Read8 (advance 8 (r_sc r)) = Inr (len, s2)" "unat vo = v" "unat len = length ([] :: u8 list)"
    "Size s2 = m_size (sc_chunk (r_sc r))" "sc_mem s2 = r_mem r" "moved 16 r (r\<lparr>r_sc := s2\<rparr>)"
    using read_FVar_head [OF assms(1-3)] .
  have "len = 0" "vo \<noteq> 0" using h(4,5) assms(4) by (auto simp: unat_eq_zero)
  then have "ReadVariable r = Inr (Some (None, 0, True), r\<lparr>r_sc := s2\<rparr>)"
    using h(1-3) by (simp add: ReadVariable_def Let_def)
  with h(8) show ?thesis by blast
qed

section \<open>Rows and the round trip\<close>

text \<open>
  A client reads a row with one call per column, chosen by the column's type, and takes a null
  flag as \<open>RNull\<close>. \<open>read_column\<close> is that client; the code under \<^verbatim>\<open>src\<close> has the calls only.
\<close>

datatype rvalue = RNull | RInt64 i64 | RInt32 i32 | RDouble u64 | RBytes "u8 list"

definition deliver :: "fault + (rvalue option \<times> Reader) \<Rightarrow> fault + (rvalue \<times> Reader)" where
  "deliver r = and_then r (\<lambda>(v, r'). case v of None \<Rightarrow> Inl (OutOfRange (r_error r')) | Some x \<Rightarrow> Inr (x, r'))"

definition read_column :: "Column \<Rightarrow> Reader \<Rightarrow> fault + (rvalue \<times> Reader)" where
  "read_column c r =
     (case col_type c of
        Double \<Rightarrow> deliver (and_then (ReadFloat r) (\<lambda>(o', r'). Inr (map_option (\<lambda>(v, null). if null then RNull else RDouble v) o', r')))
      | Int32 \<Rightarrow> deliver (and_then (ReadInt32 r) (\<lambda>(o', r'). Inr (map_option (\<lambda>(v, null). if null then RNull else RInt32 v) o', r')))
      | Date \<Rightarrow> deliver (and_then (ReadInt32 r) (\<lambda>(o', r'). Inr (map_option (\<lambda>(v, null). if null then RNull else RInt32 v) o', r')))
      | Fixed \<Rightarrow> deliver (and_then (ReadFixed (col_size c) r) (\<lambda>(o', r'). Inr (map_option (\<lambda>(p, null).
          case p of Some off \<Rightarrow> if null then RNull else RBytes (peek (unat off) (unat (col_size c)) (r_mem r')) | None \<Rightarrow> RNull) o', r')))
      | Variable \<Rightarrow> deliver (and_then (ReadVariable r) (\<lambda>(o', r'). Inr (map_option (\<lambda>(p, len, null).
          case p of Some off \<Rightarrow> if null then RNull else RBytes (peek (unat off) (unat len) (r_mem r')) | None \<Rightarrow> RNull) o', r')))
      | Unsupported \<Rightarrow> Inl UndefinedBehaviour
      | _ \<Rightarrow> deliver (and_then (ReadInt64 r) (\<lambda>(o', r'). Inr (map_option (\<lambda>(v, null). if null then RNull else RInt64 v) o', r'))))"

fun read_columns :: "RowSchema \<Rightarrow> Reader \<Rightarrow> fault + (rvalue list \<times> Reader)" where
  "read_columns [] r = Inr ([], r)"
| "read_columns (c # cs) r =
     and_then (read_column c r) (\<lambda>(v, r1). and_then (read_columns cs r1) (\<lambda>(vs, r2). Inr (v # vs, r2)))"

fun read_rows :: "nat \<Rightarrow> RowSchema \<Rightarrow> Reader \<Rightarrow> fault + (rvalue list list \<times> Reader)" where
  "read_rows 0 cs r = Inr ([], r)"
| "read_rows (Suc n) cs r =
     and_then (read_columns cs r) (\<lambda>(v, r1). and_then (read_rows n cs r1) (\<lambda>(vs, r2). Inr (v # vs, r2)))"

text \<open>
  The value a field stands for; the field a column of a row is stored as has this shape. The null
  of a fixed-length value is told from its bytes: all zeros or all blanks.
\<close>

fun field_value :: "Column \<Rightarrow> field \<Rightarrow> rvalue" where
  "field_value c (F8 x) =
     (if col_type c = Double then (if isnan x then RNull else RDouble x)
      else if x = int64Null then RNull else RInt64 x)"
| "field_value c (F4 x) = (if x = int32Null then RNull else RInt32 x)"
| "field_value c (FFixed bs) =
     (let n = unat (col_size c); b = take n bs in
      if n = 0 \<or> b = replicate n 0 \<or> b = replicate n 32 then RNull else RBytes b)"
| "field_value c (FVar bs) = (if bs = [] then RNull else RBytes bs)"

text \<open>The fields of the shape of the column.\<close>

fun readable :: "Column \<Rightarrow> field \<Rightarrow> bool" where
  "readable c (F8 x) \<longleftrightarrow> col_type c \<in> {Int64, Double, Time, DateTime}"
| "readable c (F4 x) \<longleftrightarrow> col_type c \<in> {Int32, Date}"
| "readable c (FFixed bs) \<longleftrightarrow>
     col_type c = Fixed \<and> unat (col_size c) < 2 ^ 31 \<and> length bs = aligned8 (unat (col_size c))"
| "readable c (FVar bs) \<longleftrightarrow> col_type c = Variable"

text \<open>
  The assertion in \<^verbatim>\<open>ReadVariable\<close> demands that no variable-length value has the offset 0. After \<open>v\<close> bytes
  of such values that is so once one of them is not empty.
\<close>

fun offset_set :: "nat \<Rightarrow> field \<Rightarrow> bool" where
  "offset_set v (FVar bs) \<longleftrightarrow> 0 < v"
| "offset_set v f \<longleftrightarrow> True"

fun offsets_set :: "nat \<Rightarrow> field list \<Rightarrow> bool" where
  "offsets_set v [] \<longleftrightarrow> True"
| "offsets_set v (f # fs) \<longleftrightarrow> offset_set (v + field_tail f) f \<and> offsets_set (v + field_tail f) fs"

lemma offsets_set_append: "offsets_set v (fs @ gs) \<longleftrightarrow> offsets_set v fs \<and> offsets_set (v + fields_tail fs) gs"
  by (induction fs arbitrary: v) (auto simp: fields_tail_def add.assoc)

lemma offsets_set_pos: "0 < v \<Longrightarrow> offsets_set v fs"
proof (induction fs arbitrary: v)
  case (Cons f fs)
  then show ?case by (cases f) auto
qed simp

lemma read_column_field:
  assumes "reader_ok r" "field_at (r_mem r) v (r_off r) f" "readable c f"
    and "r_off r + field_width f + v \<le> length (r_mem r)" "offset_set v f"
  shows "\<exists>r'. read_column c r = Inr (field_value c f, r') \<and> moved (field_width f) r r'"
proof (cases f)
  case (F8 x)
  note rd = read_F8 [OF assms(1) _ assms(2) [unfolded F8]]
  from assms(3,4) F8 rd show ?thesis
    by (auto simp: read_column_def deliver_def)
next
  case (F4 x)
  then obtain r' where "ReadInt32 r = Inr (Some (x, x = int32Null), r')" "moved 8 r r'"
    using read_F4 [OF assms(1) _ assms(2) [unfolded F4]] assms(4) by auto
  with assms(3) F4 show ?thesis by (auto simp: read_column_def deliver_def)
next
  case (FFixed bs)
  show ?thesis
  proof (cases "unat (col_size c) = 0")
    case True
    then have "col_size c = 0" "bs = []"
      using assms(3) FFixed by (simp_all add: aligned8_def unat_eq_zero)
    then show ?thesis
      using assms(1,3) FFixed by (simp add: read_column_def deliver_def ReadFixed_def moved_def)
  next
    case False
    obtain r' where r': "ReadFixed (col_size c) r =
      Inr (Some (Some (sc_offset (r_sc r)),
        take (unat (col_size c)) bs = replicate (unat (col_size c)) 0 \<or>
        take (unat (col_size c)) bs = replicate (unat (col_size c)) 32), r')" "moved (length bs) r r'"
      using read_FFixed [OF assms(1) _ assms(2) [unfolded FFixed]] assms(3,4) FFixed False by auto
    have le: "unat (col_size c) \<le> length bs" using assms(3) FFixed aligned8_ge by simp
    have "peek (r_off r) (length bs) (r_mem r) = bs" using assms(2) FFixed by simp
    then have "peek (r_off r) (unat (col_size c)) (r_mem r') = take (unat (col_size c)) bs"
      using r'(2) le unfolding moved_def peek_def by (metis min.absorb1 take_take)
    with r' False assms(3) FFixed show ?thesis
      by (simp add: read_column_def deliver_def Let_def)
  qed
next
  case (FVar bs)
  show ?thesis
  proof (cases "bs = []")
    case True
    then obtain r' where "ReadVariable r = Inr (Some (None, 0, True), r')" "moved 16 r r'"
      using read_FVar_empty [OF assms(1) _ assms(2) [unfolded FVar True]] assms(4,5) FVar by auto
    with assms(3) FVar True show ?thesis by (simp add: read_column_def deliver_def)
  next
    case False
    then obtain r' p len where "ReadVariable r = Inr (Some (Some p, len, False), r')" "unat len = length bs"
      "peek (unat p) (length bs) (r_mem r') = bs" "moved 16 r r'"
      using read_FVar [OF assms(1) _ assms(2) [unfolded FVar]] assms(4) FVar by auto
    with assms(3) FVar False show ?thesis by (simp add: read_column_def deliver_def)
  qed
qed

lemma moved_field:
  assumes "moved n r r'" "reader_ok r" "r_off r + n + v \<le> length (r_mem r)"
  shows "reader_ok r'" "r_mem r' = r_mem r" "r_off r' = r_off r + n"
  using assms by (simp_all add: moved_def)

lemma fields_width_Cons [simp]: "fields_width (f # fs) = field_width f + fields_width fs"
  by (simp add: fields_width_def)

lemma fields_tail_Cons [simp]: "fields_tail (f # fs) = field_tail f + fields_tail fs"
  by (simp add: fields_tail_def)

lemma read_columns_fields:
  assumes "list_all2 readable cs fs" "reader_ok r" "fields_at (r_mem r) v (r_off r) fs" "offsets_set v fs"
    and "r_off r + fields_width fs + v + fields_tail fs \<le> length (r_mem r)"
  shows "\<exists>r'. read_columns cs r = Inr (map2 field_value cs fs, r') \<and> moved (fields_width fs) r r'"
  using assms
proof (induction cs fs arbitrary: r v rule: list_all2_induct)
  case Nil
  then show ?case by (simp add: moved_def fields_width_def)
next
  case (Cons c cs f fs)
  obtain r1 where r1: "read_column c r = Inr (field_value c f, r1)" "moved (field_width f) r r1"
    using read_column_field [of r "v + field_tail f" f c] Cons by auto
  note m = r1(2) [unfolded moved_def]
  obtain r2 where "read_columns cs r1 = Inr (map2 field_value cs fs, r2)" "moved (fields_width fs) r1 r2"
    using Cons.IH [of r1 "v + field_tail f"] Cons.prems m by (auto simp: add.assoc)
  with r1 m show ?case
    by (auto simp: moved_def add.assoc)
qed

text \<open>What is known of a reader at the rows it has still to read.\<close>

definition at_rows :: "Reader \<Rightarrow> nat \<Rightarrow> field list list \<Rightarrow> bool" where
  "at_rows r v rows \<longleftrightarrow> reader_ok r \<and> fields_at (r_mem r) v (r_off r) (concat rows) \<and> offsets_set v (concat rows) \<and>
     r_off r + fields_width (concat rows) + v + fields_tail (concat rows) \<le> length (r_mem r)"

lemma fields_append [simp]:
  "fields_width (fs @ gs) = fields_width fs + fields_width gs" "fields_tail (fs @ gs) = fields_tail fs + fields_tail gs"
  by (simp_all add: fields_width_def fields_tail_def)

lemma at_rows_Cons:
  assumes "at_rows r v (fs # rows)"
  shows "reader_ok r" "fields_at (r_mem r) v (r_off r) fs" "offsets_set v fs"
    "r_off r + fields_width fs + v + fields_tail fs \<le> length (r_mem r)"
    "moved (fields_width fs) r r' \<Longrightarrow> at_rows r' (v + fields_tail fs) rows"
  using assms by (simp_all add: at_rows_def fields_at_append offsets_set_append moved_def algebra_simps)

lemma read_rows_fields:
  assumes "\<forall>fs \<in> set rows. list_all2 readable cs fs" "at_rows r v rows"
  shows "\<exists>r'. read_rows (length rows) cs r = Inr (map (map2 field_value cs) rows, r')"
  using assms
proof (induction rows arbitrary: r v)
  case (Cons fs rows)
  note at = at_rows_Cons [OF Cons.prems(2)]
  obtain r1 where r1: "read_columns cs r = Inr (map2 field_value cs fs, r1)" "moved (fields_width fs) r r1"
    using read_columns_fields [OF _ at(1-4)] Cons.prems(1) by auto
  with Cons.IH [OF _ at(5) [OF r1(2)]] Cons.prems(1) show ?case by auto
qed simp

text \<open>A reader on the chunk of a writer that holds \<open>rows\<close> reads them back.\<close>

lemma holds_at_rows:
  assumes "holds rows w" "offsets_set 0 (concat rows)"
  shows "at_rows (SuperChunkReader (sc_chunk (w_sc w)) cs) 0 rows"
proof -
  let ?r = "SuperChunkReader (sc_chunk (w_sc w)) cs"
  have m: "r_mem ?r = mem_of w" "r_off ?r = 0"
    by (simp_all add: SuperChunkReader_def SuperChunk_def mem_of_def)
  have h: "writer_ok w" "off_of w = fields_width (concat rows)" "var_of w = fields_tail (concat rows)"
    "fields_at (mem_of w) 0 0 (concat rows)"
    using assms(1) unfolding holds_def by blast+
  have "reader_ok ?r"
    using h(1) by (simp add: reader_ok_def m mem_of_def writer_ok_def sc_ok_def) (simp add: SuperChunkReader_def SuperChunk_def)
  then show ?thesis
    using assms(2) h writer_ok_bounds(1) [OF h(1)] m by (simp add: at_rows_def)
qed

lemma read_written_rows:
  assumes "holds rows w" "\<forall>fs \<in> set rows. list_all2 readable cs fs" "offsets_set 0 (concat rows)"
  shows "\<exists>r'. read_rows (length rows) cs (SuperChunkReader (sc_chunk (w_sc w)) cs) =
    Inr (map (map2 field_value cs) rows, r')"
  by (rule read_rows_fields [OF assms(2) holds_at_rows [OF assms(1,3)]])

end
