(* ===== verification/Hdat_Roundtrip.thy ===== *)
theory Hdat_Roundtrip
  imports Hdat_Reader
begin

text \<open>
  The contract of the \<^verbatim>\<open>hdat\<close> library as its clients see it: what \<open>WriteRow\<close> leaves in a chunk however
  it ends, and that reading the chunk column by column gives back what was written.
\<close>

section \<open>Cells and the values read for them\<close>

text \<open>The value a reader returns for a cell, without reference to the buffer.\<close>

definition int64_value :: "u64 \<Rightarrow> rvalue" where
  "int64_value x = (if x = int64Null then RNull else RInt64 x)"

definition int32_value :: "u32 \<Rightarrow> rvalue" where
  "int32_value x = (if x = int32Null then RNull else RInt32 x)"

fun cell_value :: "Column \<Rightarrow> cell option \<Rightarrow> u64 \<Rightarrow> rvalue" where
  "cell_value c None l = RNull"
| "cell_value c (Some (CellBytes bs)) l =
     (case col_type c of
        Int32 \<Rightarrow> int32_value (of_le (take 4 bs))
      | Double \<Rightarrow> (let x = of_le (take 8 bs) in if isnan x then RNull else RDouble x)
      | Fixed \<Rightarrow>
          (let n = unat (col_size c); b = take (unat l) bs @ replicate (n - unat l) 32 in
           if n = 0 \<or> b = replicate n 0 \<or> b = replicate n 32 then RNull else RBytes b)
      | Variable \<Rightarrow> (let b = take (unat l) bs in if b = [] then RNull else RBytes b)
      | _ \<Rightarrow> int64_value (of_le (take 8 bs)))"
| "cell_value c (Some (CellTime t)) l =
     (case col_type c of
        Date \<Rightarrow> (case toDateCAS t of Inr n \<Rightarrow> int32_value n | Inl e \<Rightarrow> RNull)
      | Time \<Rightarrow> int64_value (toTimeCAS t)
      | _ \<Rightarrow> (case toDateTimeCAS t of Inr n \<Rightarrow> int64_value n | Inl e \<Rightarrow> RNull))"

lemma readable_field_of:
  assumes "cell_ok c v l"
  shows "readable c (field_of c v l)"
proof (cases "(c, v, l)" rule: cell_ok.cases)
  case (1 c l)
  with assms show ?thesis by (cases "col_type c") simp_all
next
  case (2 c bs l)
  have "k + (aligned8 n - k) = aligned8 n" if "k \<le> n" for n k
    using that aligned8_ge [of n] by simp
  with 2 assms show ?thesis
    by (cases "col_type c") simp_all
next
  case (3 c t l)
  with assms show ?thesis by (cases "col_type c") (simp_all split: sum.splits)
qed

lemma take_fixed:
  assumes "k \<le> n" "k \<le> length bs"
  shows "take n (take k bs @ replicate (aligned8 n - k) x) = take k bs @ replicate (n - k) x"
  using assms aligned8_ge [of n] by (simp add: min_def)

lemma field_value_field_of:
  assumes "cell_ok c v l"
  shows "field_value c (field_of c v l) = cell_value c v l"
proof (cases "(c, v, l)" rule: cell_ok.cases)
  case (1 c l)
  with assms aligned8_ge [of "unat (col_size c)"] show ?thesis
    by (cases "col_type c") (simp_all add: isnan_doubleNull Let_def min_def)
next
  case (2 c bs l)
  show ?thesis
  proof (cases "col_type c")
    case Fixed
    have "min (n - k) (aligned8 n - k) = n - k" for n k
      using aligned8_ge [of n] by simp
    with 2 Fixed assms show ?thesis by (simp add: take_fixed Let_def)
  qed (use 2 assms in \<open>simp_all add: int64_value_def int32_value_def Let_def\<close>)
next
  case (3 c t l)
  with assms show ?thesis
    by (cases "col_type c") (simp_all add: int64_value_def int32_value_def split: sum.splits)
qed

text \<open>The variable-length values of a field, a row, a chunk, by their lengths; a null has length 0.\<close>

fun var_lengths :: "RowSchema \<Rightarrow> cell option list \<Rightarrow> u64 list \<Rightarrow> nat list" where
  "var_lengths (c # cs) (v # vs) (l # ls) =
     (if col_type c = Variable then [if v = None then 0 else unat l] else []) @ var_lengths cs vs ls"
| "var_lengths _ _ _ = []"

definition tails :: "field list \<Rightarrow> nat list" where
  "tails fs = concat (map (\<lambda>f. case f of FVar bs \<Rightarrow> [length bs] | _ \<Rightarrow> []) fs)"

lemma tails_simps [simp]:
  "tails [] = []" "tails (f # fs) = (case f of FVar bs \<Rightarrow> [length bs] | _ \<Rightarrow> []) @ tails fs"
  by (simp_all add: tails_def)

lemma tails_concat: "tails (concat rows) = concat (map tails rows)"
  by (induction rows) (simp_all add: tails_def)

lemma tails_field_of:
  assumes "cell_ok c v l"
  shows "tails [field_of c v l] = (if col_type c = Variable then [if v = None then 0 else unat l] else [])"
  using assms by (cases "(c, v, l)" rule: cell_ok.cases; cases "col_type c") (auto split: sum.splits)

lemma tails_row_fields: "row_ok cs vs ls \<Longrightarrow> tails (row_fields cs vs ls) = var_lengths cs vs ls"
proof (induction cs vs ls rule: row_ok.induct)
  case (2 c cs v vs l ls)
  with tails_field_of [of c v l] show ?case by simp
qed simp_all

lemma offsets_set_tails: "offsets_set 0 fs \<longleftrightarrow> (case tails fs of [] \<Rightarrow> True | l # _ \<Rightarrow> l \<noteq> 0)"
proof (induction fs)
  case (Cons f fs)
  then show ?case by (cases f) (auto intro: offsets_set_pos)
qed simp

section \<open>Chunks of rows\<close>

text \<open>A whole chunk: rows with their lengths, written one after another until one does not fit.\<close>

type_synonym row = "cell option list \<times> u64 list"

fun write_rows :: "row list \<Rightarrow> Writer \<Rightarrow> fault + (nat \<times> Writer)" where
  "write_rows [] w = Inr (0, w)"
| "write_rows ((vs, ls) # rs) w =
     (case WriteRow vs ls w of
        (Inl e, w1) \<Rightarrow> Inl e
      | (Inr ok, w1) \<Rightarrow>
          if ok then and_then (write_rows rs w1) (\<lambda>(n, w2). Inr (Suc n, w2)) else Inr (0, w1))"

fun row_values :: "RowSchema \<Rightarrow> cell option list \<Rightarrow> u64 list \<Rightarrow> rvalue list" where
  "row_values (c # cs) (v # vs) (l # ls) = cell_value c v l # row_values cs vs ls"
| "row_values _ _ _ = []"

lemma row_fields_readable:
  "row_ok cs vs ls \<Longrightarrow>
   list_all2 readable cs (row_fields cs vs ls) \<and>
   map2 field_value cs (row_fields cs vs ls) = row_values cs vs ls"
  by (induction cs vs ls rule: row_ok.induct)
     (simp_all add: readable_field_of field_value_field_of)

text \<open>The client's obligations, and what a chunk of \<open>n\<close> rows holds then.\<close>

definition rows_ok :: "RowSchema \<Rightarrow> row list \<Rightarrow> bool" where
  "rows_ok cs rs \<longleftrightarrow> (\<forall>(vs, ls) \<in> set rs. row_ok cs vs ls \<and> row_reserve cs ls < 2 ^ 64)"

definition fields_of_rows :: "RowSchema \<Rightarrow> row list \<Rightarrow> field list list" where
  "fields_of_rows cs rs = map (\<lambda>(vs, ls). row_fields cs vs ls) rs"

lemma rows_ok_sub: "rows_ok cs rs \<Longrightarrow> set rs' \<subseteq> set rs \<Longrightarrow> rows_ok cs rs'"
  by (auto simp: rows_ok_def)

lemmas rows_ok_take = rows_ok_sub [OF _ set_take_subset]
  and rows_ok_drop = rows_ok_sub [OF _ set_drop_subset]

text \<open>
  \<open>first_text\<close>: the first variable-length value of the chunk, if there is one, is not empty (nor null).
  That is what the reader's \<open>assert(offset)\<close> demands: behind a non-empty value, null and empty ones have
  an offset that is not 0, and are read as nulls.
\<close>

definition first_text :: "RowSchema \<Rightarrow> row list \<Rightarrow> bool" where
  "first_text cs rs \<longleftrightarrow>
     (case concat (map (\<lambda>(vs, ls). var_lengths cs vs ls) rs) of [] \<Rightarrow> True | l # _ \<Rightarrow> l \<noteq> 0)"

lemma first_text_prefix: "first_text cs (rs @ rs') \<Longrightarrow> first_text cs rs"
  by (cases "concat (map (\<lambda>(vs, ls). var_lengths cs vs ls) rs)")
     (simp_all only: first_text_def map_append concat_append append_Nil append_Cons list.case simp_thms)

lemma first_text_take: "first_text cs rs \<Longrightarrow> first_text cs (take n rs)"
  by (rule first_text_prefix [of cs _ "drop n rs"]) simp

lemma first_text_iff:
  assumes "rows_ok cs rs"
  shows "offsets_set 0 (concat (fields_of_rows cs rs)) \<longleftrightarrow> first_text cs rs"
proof -
  have "map tails (fields_of_rows cs rs) = map (\<lambda>(vs, ls). var_lengths cs vs ls) rs"
    using assms by (auto simp: fields_of_rows_def rows_ok_def tails_row_fields)
  then show ?thesis by (simp add: offsets_set_tails tails_concat first_text_def)
qed

lemma WriteRow_cases:
  assumes "holds rows w" "row_ok (w_schema w) vs ls" "row_reserve (w_schema w) ls < 2 ^ 64"
    and "WriteRow vs ls w = (Inr ok, w')"
  shows "if ok then holds (rows @ [row_fields (w_schema w) vs ls]) w' \<and> w_schema w' = w_schema w \<and>
      chunk_key w' = chunk_key w
    else w' = w"
proof (cases "row_reserve (w_schema w) ls \<le> free_of w")
  case True
  with WriteRow_written [OF assms(1,2)] assms(4) show ?thesis by auto
next
  case False
  have "writer_ok w" using assms(1) unfolding holds_def by blast
  from WriteRow_full [OF this row_ok_sizes [OF assms(2)] assms(3) False] assms(4)
  show ?thesis by (auto split: if_splits)
qed

lemma write_rows_holds:
  assumes "holds rows w" "rows_ok (w_schema w) rs" "write_rows rs w = Inr (n, w')"
  shows "n \<le> length rs \<and> holds (rows @ fields_of_rows (w_schema w) (take n rs)) w' \<and>
    w_schema w' = w_schema w \<and> chunk_key w' = chunk_key w"
  using assms
proof (induction rs arbitrary: rows w n)
  case Nil
  then show ?case by (simp add: fields_of_rows_def)
next
  case (Cons r rs)
  obtain vs ls where r: "r = (vs, ls)" by (cases r)
  obtain ok w1 where w1: "WriteRow vs ls w = (Inr ok, w1)"
    using Cons.prems(3) r by (auto split: prod.splits sum.splits)
  have rok: "row_ok (w_schema w) vs ls" "row_reserve (w_schema w) ls < 2 ^ 64" "rows_ok (w_schema w) rs"
    using Cons.prems(2) r by (simp_all add: rows_ok_def)
  note c = WriteRow_cases [OF Cons.prems(1) rok(1,2) w1]
  show ?case
  proof (cases ok)
    case True
    then obtain m where m: "write_rows rs w1 = Inr (m, w')" "n = Suc m"
      using Cons.prems(3) r w1 by (auto simp: and_then_Inr_iff)
    have "holds (rows @ [row_fields (w_schema w) vs ls]) w1" "w_schema w1 = w_schema w"
      "chunk_key w1 = chunk_key w"
      using c True by simp_all
    from Cons.IH [OF this(1) _ m(1)] this(2,3) rok(3) m(2) r show ?thesis
      by (simp add: fields_of_rows_def)
  next
    case False
    with Cons.prems r w1 c show ?thesis by (simp add: fields_of_rows_def)
  qed
qed

text \<open>A row that was not written found too little room.\<close>

lemma write_rows_stops:
  assumes "holds rows w" "rows_ok (w_schema w) rs" "write_rows rs w = Inr (n, w')" "n < length rs"
  shows "free_of w' < row_reserve (w_schema w) (snd (rs ! n))"
  using assms
proof (induction rs arbitrary: rows w n)
  case (Cons r rs)
  obtain vs ls where r: "r = (vs, ls)" by (cases r)
  obtain ok w1 where w1: "WriteRow vs ls w = (Inr ok, w1)"
    using Cons.prems(3) r by (auto split: prod.splits sum.splits)
  have rok: "row_ok (w_schema w) vs ls" "row_reserve (w_schema w) ls < 2 ^ 64" "rows_ok (w_schema w) rs"
    using Cons.prems(2) r by (simp_all add: rows_ok_def)
  note c = WriteRow_cases [OF Cons.prems(1) rok(1,2) w1]
  show ?case
  proof (cases ok)
    case True
    then obtain m where m: "write_rows rs w1 = Inr (m, w')" "n = Suc m"
      using Cons.prems(3) r w1 by (auto simp: and_then_Inr_iff)
    have "holds (rows @ [row_fields (w_schema w) vs ls]) w1" "w_schema w1 = w_schema w"
      using c True by simp_all
    from Cons.IH [OF this(1) _ m(1)] this(2) rok(3) m(2) Cons.prems(4) show ?thesis by simp
  next
    case False
    have "\<not> row_reserve (w_schema w) ls \<le> free_of w"
      using WriteRow_written [OF Cons.prems(1) rok(1)] w1 False by auto
    with Cons.prems(3) r w1 c False show ?thesis by simp
  qed
qed simp

section \<open>The contract\<close>

definition fresh :: "Chunk \<Rightarrow> bool" where
  "fresh c \<longleftrightarrow> length (m_ptr c) = unat (m_size c) \<and> row_count c = 0 \<and> consumed_size c = 0 \<and>
     variable_offset c = 0"

lemma NewChunk_fresh: "fresh (NewChunk ptr (of_nat (length ptr)) cid part) \<longleftrightarrow> length ptr < 2 ^ 64"
  using unsigned_less [of "of_nat (length ptr) :: u64", where ?'a = nat]
  by (auto simp: fresh_def NewChunk_def unat_of_nat64)

text \<open>What a column that throws leaves behind: its row's first fields, behind the rows and not counted.\<close>

definition holds_partly :: "field list list \<Rightarrow> field list \<Rightarrow> Writer \<Rightarrow> bool" where
  "holds_partly rows fs w \<longleftrightarrow> off_of w = fields_width (concat rows @ fs) \<and> var_of w = fields_tail (concat rows @ fs) \<and>
     fields_at (mem_of w) 0 0 (concat rows @ fs) \<and> row_count (sc_chunk (w_sc w)) = of_nat (length rows)"

lemma puts_partly:
  assumes "holds rows w" "puts fs w w'"
  shows "holds_partly rows fs w'"
proof -
  note p = putsD [OF assms(2)]
  have h: "off_of w = fields_width (concat rows)" "var_of w = fields_tail (concat rows)"
    "fields_at (mem_of w) 0 0 (concat rows)" "row_count (sc_chunk (w_sc w)) = of_nat (length rows)"
    using assms(1) unfolding holds_def by blast+
  have "fields_at (mem_of w') 0 0 (concat rows)"
    by (rule fields_at_agree [OF h(3) p(4)]) (simp_all add: h(1,2))
  with h p show ?thesis by (simp add: holds_partly_def fields_at_append frame_of_def)
qed

text \<open>C10. How \<open>WriteRow\<close> ends, for a row that has a value and a length for every column, where each value
  up to the first column that throws is a buffer or a date of the column's type (what the code casts the
  pointers to). A row that does not fit (by the size \<open>rowSize\<close> computes, below \<open>2 ^ 64\<close>) is refused and the
  writer left as it was: with an \<open>InvalidArgument\<close> error naming the sizes when the chunk is still empty and by
  \<open>false\<close> otherwise. A row that fits is appended to the rows the chunk holds, with everything before it
  intact, if no column throws. If one does (its type is not supported, or its date cannot be converted),
  that error is thrown, and the fields before it stay in the chunk, behind the intact earlier rows and not
  counted as a row.\<close>

theorem write_row_outcomes:
  assumes "holds rows w" "row_result (w_schema w) row lengths = Some (fs, err)"
    and "sizes_ok (w_schema w) lengths" "row_reserve (w_schema w) lengths < 2 ^ 64"
  shows "if row_reserve (w_schema w) lengths \<le> free_of w
    then (case err of
        None \<Rightarrow> (\<exists>w'. WriteRow row lengths w = (Inr True, w') \<and> holds (rows @ [fs]) w')
      | Some e \<Rightarrow> (\<exists>w'. WriteRow row lengths w = (Inl e, w') \<and> holds_partly rows fs w'))
    else WriteRow row lengths w =
      (if row_count (sc_chunk (w_sc w)) = 0
       then Inl (InvalidArgument (too_small_message (w_chunk_size w) (of_nat (row_reserve (w_schema w) lengths))))
       else Inr False, w)"
proof (cases "row_reserve (w_schema w) lengths \<le> free_of w")
  case fits: True
  show ?thesis
  proof (cases err)
    case None
    then have "row_ok (w_schema w) row lengths" "fs = row_fields (w_schema w) row lengths"
      using row_result_ok assms(2) by blast+
    with WriteRow_written [OF assms(1) _ fits] fits None show ?thesis by auto
  next
    case (Some e)
    with WriteRow_throws [OF assms(1) _ assms(3) fits] assms(2) puts_partly [OF assms(1)] fits
    show ?thesis by fastforce
  qed
next
  case False
  have "writer_ok w" using assms(1) unfolding holds_def by blast
  from WriteRow_full [OF this assms(3,4) False] False show ?thesis by simp
qed

definition example_schema :: RowSchema where
  "example_schema = [\<lparr>col_type = Int64, col_size = 8, col_name = ''id''\<rparr>,
     \<lparr>col_type = Variable, col_size = 20, col_name = ''name''\<rparr>,
     \<lparr>col_type = Fixed, col_size = 3, col_name = ''code''\<rparr>]"

definition example_row :: row where
  "example_row = ([Some (CellBytes [1, 2, 3, 4, 5, 6, 7, 8]), Some (CellBytes [65, 66, 67]),
     Some (CellBytes [88])], [8, 3, 1])"

definition example_chunk :: Chunk where
  "example_chunk = NewChunk (replicate 64 0) 64 0 0"

lemma example_facts:
  "fresh example_chunk" "holds [] (Reset example_chunk example_schema)"
  "rows_ok example_schema [example_row, example_row]"
  "w_schema (Reset example_chunk example_schema) = example_schema"
proof -
  show f: "fresh example_chunk" by (simp add: fresh_def example_chunk_def NewChunk_def)
  then show "holds [] (Reset example_chunk example_schema)"
    by (intro Reset_holds) (simp_all add: fresh_def)
  show "rows_ok example_schema [example_row, example_row]"
    by (simp add: rows_ok_def example_schema_def example_row_def reserve_def aligned8_def)
  show "w_schema (Reset example_chunk example_schema) = example_schema"
    by (simp add: Reset_def)
qed

lemma example_size:
  "row_reserve example_schema (snd example_row) = 35"
  "free_of (Reset example_chunk example_schema) = 64"
  by (simp_all add: example_schema_def example_row_def reserve_def aligned8_def free_of_def Reset_def
      SuperChunk_def example_chunk_def NewChunk_def mem_of_def off_of_def var_of_def)

text \<open>A row that is written, and one whose second column is of a type that is not supported.\<close>

theorem write_row_outcomes_witness:
  "(\<exists>w'. WriteRow (fst example_row) (snd example_row) (Reset example_chunk example_schema) = (Inr True, w') \<and>
      holds [row_fields example_schema (fst example_row) (snd example_row)] w') \<and>
   (\<exists>w' e. WriteRow [Some (CellBytes [1, 2, 3, 4, 5, 6, 7, 8]), None] [8, 0]
        (Reset example_chunk [\<lparr>col_type = Int64, col_size = 8, col_name = ''id''\<rparr>,
          \<lparr>col_type = Unsupported, col_size = 8, col_name = ''shape''\<rparr>]) = (Inl (S2ClientError S2C_ERROR_UNS_DATA_TYPE e), w') \<and>
      holds_partly [] [F8 0x0807060504030201] w')"
proof (rule conjI)
  have ok: "row_ok example_schema (fst example_row) (snd example_row)"
    using example_facts(3) by (simp add: rows_ok_def split_beta)
  from write_row_outcomes [OF example_facts(2), of "fst example_row" "snd example_row",
      unfolded example_facts(4), OF row_ok_result [OF ok] row_ok_sizes [OF ok]]
  show "\<exists>w'. WriteRow (fst example_row) (snd example_row) (Reset example_chunk example_schema) = (Inr True, w') \<and>
      holds [row_fields example_schema (fst example_row) (snd example_row)] w'"
    by (simp add: example_size)
next
  let ?cs = "[\<lparr>col_type = Int64, col_size = 8, col_name = ''id''\<rparr>,
    \<lparr>col_type = Unsupported, col_size = 8, col_name = ''shape''\<rparr>]"
  let ?w = "Reset example_chunk ?cs"
  have w: "w_schema ?w = ?cs" "free_of ?w = 64"
    by (simp_all add: Reset_def free_of_def SuperChunk_def example_chunk_def NewChunk_def mem_of_def off_of_def var_of_def)
  have h: "holds [] ?w" using example_facts(1) by (intro Reset_holds) (simp_all add: fresh_def)
  have r: "row_result (w_schema ?w) [Some (CellBytes [1, 2, 3, 4, 5, 6, 7, 8]), None] [8, 0] =
      Some ([F8 0x0807060504030201], Some (S2ClientError S2C_ERROR_UNS_DATA_TYPE
        ''Trying to write unsupported data type to the chunk. Aborted.''))"
    by (simp add: w(1) column_error_def push_bit_eq_mult)
  have s: "sizes_ok (w_schema ?w) [8, 0]" "row_reserve (w_schema ?w) [8, 0] = 16"
    by (simp_all add: w(1) sizes_ok_def reserve_def)
  from write_row_outcomes [OF h r s(1)] show "\<exists>w' e. WriteRow [Some (CellBytes [1, 2, 3, 4, 5, 6, 7, 8]), None] [8, 0] ?w =
      (Inl (S2ClientError S2C_ERROR_UNS_DATA_TYPE e), w') \<and> holds_partly [] [F8 0x0807060504030201] w'"
    unfolding s(2) w(2) by auto
qed

text \<open>Reading back what was written, for the property below and for the chunks of a connection.\<close>

lemma holding_read_back:
  assumes "holds (fields_of_rows cs rs) w" "rows_ok cs rs" "first_text cs rs"
  shows "\<exists>r'. read_rows (length rs) cs (SuperChunkReader (sc_chunk (w_sc w)) cs) =
    Inr (map (\<lambda>(vs, ls). row_values cs vs ls) rs, r')"
proof -
  have each: "list_all2 readable cs (row_fields cs vs ls) \<and>
      map2 field_value cs (row_fields cs vs ls) = row_values cs vs ls"
    if "(vs, ls) \<in> set rs" for vs ls
    using that assms(2) by (intro row_fields_readable) (auto simp: rows_ok_def)
  then have "\<forall>fs \<in> set (fields_of_rows cs rs). list_all2 readable cs fs" by (auto simp: fields_of_rows_def)
  moreover have "map (map2 field_value cs) (fields_of_rows cs rs) = map (\<lambda>(vs, ls). row_values cs vs ls) rs"
    using each by (auto simp: fields_of_rows_def)
  moreover have "length (fields_of_rows cs rs) = length rs" by (simp add: fields_of_rows_def)
  moreover have "offsets_set 0 (concat (fields_of_rows cs rs))" using assms(2,3) by (simp add: first_text_iff)
  ultimately show ?thesis using read_written_rows [OF assms(1)] by metis
qed

lemma written_rows_read_back:
  assumes "fresh c" "rows_ok cs rs" "first_text cs rs"
    and "write_rows rs (Reset c cs) = Inr (n, w)"
  shows "row_count (sc_chunk (w_sc w)) = of_nat n \<and>
    (\<exists>r'. read_rows n cs (SuperChunkReader (sc_chunk (w_sc w)) cs) =
       Inr (map (\<lambda>(vs, ls). row_values cs vs ls) (take n rs), r'))"
proof -
  have "holds [] (Reset c cs)" "w_schema (Reset c cs) = cs"
    using assms(1) by (simp_all add: Reset_holds fresh_def) (simp add: Reset_def)
  with write_rows_holds [of "[]" "Reset c cs" rs n w] assms(2,4)
  have "n \<le> length rs" "holds (fields_of_rows cs (take n rs)) w" by simp_all
  with holding_read_back [OF this(2) rows_ok_take [OF assms(2)] first_text_take [OF assms(3)]]
  show ?thesis by (simp add: holds_def fields_of_rows_def)
qed

text \<open>C1. Reading back a chunk: of the rows a client writes to a fresh chunk until one does not fit,
  the chunk counts those written, and a reader returns exactly their values, in order, nulls as
  nulls, provided the first variable-length value written, if there is one, is not empty or null (then the
  reader's assertion fails, as shown below). An empty variable-length value is read as a null.\<close>

theorem chunk_round_trip:
  assumes "fresh c" "rows_ok cs rs" "first_text cs rs"
    and "write_rows rs (Reset c cs) = Inr (n, w)"
  shows "row_count (sc_chunk (w_sc w)) = of_nat n \<and>
    (\<exists>r'. read_rows n cs (SuperChunkReader (sc_chunk (w_sc w)) cs) =
       Inr (map (\<lambda>(vs, ls). row_values cs vs ls) (take n rs), r'))"
  by (rule written_rows_read_back [OF assms])

lemma example_computed:
  "(case write_rows [example_row, example_row] (Reset example_chunk example_schema) of
      Inr (n, w) \<Rightarrow> n = 1 | Inl _ \<Rightarrow> False)"
  by code_simp

lemma example_written: "\<exists>w. write_rows [example_row, example_row] (Reset example_chunk example_schema) = Inr (1, w)"
  using example_computed by (auto split: sum.splits)

theorem chunk_round_trip_witness:
  "\<exists>w r'. write_rows [example_row, example_row] (Reset example_chunk example_schema) = Inr (1, w) \<and>
    read_rows 1 example_schema (SuperChunkReader (sc_chunk (w_sc w)) example_schema) =
      Inr ([[RInt64 0x0807060504030201, RBytes [65, 66, 67], RBytes [88, 32, 32]]], r')"
proof -
  obtain w where w: "write_rows [example_row, example_row] (Reset example_chunk example_schema) = Inr (1, w)"
    using example_written by blast
  have "first_text example_schema [example_row, example_row]"
    by (simp add: first_text_def example_row_def example_schema_def)
  moreover have "(\<lambda>(vs, ls). row_values example_schema vs ls) example_row =
      [RInt64 0x0807060504030201, RBytes [65, 66, 67], RBytes [88, 32, 32]]"
    by (simp add: example_row_def example_schema_def int64_value_def int64Null_def Let_def replicate_few
        push_bit_eq_mult)
  ultimately show ?thesis
    using chunk_round_trip [OF example_facts(1,3) _ w] w by auto
qed

text \<open>C34. An empty or null variable-length value that comes first in a chunk cannot be read back in a build
  with assertions: the writer stores offset 0 for it, and the reader's \<open>assert(offset)\<close> fails. (A build that
  defines \<open>NDEBUG\<close> goes on to find the length 0 and returns a null.)\<close>

theorem null_variable_first_asserts:
  assumes "fresh c" "16 \<le> unat (m_size c)" "WriteVariableNull (Reset c cs) = Inr w"
  shows "ReadVariable (SuperChunkReader (sc_chunk (w_sc w)) cs) = Inl AssertionFailed"
proof -
  have m: "length (m_ptr c) = unat (m_size c)" "variable_offset c = 0" using assms(1) by (simp_all add: fresh_def)
  let ?m1 = "poke 0 (to_le 8 (0 :: u64)) (m_ptr c)"
  have w: "m_ptr (sc_chunk (w_sc w)) = poke 8 (to_le 8 (0 :: u64)) ?m1" "m_size (sc_chunk (w_sc w)) = m_size c"
    using assms(2,3) m
    by (auto simp: WriteVariableNull_def WriteVariable_def on_chunk_def Reset_def SuperChunk_def Let_def
        RecordColumn_def IncrVariableOffset_def GetVariableOffset_def Write8Typed_def store_def
        consume_def advance_def WriteAt_def)
  have "peek 0 8 (poke 8 (to_le 8 (0 :: u64)) ?m1) = peek 0 8 ?m1"
    using assms(2) m by (intro peek_poke_before) simp_all
  also have "\<dots> = to_le 8 (0 :: u64)"
    using peek_poke_same [of 0 "to_le 8 (0 :: u64)" "m_ptr c"] assms(2) m by simp
  finally have "Read8 (SuperChunk (sc_chunk (w_sc w))) = Inr (0, advance 8 (SuperChunk (sc_chunk (w_sc w))))"
    using assms(2) m w by (simp add: Read8_def load_def SuperChunk_def le64.dec_enc)
  moreover have "CanRead 0 16 (SuperChunkReader (sc_chunk (w_sc w)) cs)"
    using assms(2) w(2) by (simp add: CanRead_def Size_def SuperChunkReader_def SuperChunk_def word_le_nat_alt)
  ultimately show ?thesis
    by (simp add: ReadVariable_def SuperChunkReader_def GetOffset_def) (simp add: SuperChunk_def)
qed

lemma example_null_written: "\<exists>w. WriteVariableNull (Reset example_chunk example_schema) = Inr w"
  using put_Variable [of "Reset example_chunk example_schema" 0 None "[]"] example_facts(2) example_size(2)
  unfolding holds_def WriteVariableNull_def by auto

theorem null_variable_first_asserts_witness:
  "\<exists>w. WriteVariableNull (Reset example_chunk example_schema) = Inr w \<and>
    ReadVariable (SuperChunkReader (sc_chunk (w_sc w)) example_schema) = Inl AssertionFailed"
proof -
  obtain w where w: "WriteVariableNull (Reset example_chunk example_schema) = Inr w"
    using example_null_written by blast
  moreover have "16 \<le> unat (m_size example_chunk)" by (simp add: example_chunk_def NewChunk_def)
  ultimately show ?thesis using null_variable_first_asserts [OF example_facts(1) _ w] by blast
qed

text \<open>The checks of the reader: with a small length they keep the read inside the buffer.\<close>

lemma CanRead_inside:
  assumes "CanRead (GetOffset (r_sc r)) n r" "unat n \<le> 16" "reader_ok r" "length (r_mem r) + 16 < 2 ^ 64"
  shows "r_off r + unat n \<le> length (r_mem r)"
proof -
  have "unat (sc_offset (r_sc r) + n) = r_off r + unat n"
    using assms by (intro unat_add_bounded) (simp add: reader_ok_def)
  then show ?thesis
    using assms(1,3) by (simp add: CanRead_def GetOffset_def Size_def word_le_nat_alt reader_ok_def)
qed

lemma ReadFixed_inside:
  assumes "reader_ok r" "0 < unat len" "unat len < 2 ^ 31"
  shows "ReadFixed len r \<noteq> Inl UndefinedBehaviour \<and>
    (\<forall>p null r'. ReadFixed len r = Inr (Some (Some p, null), r') \<longrightarrow> unat p + unat len \<le> length (r_mem r))"
proof -
  let ?al = "sizeofAligned8 len"
  have al: "unat ?al = aligned8 (unat len)" using assms(3) by (rule unat_sizeofAligned8_small)
  have sz: "unat (Size (r_sc r)) = length (r_mem r)" using assms(1) by (simp add: reader_ok_def Size_def)
  have rest: "unat (Size (r_sc r) - sc_offset (r_sc r)) = length (r_mem r) - r_off r"
    using assms(1) sz by (subst unat_sub_le_word) (simp_all add: reader_ok_def)
  have nz: "len \<noteq> 0" using assms(2) by auto
  show ?thesis
  proof (cases "Size (r_sc r) - sc_offset (r_sc r) < ?al \<or> \<not> sc_offset (r_sc r) < Size (r_sc r)")
    case True
    with nz show ?thesis by (auto simp: ReadFixed_def ReadAligned8_def PtrAt_def Let_def)
  next
    case False
    then have "unat len \<le> length (r_mem r) - r_off r"
      using rest al aligned8_ge [of "unat len"] by (auto simp: word_less_nat_alt not_less)
    then have fits: "r_off r + unat len \<le> length (r_mem r)"
      using assms(1,2) by (simp add: reader_ok_def)
    let ?buf = "bytes_from (sc_offset (r_sc r)) (advance ?al (r_sc r))"
    have "IsNullBuffer ?buf (sint (ucast len :: i32)) =
        Inr (take (unat len) ?buf = replicate (unat len) 0 \<or> take (unat len) ?buf = replicate (unat len) 32)"
      unfolding sint_ucast_int [OF assms(3)]
      by (rule IsNullBuffer_eq [of "int (unat len)" ?buf, unfolded nat_int of_nat_0_less_iff, OF assms(2)])
         (use fits in \<open>simp add: bytes_from_def advance_def\<close>)
    with False nz fits show ?thesis by (simp add: ReadFixed_def ReadAligned8_def PtrAt_def Let_def)
  qed
qed

lemma ReadVariable_inside:
  assumes "reader_ok r" "length (r_mem r) + 16 < 2 ^ 64"
  shows "ReadVariable r \<noteq> Inl UndefinedBehaviour \<and>
    (\<forall>p len null r'. ReadVariable r = Inr (Some (Some p, len, null), r') \<longrightarrow> unat p < length (r_mem r) \<and>
       (unat p + unat len < 2 ^ 64 \<longrightarrow> unat p + unat len \<le> length (r_mem r)))"
proof (cases "CanRead (GetOffset (r_sc r)) 16 r")
  case True
  note fits = CanRead_inside [OF True _ assms]
  have "unat (sc_offset (r_sc r) + 8) = r_off r + 8" using reader_offset [OF assms(1), of 8] fits by simp
  moreover have "unat (m_size (sc_chunk (r_sc r))) = length (r_mem r)" using assms(1) by (simp add: reader_ok_def)
  moreover have "unat (p + len) = unat p + unat len" if "unat p + unat len < 2 ^ 64" for p len :: u64
    using that by (intro unat_add_bounded) simp
  ultimately show ?thesis
    using True fits
    by (auto simp: ReadVariable_def Read8_def load_def PtrAt_def Let_def advance_def CanRead_def Size_def
        word_less_nat_alt word_le_nat_alt split: if_splits)
qed (simp add: ReadVariable_def)

text \<open>C32. A read never leaves the buffer: on a chunk whose size is not within 16 bytes of the top of
  the address range, the reader's operations refuse, assert or return, whatever bytes the chunk
  holds, and none reads outside of it, for fixed-length values of a length from 1 to \<open>2 ^ 31 - 1\<close>. The value
  \<^verbatim>\<open>ReadFixed\<close> points to lies in the buffer; so does the one \<^verbatim>\<open>ReadVariable\<close> points to, if the end of that value
  is not behind the end of the address range. (The check wraps around there: shown below.)\<close>

theorem reads_stay_in_buffer:
  assumes "reader_ok r" "length (r_mem r) + 16 < 2 ^ 64" "0 < unat n" "unat n < 2 ^ 31"
  shows "ReadInt64 r \<noteq> Inl UndefinedBehaviour \<and> ReadFloat r \<noteq> Inl UndefinedBehaviour \<and>
    ReadInt32 r \<noteq> Inl UndefinedBehaviour \<and> ReadVariable r \<noteq> Inl UndefinedBehaviour \<and>
    ReadFixed n r \<noteq> Inl UndefinedBehaviour \<and>
    (\<forall>p null r'. ReadFixed n r = Inr (Some (Some p, null), r') \<longrightarrow> unat p + unat n \<le> length (r_mem r)) \<and>
    (\<forall>p len null r'. ReadVariable r = Inr (Some (Some p, len, null), r') \<longrightarrow>
       unat p < length (r_mem r) \<and>
       (unat p + unat len < 2 ^ 64 \<longrightarrow> unat p + unat len \<le> length (r_mem r)))"
proof -
  have "r_off r + 8 \<le> length (r_mem r)" if "CanRead (GetOffset (r_sc r)) 8 r"
    using CanRead_inside [OF that _ assms(1,2)] by simp
  then have "ReadInt64 r \<noteq> Inl UndefinedBehaviour" "ReadFloat r \<noteq> Inl UndefinedBehaviour"
    "ReadInt32 r \<noteq> Inl UndefinedBehaviour"
    by (auto simp: ReadInt64_def ReadFloat_def ReadInt32_def Read8_def Read4_def load_def Pad_def)
  with ReadFixed_inside [OF assms(1,3,4)] ReadVariable_inside [OF assms(1,2)] show ?thesis by blast
qed

definition odd_chunk :: Chunk where
  "odd_chunk = NewChunk (replicate 20 255) 20 0 0"

theorem reads_stay_in_buffer_witness:
  "ReadVariable (SuperChunkReader odd_chunk []) \<noteq> Inl UndefinedBehaviour \<and>
   ReadFixed 20 (SuperChunkReader odd_chunk []) \<noteq> Inl UndefinedBehaviour"
proof -
  have "reader_ok (SuperChunkReader odd_chunk [])" "length (r_mem (SuperChunkReader odd_chunk [])) = 20"
    by (simp_all add: reader_ok_def SuperChunkReader_def SuperChunk_def NewChunk_def odd_chunk_def)
  then show ?thesis using reads_stay_in_buffer [of "SuperChunkReader odd_chunk []" 20] by simp
qed

text \<open>
  The lengths the checks let through: a variable-length value that claims \<open>2 ^ 64 - 1\<close> bytes is returned
  with that length, as \<^verbatim>\<open>CanRead\<close> adds it to the offset without regard to the wrap-around, and a fixed-length
  one of \<open>2 ^ 64 - 1\<close> bytes is found in a buffer of 24 bytes, as its aligned size is 0.
\<close>

definition wrapping_chunk :: Chunk where
  "wrapping_chunk = NewChunk (to_le 8 (8 :: u64) @ to_le 8 (-1 :: u64) @ replicate 8 65) 24 0 0"

theorem lengths_wrap_around:
  "\<exists>r1 r2. ReadVariable (SuperChunkReader wrapping_chunk []) = Inr (Some (Some 16, -1, False), r1) \<and>
    ReadFixed (-1) (SuperChunkReader wrapping_chunk []) = Inr (Some (Some 0, False), r2)"
proof -
  let ?ok = "\<lambda>x y. case x of Inr (Some z, r) \<Rightarrow> z = y | _ \<Rightarrow> False"
  have "?ok (ReadVariable (SuperChunkReader wrapping_chunk [])) (Some 16, -1, False)" by code_simp
  moreover have "?ok (ReadFixed (-1) (SuperChunkReader wrapping_chunk [])) (Some 0, False)" by code_simp
  ultimately show ?thesis by (auto split: sum.splits option.splits prod.splits)
qed

text \<open>C35. The C function \<open>WriteVariable\<close> computes the space it needs in an \<open>int\<close>: for a length of
  \<open>2 ^ 32 - 8\<close> bytes the sum wraps around to 8, so with 8 free bytes the guard passes and the write
  runs over the end of the buffer.\<close>

theorem c_WriteVariable_overruns:
  assumes "writer_ok w" "free_of w = 8" "var_of w = 0"
  shows "c_WriteVariable (Some bs) 0xFFFFFFF8 w = Inl UndefinedBehaviour"
proof -
  have "HasEnoughSpace 8 w = Inr True" using HasEnoughSpace_eq [OF assms(1)] assms(2) by simp
  moreover have len: "length (mem_of w) = off_of w + 8"
    using writer_ok_bounds(1) [OF assms(1)] assms(2,3) by simp
  moreover have "unat (sc_offset (w_sc w) + 8) = off_of w + 8"
    unfolding off_of_def using free_room [OF assms(1), of 8] assms(2) roomD [of 8 "w_sc w"]
    by (subst unat_add_le_word [where c = "m_size (sc_chunk (w_sc w))"]) simp_all
  ultimately show ?thesis
    by (simp add: c_WriteVariable_def guarded_def Let_def defaultAlignmentSize_def WriteVariable_def
        on_chunk_def RecordColumn_def IncrVariableOffset_def Write8Typed_def store_def advance_def
        consume_def mem_of_def off_of_def)
qed

theorem c_WriteVariable_overruns_witness:
  "c_WriteVariable (Some []) 0xFFFFFFF8 (Reset (NewChunk (replicate 8 0) 8 0 0) []) = Inl UndefinedBehaviour"
  using c_WriteVariable_overruns [of "Reset (NewChunk (replicate 8 0) 8 0 0) []" "[]"]
  by (simp add: writer_ok_def sc_ok_def Reset_def SuperChunk_def NewChunk_def free_of_def mem_of_def
      var_of_def off_of_def)

end
