(* ===== verification/Versions.thy ===== *)
theory Versions
  imports Utils
begin

text \<open>
  \<^verbatim>\<open>CompareVersions\<close> of \<^verbatim>\<open>utils.cpp\<close>: it scans both version strings with
  \<^verbatim>\<open>sscanf(..., "%d.%d.%d", ...)\<close> and compares the components. \<open>sscanf\<close> is modelled for this
  format: a component the scan does not reach leaves its variable uninitialised, and reading it
  is undefined behaviour; so is a number that does not fit an \<open>int\<close>.
\<close>

section \<open>sscanf of three components\<close>

definition is_space :: "char \<Rightarrow> bool" where
  "is_space c \<longleftrightarrow> (of_char c :: nat) = 32 \<or> 9 \<le> (of_char c :: nat) \<and> (of_char c :: nat) \<le> 13"

text \<open>One \<open>%d\<close>: white space, an optional sign, digits. \<open>None\<close> is a matching failure.\<close>

definition scan_d :: "string \<Rightarrow> (int \<times> string) option" where
  "scan_d s0 =
     (let s1 = dropWhile is_space s0;
          neg = (s1 \<noteq> [] \<and> hd s1 = CHR ''-'');
          s2 = (if s1 \<noteq> [] \<and> (hd s1 = CHR ''-'' \<or> hd s1 = CHR ''+'') then tl s1 else s1);
          ds = takeWhile is_digit s2;
          v = int (digits_value ds)
      in if ds = [] then None
         else Some (if neg then - v else v, dropWhile is_digit s2))"

text \<open>The values the scan stores, from the first component on.\<close>

fun scan_ddd :: "nat \<Rightarrow> string \<Rightarrow> int list" where
  "scan_ddd 0 s = []"
| "scan_ddd (Suc k) s =
     (case scan_d s of
        None \<Rightarrow> []
      | Some (v, s') \<Rightarrow>
          v # (if s' \<noteq> [] \<and> hd s' = CHR ''.'' then scan_ddd k (tl s') else []))"

definition stored :: "int list \<Rightarrow> nat \<Rightarrow> fault + int" where
  "stored vs i =
     (if i < length vs \<and> - INT_MAX - 1 \<le> vs ! i \<and> vs ! i \<le> INT_MAX then Inr (vs ! i)
      else Inl UndefinedBehaviour)"

section \<open>The comparison\<close>

text \<open>
  The conditions of the code are evaluated left to right and stop at the first conjunct that is
  false, so a later component is only read when the earlier ones are equal.
\<close>

definition CompareVersions :: "string \<Rightarrow> string \<Rightarrow> fault + int" where
  "CompareVersions v1 v2 =
     (let a = scan_ddd 3 v1; b = scan_ddd 3 v2 in
      and_then (stored a 0) (\<lambda>v1Major. and_then (stored b 0) (\<lambda>v2Major.
      if v1Major > v2Major then Inr 1
      else if v1Major \<noteq> v2Major then Inr (- 1)
      else and_then (stored a 1) (\<lambda>v1Minor. and_then (stored b 1) (\<lambda>v2Minor.
      if v1Minor > v2Minor then Inr 1
      else if v1Minor \<noteq> v2Minor then Inr (- 1)
      else and_then (stored a 2) (\<lambda>v1Patch. and_then (stored b 2) (\<lambda>v2Patch.
      if v1Patch > v2Patch then Inr 1
      else if v1Patch = v2Patch then Inr 0
      else Inr (- 1))))))))"

section \<open>Versions as a linear order\<close>

text \<open>What the function is for: versions ordered by component, most significant first.\<close>

datatype version = Version (vmajor: nat) (vminor: nat) (vpatch: nat)

instantiation version :: linorder
begin

definition less_version :: "version \<Rightarrow> version \<Rightarrow> bool" where
  "less_version v w \<longleftrightarrow> vmajor v < vmajor w \<or> vmajor v = vmajor w \<and>
     (vminor v < vminor w \<or> vminor v = vminor w \<and> vpatch v < vpatch w)"

definition less_eq_version :: "version \<Rightarrow> version \<Rightarrow> bool" where
  "less_eq_version v w \<longleftrightarrow> v < w \<or> v = (w :: version)"

instance
  by standard (auto simp: less_version_def less_eq_version_def intro: version.expand)

end

definition show_version :: "version \<Rightarrow> string" where
  "show_version v = nat_to_string (vmajor v) @ ''.'' @ nat_to_string (vminor v) @ ''.'' @
     nat_to_string (vpatch v)"

definition small_version :: "version \<Rightarrow> bool" where
  "small_version v \<longleftrightarrow>
     int (vmajor v) \<le> INT_MAX \<and> int (vminor v) \<le> INT_MAX \<and> int (vpatch v) \<le> INT_MAX"

lemma is_digit_not_space_sign:
  assumes "is_digit c"
  shows "\<not> is_space c" "c \<noteq> CHR ''-''" "c \<noteq> CHR ''+''"
  using assms by (auto simp: is_digit_def is_space_def)

lemma not_digit_dot [simp]: "\<not> is_digit CHR ''.''"
  by (simp add: is_digit_def)

lemma scan_d_nat_to_string:
  assumes "s = [] \<or> \<not> is_digit (hd s)"
  shows "scan_d (nat_to_string n @ s) = Some (int n, s)"
proof -
  obtain c ds where n: "nat_to_string n = c # ds"
    by (cases "nat_to_string n") auto
  then have "is_digit c"
    using nat_to_string_digits [of n] by simp
  note c = is_digit_not_space_sign [OF this]
  have "takeWhile is_digit s = []" "dropWhile is_digit s = s"
    using assms by (cases s; simp)+
  then have scan: "takeWhile is_digit (c # ds @ s) = c # ds" "dropWhile is_digit (c # ds @ s) = s"
    using takeWhile_digits_nat_to_string [of n s] by (simp_all add: n del: takeWhile.simps)
  have "digits_value (c # ds) = n"
    using digits_value_nat_to_string [of n] by (simp add: n)
  with scan c show ?thesis
    by (simp add: scan_d_def Let_def n del: takeWhile.simps)
qed

lemma scan_show_version:
  "scan_ddd 3 (show_version v) = [int (vmajor v), int (vminor v), int (vpatch v)]"
  using scan_d_nat_to_string [of "[]"]
  by (simp add: show_version_def numeral_3_eq_3 scan_d_nat_to_string)

lemma CompareVersions_show:
  assumes "small_version v" "small_version w"
  shows "CompareVersions (show_version v) (show_version w) =
    Inr (if w < v then 1 else if v = w then 0 else - 1)"
  using assms
  by (cases v; cases w)
    (auto simp: CompareVersions_def scan_show_version stored_def small_version_def
        less_version_def INT_MAX_def Let_def)

section \<open>The contract\<close>

text \<open>C36. Comparing two version strings is comparing the versions: for versions whose components fit
  an \<open>int\<close> the result is 1, 0 or -1 as the first is later, equal or earlier, component by
  component with the major one first.\<close>

theorem CompareVersions_orders:
  assumes "small_version v" "small_version w"
  shows "CompareVersions (show_version v) (show_version w) =
    Inr (if w < v then 1 else if v = w then 0 else - 1)"
  using assms by (rule CompareVersions_show)

theorem CompareVersions_orders_witness:
  "CompareVersions ''7.10.2'' ''7.9.11'' = Inr 1"
proof -
  have "show_version (Version 7 10 2) = ''7.10.2''" "show_version (Version 7 9 11) = ''7.9.11''"
    by code_simp+
  with CompareVersions_orders [of "Version 7 10 2" "Version 7 9 11"] show ?thesis
    by (simp add: small_version_def INT_MAX_def less_version_def)
qed

end
