(* ===== verification/SqlText.thy ===== *)
theory SqlText
  imports Versions Hdat_Chunk
begin

text \<open>
  The namespace \<^verbatim>\<open>sql\<close> of \<^verbatim>\<open>utils.cpp\<close>: the texts of the statements the library sends. An array of
  column names with its number is a list (a number that is not positive is the empty list).
\<close>

section \<open>Quoting\<close>

text \<open>\<open>std::quoted(s, delim, escape)\<close>\<close>

fun quoted_chars :: "char \<Rightarrow> char \<Rightarrow> string \<Rightarrow> string" where
  "quoted_chars delim escape [] = []"
| "quoted_chars delim escape (c # cs) =
     (if c = delim \<or> c = escape then escape # c # quoted_chars delim escape cs
      else c # quoted_chars delim escape cs)"

definition quoted :: "char \<Rightarrow> char \<Rightarrow> string \<Rightarrow> string" where
  "quoted delim escape s = delim # quoted_chars delim escape s @ [delim]"

definition QuotedName :: "string \<Rightarrow> string" where
  "QuotedName name = quoted CHR ''`'' CHR ''`'' name"

section \<open>Lists of names and numbers\<close>

fun join_loop :: "('a \<Rightarrow> string) \<Rightarrow> string \<Rightarrow> 'a list \<Rightarrow> string" where
  "join_loop f result [] = result"
| "join_loop f result (c # cs) = join_loop f (result @ '','' @ f c) cs"

definition JoinIds :: "i64 list \<Rightarrow> string" where
  "JoinIds cols =
     (case cols of [] \<Rightarrow> ''''
      | c # cs \<Rightarrow> join_loop (\<lambda>i. int_to_string (sint i)) (int_to_string (sint c)) cs)"

definition JoinColumnNames :: "string list \<Rightarrow> string" where
  "JoinColumnNames cols =
     (case cols of [] \<Rightarrow> '''' | c # cs \<Rightarrow> join_loop QuotedName (QuotedName c) cs)"

text \<open>The overload on a pointer to a vector, which must point to a nonempty one.\<close>

definition JoinColumnNames_vector :: "string list option \<Rightarrow> fault + string" where
  "JoinColumnNames_vector cols =
     (case cols of
        Some (c # cs) \<Rightarrow> Inr (join_loop QuotedName (QuotedName c) cs)
      | _ \<Rightarrow> Inl AssertionFailed)"

definition BuildSortKey :: "string list \<Rightarrow> string \<Rightarrow> string" where
  "BuildSortKey partitionOrderByCols keyColumnName =
     (let result = JoinColumnNames partitionOrderByCols in
      if keyColumnName \<in> set partitionOrderByCols then result
      else (if result \<noteq> '''' then result @ '','' else result) @ QuotedName keyColumnName)"

section \<open>Creating and dropping tables\<close>

datatype TableType = AggResultTable | AggResultTableMaterialized | RegularTable

definition PartitionBy :: "string list \<Rightarrow> string list \<Rightarrow> string \<Rightarrow> TableType \<Rightarrow> string" where
  "PartitionBy partitionByCols partitionOrderByCols keyColumnName tableType =
     (if tableType \<noteq> RegularTable then
        if partitionByCols = [] \<and> partitionOrderByCols = [] then ''''
        else
          (if partitionByCols \<noteq> []
           then '' PARTITION BY ('' @ JoinColumnNames partitionByCols @ '')'' else '''') @
          (if partitionOrderByCols \<noteq> []
           then '' WITH (PARTITION_ORDER_BY = ('' @ JoinColumnNames partitionOrderByCols @ ''))''
           else '''')
      else
        let result = (if partitionByCols \<noteq> []
                      then ''SHARD KEY('' @ JoinColumnNames partitionByCols @ '')'' else '''');
            result' = (if result \<noteq> '''' then result @ '','' else result)
        in ''('' @ result' @ '' SORT KEY('' @ BuildSortKey partitionOrderByCols keyColumnName @ '')'' @
           '')'')"

definition MakeCreateTableQuery ::
  "string \<Rightarrow> string \<Rightarrow> string \<Rightarrow> TableType \<Rightarrow> string list \<Rightarrow> string list \<Rightarrow> string" where
  "MakeCreateTableQuery resultTableName selectQuery keyColumnName tableType partitionByCols partitionOrderByCols =
     ''CREATE '' @
     (case tableType of
        AggResultTableMaterialized \<Rightarrow> ''MATERIALIZED RESULT TABLE ''
      | AggResultTable \<Rightarrow> ''RESULT TABLE ''
      | RegularTable \<Rightarrow> ''TABLE '') @
     QuotedName resultTableName @
     PartitionBy partitionByCols partitionOrderByCols keyColumnName tableType @
     '' AS '' @ selectQuery"

definition MakeDropResultQuery :: "string \<Rightarrow> string" where
  "MakeDropResultQuery resultTableName = ''DROP RESULT TABLE '' @ QuotedName resultTableName"

definition MakeDropTableQuery :: "string \<Rightarrow> string" where
  "MakeDropTableQuery resultTableName = ''DROP TABLE IF EXISTS '' @ QuotedName resultTableName"

section \<open>Reading tables\<close>

text \<open>
  The version decides whether an alias is added, but the code computes the longer text and drops
  it (\<^verbatim>\<open>resultQuery + " AS alias "\<close> is an expression without effect); what remains is the call
  of \<open>CompareVersions\<close>.
\<close>

definition MakeReadResultTableQuery :: "string \<Rightarrow> u32 \<Rightarrow> string \<Rightarrow> fault + string" where
  "MakeReadResultTableQuery resultTableName part s2Version =
     (let resultQuery = ''SELECT * FROM ::'' @ QuotedName resultTableName in
      and_then (CompareVersions s2Version ''7.8.14'') (\<lambda>_.
      Inr (resultQuery @ '' WHERE partition_id() = '' @ int_to_string (uint part))))"

definition MakeReadColumnStoreTableQuery :: "string \<Rightarrow> string \<Rightarrow> string list \<Rightarrow> u32 \<Rightarrow> string" where
  "MakeReadColumnStoreTableQuery tableName keyColumnName partitionOrderByCols part =
     ''SELECT * FROM '' @ QuotedName tableName @
     '' WHERE partition_id() = '' @ int_to_string (uint part) @
     '' ORDER BY '' @ BuildSortKey partitionOrderByCols keyColumnName"

definition MakeReadOriginalTableQuery ::
  "string \<Rightarrow> string list option \<Rightarrow> string list \<Rightarrow> u32 \<Rightarrow> fault + string" where
  "MakeReadOriginalTableQuery query columnstoreFullSortKey partitionOrderByCols part =
     (let resultQuery = ''SELECT * FROM ('' @ query @ '')'' @
            '' WHERE partition_id() = '' @ int_to_string (uint part) in
      if columnstoreFullSortKey \<noteq> None \<and> the columnstoreFullSortKey \<noteq> []
      then and_then (JoinColumnNames_vector columnstoreFullSortKey) (\<lambda>cols. Inr (resultQuery @ '' ORDER BY '' @ cols))
      else if partitionOrderByCols \<noteq> []
      then Inr (resultQuery @ '' ORDER BY '' @ JoinColumnNames partitionOrderByCols)
      else Inr resultQuery)"

definition MakePointInTimeQuery ::
  "string \<Rightarrow> string \<Rightarrow> string \<Rightarrow> i32 \<Rightarrow> i64 \<Rightarrow> bool \<Rightarrow> string \<Rightarrow> fault + string" where
  "MakePointInTimeQuery table selectQuery keyColumnName part row_id is_result_table s2Version =
     (if selectQuery \<noteq> '''' then
        Inr (''SELECT * FROM ('' @ selectQuery @ '')'' @
          '' WHERE partition_id() = '' @ int_to_string (sint part) @
          '' AND '' @ keyColumnName @ ''='' @ int_to_string (sint row_id))
      else if is_result_table then
        and_then (CompareVersions s2Version ''7.8.14'') (\<lambda>_.
        Inr (''SELECT * FROM ::'' @ QuotedName table @
          '' WHERE partition_id() = '' @ int_to_string (sint part) @
          '' AND partition_row_id() = '' @ int_to_string (sint row_id)))
      else
        Inr (''SELECT * FROM '' @ QuotedName table @
          '' WHERE partition_id() = '' @ int_to_string (sint part) @
          '' AND '' @ QuotedName keyColumnName @ ''='' @ int_to_string (sint row_id)))"

definition MakeRowIdFilterQuery :: "string \<Rightarrow> string \<Rightarrow> string \<Rightarrow> i32 \<Rightarrow> i64 list \<Rightarrow> string" where
  "MakeRowIdFilterQuery table selectQuery keyColumnName part rowIds =
     (if selectQuery \<noteq> '''' then ''SELECT * FROM ('' @ selectQuery @ '')''
      else ''SELECT * FROM '' @ QuotedName table) @
     '' WHERE partition_id() = '' @ int_to_string (sint part) @
     '' AND '' @ QuotedName keyColumnName @ '' IN '' @
     ''('' @ JoinIds rowIds @ '')'' @
     '' ORDER BY '' @ QuotedName keyColumnName"

section \<open>Loading data\<close>

datatype WriteBufferType = TSV | AVRO

definition MakeAvroFieldName :: "nat \<Rightarrow> string" where
  "MakeAvroFieldName i = ''col_'' @ nat_to_string i"

definition MakeAvroVarName :: "nat \<Rightarrow> string" where
  "MakeAvroVarName i = ''@var_'' @ nat_to_string i"

definition apos :: string where "apos = [CHR 0x27]"
definition dquote :: string where "dquote = [CHR 0x22]"

text \<open>
  One iteration of \<^verbatim>\<open>MakeColumnsAvro\<close>: the text added to the mapping, and the assignment added to
  the computed columns, if there is one. A column that needs no conversion is mapped directly.
\<close>

definition avro_value :: "ColumnType \<Rightarrow> string \<Rightarrow> string" where
  "avro_value t v =
     (case t of
        Int64 \<Rightarrow> '' = IF('' @ v @ '' != -9223372036854775808,'' @ v @ '',NULL)''
      | Int32 \<Rightarrow> '' = IF('' @ v @ '' != -2147483648,'' @ v @ '',NULL)''
      | DateTime \<Rightarrow> '' = ADDDATE('' @ dquote @ ''1960-01-01'' @ dquote @ '', INTERVAL '' @ v @ '' MICROSECOND)''
      | Time \<Rightarrow> ''= IF('' @ v @ ''= -9223372036854775808,NULL,CONCAT(IF('' @ v @ ''> 0, '' @ apos @ apos @ '', '' @
          apos @ ''-'' @ apos @ ''),ADDTIME(SEC_TO_TIME(FLOOR(ABS('' @ v @ ''/1000000))),CONCAT('' @ apos @
          ''00:00:00.'' @ apos @ '',LPAD(ABS('' @ v @ '') % 1000000 :> TEXT, 6, '' @ apos @ ''0'' @ apos @ '')))))''
      | Date \<Rightarrow> '' = ADDDATE('' @ dquote @ ''1960-01-01'' @ dquote @ '', INTERVAL '' @ v @ '' DAY)''
      | _ \<Rightarrow> '' = IF(LENGTH('' @ v @ '') = 0, NULL,'' @ v @ '')'')"

definition avro_computed :: "bool \<Rightarrow> ColumnType \<Rightarrow> bool" where
  "avro_computed treatZeroLenAsNull t \<longleftrightarrow>
     t \<in> {Int64, Int32, DateTime, Time, Date} \<or> t \<in> {Fixed, Variable} \<and> treatZeroLenAsNull"

fun avro_columns_loop :: "bool \<Rightarrow> nat \<Rightarrow> RowSchema \<Rightarrow> string \<times> string \<Rightarrow> string \<times> string" where
  "avro_columns_loop z i [] acc = acc"
| "avro_columns_loop z i (c # cs) (mapping, computing) =
     (let mapping1 = (if i > 0 then mapping @ '','' else mapping) in
      if avro_computed z (col_type c) then
        avro_columns_loop z (Suc i) cs
          (mapping1 @ MakeAvroVarName i @ '' <- %::'' @ MakeAvroFieldName i,
           computing @ (if computing \<noteq> '''' then '','' else ''SET '') @
             QuotedName (col_name c) @ avro_value (col_type c) (MakeAvroVarName i))
      else avro_columns_loop z (Suc i) cs
          (mapping1 @ QuotedName (col_name c) @ '' <- %::'' @ MakeAvroFieldName i, computing))"

definition MakeColumnsAvro :: "RowSchema \<Rightarrow> bool \<Rightarrow> string \<times> string" where
  "MakeColumnsAvro schema treatZeroLenAsNull = avro_columns_loop treatZeroLenAsNull 0 schema ('''', '''')"

text \<open>
  The JSON document is built with the jansson library; \<open>json\<close> is the tree the code builds, and the
  serialiser \<^verbatim>\<open>json_dumps\<close> is a parameter.
\<close>

datatype json = JString string | JArray "json list" | JObject "(string \<times> json) list"

definition avro_type :: "ColumnType \<Rightarrow> fault + string" where
  "avro_type t =
     (case t of
        Int64 \<Rightarrow> Inr ''long'' | DateTime \<Rightarrow> Inr ''long'' | Time \<Rightarrow> Inr ''long''
      | Int32 \<Rightarrow> Inr ''int'' | Date \<Rightarrow> Inr ''int''
      | Double \<Rightarrow> Inr ''double''
      | Variable \<Rightarrow> Inr ''bytes'' | Fixed \<Rightarrow> Inr ''bytes''
      | Unsupported \<Rightarrow> Inl (S2ClientError S2C_ERROR_INV_ARG ''Unsupported data type: 8''))"

fun avro_fields :: "nat \<Rightarrow> RowSchema \<Rightarrow> fault + json list" where
  "avro_fields i [] = Inr []"
| "avro_fields i (c # cs) =
     and_then (avro_type (col_type c)) (\<lambda>t.
     and_then (avro_fields (Suc i) cs) (\<lambda>fs.
     Inr (JObject [(''name'', JString (MakeAvroFieldName i)), (''type'', JString t)] # fs)))"

definition MakeAvroJsonSchema :: "(json \<Rightarrow> string) \<Rightarrow> RowSchema \<Rightarrow> fault + string" where
  "MakeAvroJsonSchema json_dumps schema =
     and_then (avro_fields 0 schema) (\<lambda>fs.
     Inr (json_dumps (JObject [(''type'', JString ''record''), (''name'', JString ''schema_name''),
       (''fields'', JArray fs)])))"

text \<open>\<^verbatim>\<open>schema->ColumnInfo[0]\<close> of a schema without columns is read out of bounds.\<close>

definition MakeLoadDataQuery ::
  "(json \<Rightarrow> string) \<Rightarrow> string \<Rightarrow> RowSchema \<Rightarrow> WriteBufferType \<Rightarrow> bool \<Rightarrow> fault + string" where
  "MakeLoadDataQuery json_dumps tableName schema format treatZeroLenAsNull =
     (let result = ''LOAD DATA LOCAL INFILE '' @ apos @ ''placeholder'' @ apos @ '' INTO TABLE '' @
            QuotedName tableName @ '' '' in
      case format of
        TSV \<Rightarrow>
          (case schema of
             [] \<Rightarrow> Inl UndefinedBehaviour
           | c # cs \<Rightarrow>
               Inr (result @ join_loop (\<lambda>c. QuotedName (col_name c)) ('' ('' @ QuotedName (col_name c)) cs @
                 '') '' @ '' FIELDS OPTIONALLY ENCLOSED BY '' @ apos @ dquote @ apos))
      | AVRO \<Rightarrow>
          (let (mapping, computing) = MakeColumnsAvro schema treatZeroLenAsNull in
           and_then (MakeAvroJsonSchema json_dumps schema) (\<lambda>js.
           Inr (result @ '' FORMAT AVRO '' @ ''('' @ mapping @ '')'' @ '' SCHEMA '' @ apos @ js @ apos @ '' '' @
             computing))))"

section \<open>Metadata queries\<close>

definition MakeSelectQueryMeta :: "string \<Rightarrow> string" where
  "MakeSelectQueryMeta tableName = ''SELECT * FROM '' @ QuotedName tableName @ '' WHERE 1 = 0''"

definition MakeExplainCreateResultTableQuery :: "string \<Rightarrow> string \<Rightarrow> string" where
  "MakeExplainCreateResultTableQuery selectQuery explainType =
     ''EXPLAIN '' @ explainType @ '' CREATE RESULT TABLE tmp AS '' @ selectQuery"

definition MakeGetAggregatorsQuery :: string where
  "MakeGetAggregatorsQuery =
     ''SELECT TYPE, IP_ADDR, PORT, EXTERNAL_HOST, EXTERNAL_PORT FROM information_schema.mv_nodes WHERE TYPE = '' @
     apos @ ''CA'' @ apos @ '' ORDER BY IP_ADDR, PORT, EXTERNAL_HOST, EXTERNAL_PORT''"

definition MakeGetTableKeysQuery :: "string \<Rightarrow> string \<Rightarrow> string" where
  "MakeGetTableKeysQuery db tableName =
     ''SELECT SEQ_IN_INDEX, COLUMN_NAME, INDEX_TYPE FROM INFORMATION_SCHEMA.STATISTICS'' @
     '' WHERE TABLE_SCHEMA = '' @ quoted CHR 0x27 CHR 0x5C db @
     '' AND TABLE_NAME = '' @ quoted CHR 0x27 CHR 0x5C tableName @
     '' AND (INDEX_TYPE = '' @ apos @ ''CLUSTERED COLUMNSTORE'' @ apos @ '' OR INDEX_TYPE = '' @ apos @ ''SHARD'' @ apos @ '')'' @
     '' ORDER BY INDEX_TYPE, SEQ_IN_INDEX''"

section \<open>Reading the texts back\<close>

text \<open>
  How the server reads a quoted token at the start of a text: everything up to a delimiter that is
  not escaped. \<open>lex_quoted\<close> returns the token's value and the rest.
\<close>

fun lex_chars :: "char \<Rightarrow> char \<Rightarrow> string \<Rightarrow> string \<Rightarrow> (string \<times> string) option" where
  "lex_chars delim escape acc [] = None"
| "lex_chars delim escape acc [c] = (if c = delim then Some (acc, []) else None)"
| "lex_chars delim escape acc (c # d # cs) =
     (if c = escape \<and> (d = delim \<or> d = escape) then lex_chars delim escape (acc @ [d]) cs
      else if c = delim then Some (acc, d # cs)
      else lex_chars delim escape (acc @ [c]) (d # cs))"

definition lex_quoted :: "char \<Rightarrow> char \<Rightarrow> string \<Rightarrow> (string \<times> string) option" where
  "lex_quoted delim escape s =
     (case s of c # cs \<Rightarrow> if c = delim then lex_chars delim escape [] cs else None | [] \<Rightarrow> None)"

lemma lex_chars_quoted:
  assumes "delim = escape \<longrightarrow> (rest = [] \<or> hd rest \<noteq> delim)"
  shows "lex_chars delim escape acc (quoted_chars delim escape s @ delim # rest) = Some (acc @ s, rest)"
proof (induction s arbitrary: acc)
  case Nil
  show ?case using assms by (cases rest) auto
next
  case (Cons c cs)
  show ?case
  proof (cases "c = delim \<or> c = escape")
    case True
    with Cons [of "acc @ [c]"] show ?thesis by auto
  next
    case False
    then have "lex_chars delim escape acc (c # quoted_chars delim escape cs @ delim # rest) =
        lex_chars delim escape (acc @ [c]) (quoted_chars delim escape cs @ delim # rest)"
      by (cases "quoted_chars delim escape cs @ delim # rest") auto
    with Cons [of "acc @ [c]"] False show ?thesis by simp
  qed
qed

lemma lex_quoted_quoted:
  "delim = escape \<longrightarrow> (rest = [] \<or> hd rest \<noteq> delim) \<Longrightarrow>
   lex_quoted delim escape (quoted delim escape s @ rest) = Some (s, rest)"
  by (simp add: lex_quoted_def quoted_def lex_chars_quoted)

lemma lex_QuotedName:
  "rest = [] \<or> hd rest \<noteq> CHR ''`'' \<Longrightarrow> lex_quoted CHR ''`'' CHR ''`'' (QuotedName s @ rest) = Some (s, rest)"
  by (simp add: QuotedName_def lex_quoted_quoted)

text \<open>A list of quoted names, separated by commas.\<close>

fun lex_names :: "nat \<Rightarrow> string \<Rightarrow> string list option" where
  "lex_names 0 s = None"
| "lex_names (Suc n) s =
     (case lex_quoted CHR ''`'' CHR ''`'' s of
        None \<Rightarrow> None
      | Some (name, []) \<Rightarrow> Some [name]
      | Some (name, c # rest) \<Rightarrow>
          if c = CHR '','' then map_option ((#) name) (lex_names n rest) else None)"

fun sep_by :: "string \<Rightarrow> string list \<Rightarrow> string" where
  "sep_by sep [] = ''''"
| "sep_by sep [s] = s"
| "sep_by sep (s # t # ts) = s @ sep @ sep_by sep (t # ts)"

lemma join_loop_eq: "join_loop f r cs = r @ concat (map (\<lambda>c. '','' @ f c) cs)"
  by (induction cs arbitrary: r) simp_all

lemma sep_by_concat: "sep_by sep (s # ts) = s @ concat (map (\<lambda>t. sep @ t) ts)"
  by (induction ts arbitrary: s) simp_all

lemma sep_by_snoc: "ts \<noteq> [] \<Longrightarrow> sep_by sep (ts @ [t]) = sep_by sep ts @ sep @ t"
  by (cases ts) (simp_all add: sep_by_concat)

lemma JoinColumnNames_eq: "JoinColumnNames cols = sep_by '','' (map QuotedName cols)"
  by (cases cols) (simp_all add: JoinColumnNames_def join_loop_eq sep_by_concat o_def)

lemma JoinColumnNames_vector_eq: "cols \<noteq> [] \<Longrightarrow> JoinColumnNames_vector (Some cols) = Inr (JoinColumnNames cols)"
  by (cases cols) (simp_all add: JoinColumnNames_vector_def JoinColumnNames_def)

lemma QuotedName_nonempty [simp]: "QuotedName s \<noteq> []"
  by (simp add: QuotedName_def quoted_def)

lemma JoinColumnNames_Nil_iff [simp]: "JoinColumnNames cols = [] \<longleftrightarrow> cols = []"
  by (cases cols) (simp_all add: JoinColumnNames_eq sep_by_concat)

lemma BuildSortKey_eq:
  "BuildSortKey cols key = JoinColumnNames (if key \<in> set cols then cols else cols @ [key])"
proof (cases "cols = []")
  case True
  then show ?thesis by (simp add: BuildSortKey_def JoinColumnNames_def)
next
  case False
  then show ?thesis
    using sep_by_snoc [of "map QuotedName cols" "'',''" "QuotedName key"]
    by (simp add: BuildSortKey_def Let_def) (simp add: JoinColumnNames_eq)
qed

lemma lex_names_sep_by:
  assumes "names \<noteq> []" "length names \<le> n"
  shows "lex_names n (sep_by '','' (map QuotedName names)) = Some names"
  using assms
proof (induction names arbitrary: n)
  case (Cons s names)
  then obtain m where n: "n = Suc m" by (cases n) auto
  show ?case
  proof (cases names)
    case Nil
    with n lex_QuotedName [of "[]" s] show ?thesis by simp
  next
    case (Cons t ts)
    then have "sep_by '','' (map QuotedName (s # names)) = QuotedName s @ '','' @ sep_by '','' (map QuotedName names)"
      by simp
    moreover have "lex_names m (sep_by '','' (map QuotedName names)) = Some names"
      using Cons.IH [of m] Cons.prems n Cons by simp
    ultimately show ?thesis
      using n lex_QuotedName [of "'','' @ sep_by '','' (map QuotedName names)" s] by simp
  qed
qed simp

lemma lex_JoinColumnNames:
  "cols \<noteq> [] \<Longrightarrow> length cols \<le> n \<Longrightarrow> lex_names n (JoinColumnNames cols) = Some cols"
  by (simp add: JoinColumnNames_eq lex_names_sep_by)

section \<open>The contract\<close>

text \<open>\<open>names_table pre stmt t rest\<close>: the statement is \<open>pre\<close>, the quoted name and \<open>rest\<close>, and what the server
  reads behind \<open>pre\<close> is one token that stands for exactly the name \<open>t\<close>, with \<open>rest\<close> behind it.\<close>

definition names_table :: "string \<Rightarrow> string \<Rightarrow> string \<Rightarrow> string \<Rightarrow> bool" where
  "names_table pre stmt t rest \<longleftrightarrow> stmt = pre @ QuotedName t @ rest \<and>
     lex_quoted CHR ''`'' CHR ''`'' (drop (length pre) stmt) = Some (t, rest)"

lemma names_tableI: "rest = [] \<or> hd rest \<noteq> CHR ''`'' \<Longrightarrow> stmt = pre @ QuotedName t @ rest \<Longrightarrow> names_table pre stmt t rest"
  by (simp add: names_table_def lex_QuotedName)

lemma lex_apos: "lex_quoted CHR 0x27 CHR 0x5C (quoted CHR 0x27 CHR 0x5C s @ rest) = Some (s, rest)"
  by (rule lex_quoted_quoted) simp

text \<open>The statements with a table's name, by what they do. Those for a created or dropped table:\<close>

lemma created_named:
  "names_table (''CREATE '' @ (case tt of AggResultTableMaterialized \<Rightarrow> ''MATERIALIZED RESULT TABLE ''
       | AggResultTable \<Rightarrow> ''RESULT TABLE '' | RegularTable \<Rightarrow> ''TABLE ''))
     (MakeCreateTableQuery t q key tt pcols ocols) t (PartitionBy pcols ocols key tt @ '' AS '' @ q)"
  by (rule names_tableI) (auto simp: MakeCreateTableQuery_def PartitionBy_def Let_def)

lemma dropped_named:
  "names_table ''DROP RESULT TABLE '' (MakeDropResultQuery t) t ''''"
  "names_table ''DROP TABLE IF EXISTS '' (MakeDropTableQuery t) t ''''"
  by (simp_all add: names_tableI MakeDropResultQuery_def MakeDropTableQuery_def)

text \<open>Those that read one:\<close>

lemma read_named:
  "names_table ''SELECT * FROM '' (MakeSelectQueryMeta t) t '' WHERE 1 = 0''"
  "names_table ''SELECT * FROM '' (MakeReadColumnStoreTableQuery t key cols part) t
     ('' WHERE partition_id() = '' @ int_to_string (uint part) @ '' ORDER BY '' @ BuildSortKey cols key)"
  "names_table ''SELECT * FROM '' (MakeRowIdFilterQuery t '''' key p ids) t
     ('' WHERE partition_id() = '' @ int_to_string (sint p) @ '' AND '' @ QuotedName key @ '' IN ('' @ JoinIds ids @
      '') ORDER BY '' @ QuotedName key)"
  "MakeReadResultTableQuery t part v = Inr s \<Longrightarrow> names_table ''SELECT * FROM ::'' s t
     ('' WHERE partition_id() = '' @ int_to_string (uint part))"
  "MakePointInTimeQuery t '''' key p row result v = Inr s \<Longrightarrow>
     names_table (if result then ''SELECT * FROM ::'' else ''SELECT * FROM '') s t
      ('' WHERE partition_id() = '' @ int_to_string (sint p) @ '' AND '' @
       (if result then ''partition_row_id() = '' else QuotedName key @ ''='') @ int_to_string (sint row))"
  by (auto simp: MakeSelectQueryMeta_def MakeReadColumnStoreTableQuery_def MakeRowIdFilterQuery_def
      MakeReadResultTableQuery_def MakePointInTimeQuery_def Let_def and_then_Inr_iff split: if_splits intro!: names_tableI)

text \<open>And the one that loads data:\<close>

lemma load_named:
  "\<exists>rest. \<forall>t s. MakeLoadDataQuery jd t schema fmt z = Inr s \<longrightarrow>
     names_table (''LOAD DATA LOCAL INFILE '' @ apos @ ''placeholder'' @ apos @ '' INTO TABLE '') s t rest"
proof -
  define rest where "rest = (case MakeLoadDataQuery jd '''' schema fmt z of Inl e \<Rightarrow> ''''
    | Inr s \<Rightarrow> drop (length (''LOAD DATA LOCAL INFILE '' @ apos @ ''placeholder'' @ apos @ '' INTO TABLE '' @ QuotedName '''')) s)"
  have "names_table (''LOAD DATA LOCAL INFILE '' @ apos @ ''placeholder'' @ apos @ '' INTO TABLE '') s t rest"
    if "MakeLoadDataQuery jd t schema fmt z = Inr s" for t s
    using that unfolding rest_def
    by (cases fmt; cases schema)
       (auto simp: MakeLoadDataQuery_def Let_def and_then_Inr_iff join_loop_eq QuotedName_def quoted_def apos_def
          split: prod.splits intro!: names_tableI)
  then show ?thesis by blast
qed

text \<open>The names in the query for the keys of a table:\<close>

lemma two_literals:
  assumes "\<And>db t. f db t = pre @ quoted CHR 0x27 CHR 0x5C db @ sp @ quoted CHR 0x27 CHR 0x5C t @ suf"
  shows "\<exists>pre suf. \<forall>db t. \<exists>mid. f db t = pre @ quoted CHR 0x27 CHR 0x5C db @ mid \<and>
     lex_quoted CHR 0x27 CHR 0x5C (quoted CHR 0x27 CHR 0x5C db @ mid) = Some (db, mid) \<and>
     lex_quoted CHR 0x27 CHR 0x5C (drop (length sp) mid) = Some (t, suf)"
proof (rule exI [of _ pre], rule exI [of _ suf], intro allI)
  fix db t
  show "\<exists>mid. f db t = pre @ quoted CHR 0x27 CHR 0x5C db @ mid \<and>
     lex_quoted CHR 0x27 CHR 0x5C (quoted CHR 0x27 CHR 0x5C db @ mid) = Some (db, mid) \<and>
     lex_quoted CHR 0x27 CHR 0x5C (drop (length sp) mid) = Some (t, suf)"
    by (rule exI [of _ "sp @ quoted CHR 0x27 CHR 0x5C t @ suf"]) (simp add: assms lex_apos)
qed

lemma keys_named:
  "\<exists>pre suf. \<forall>db t. \<exists>mid. MakeGetTableKeysQuery db t = pre @ quoted CHR 0x27 CHR 0x5C db @ mid \<and>
     lex_quoted CHR 0x27 CHR 0x5C (quoted CHR 0x27 CHR 0x5C db @ mid) = Some (db, mid) \<and>
     lex_quoted CHR 0x27 CHR 0x5C (drop (length '' AND TABLE_NAME = '') mid) = Some (t, suf)"
proof (rule two_literals)
  show "MakeGetTableKeysQuery db t =
      (''SELECT SEQ_IN_INDEX, COLUMN_NAME, INDEX_TYPE FROM INFORMATION_SCHEMA.STATISTICS'' @ '' WHERE TABLE_SCHEMA = '') @
      quoted CHR 0x27 CHR 0x5C db @ '' AND TABLE_NAME = '' @ quoted CHR 0x27 CHR 0x5C t @
      ('' AND (INDEX_TYPE = '' @ apos @ ''CLUSTERED COLUMNSTORE'' @ apos @ '' OR INDEX_TYPE = '' @ apos @ ''SHARD'' @ apos @
       '')'' @ '' ORDER BY INDEX_TYPE, SEQ_IN_INDEX'')" for db t
    unfolding MakeGetTableKeysQuery_def by (simp only: append_assoc)
qed

text \<open>C22. A table name is data, whatever characters it has: in every statement that names a table (it is created,
  as any of the three kinds, or dropped, read in any of the ways, or loaded) the name is one quoted token behind
  a fixed text, from which the server reads back exactly the name that was given, and what follows does not depend
  on it, so no name can end the token early and add text to the statement. In the query for a table's keys the
  names of the database and of the table are string literals, for which the same is shown. (The statements that
  read by a client's query, the original table's among them, contain that query and no name.)\<close>

theorem table_name_is_one_token:
  "names_table (''CREATE '' @ (case tt of AggResultTableMaterialized \<Rightarrow> ''MATERIALIZED RESULT TABLE ''
       | AggResultTable \<Rightarrow> ''RESULT TABLE '' | RegularTable \<Rightarrow> ''TABLE ''))
     (MakeCreateTableQuery t q key tt pcols ocols) t (PartitionBy pcols ocols key tt @ '' AS '' @ q) \<and>
   names_table ''DROP RESULT TABLE '' (MakeDropResultQuery t) t '''' \<and>
   names_table ''DROP TABLE IF EXISTS '' (MakeDropTableQuery t) t '''' \<and>
   names_table ''SELECT * FROM '' (MakeSelectQueryMeta t) t '' WHERE 1 = 0'' \<and>
   names_table ''SELECT * FROM '' (MakeReadColumnStoreTableQuery t key cols part) t
     ('' WHERE partition_id() = '' @ int_to_string (uint part) @ '' ORDER BY '' @ BuildSortKey cols key) \<and>
   names_table ''SELECT * FROM '' (MakeRowIdFilterQuery t '''' key p ids) t
     ('' WHERE partition_id() = '' @ int_to_string (sint p) @ '' AND '' @ QuotedName key @ '' IN ('' @ JoinIds ids @
      '') ORDER BY '' @ QuotedName key) \<and>
   (\<forall>s. MakeReadResultTableQuery t part v = Inr s \<longrightarrow> names_table ''SELECT * FROM ::'' s t
     ('' WHERE partition_id() = '' @ int_to_string (uint part))) \<and>
   (\<forall>s. MakePointInTimeQuery t '''' key p row result v = Inr s \<longrightarrow>
     names_table (if result then ''SELECT * FROM ::'' else ''SELECT * FROM '') s t
      ('' WHERE partition_id() = '' @ int_to_string (sint p) @ '' AND '' @
       (if result then ''partition_row_id() = '' else QuotedName key @ ''='') @ int_to_string (sint row))) \<and>
   (\<exists>rest. \<forall>t s. MakeLoadDataQuery jd t schema fmt z = Inr s \<longrightarrow>
     names_table (''LOAD DATA LOCAL INFILE '' @ apos @ ''placeholder'' @ apos @ '' INTO TABLE '') s t rest) \<and>
   (\<exists>pre suf. \<forall>db t. \<exists>mid. MakeGetTableKeysQuery db t = pre @ quoted CHR 0x27 CHR 0x5C db @ mid \<and>
     lex_quoted CHR 0x27 CHR 0x5C (quoted CHR 0x27 CHR 0x5C db @ mid) = Some (db, mid) \<and>
     lex_quoted CHR 0x27 CHR 0x5C (drop (length '' AND TABLE_NAME = '') mid) = Some (t, suf))"
  by (intro conjI allI impI; (rule created_named dropped_named read_named load_named keys_named; assumption?))

theorem table_name_is_one_token_witness:
  "names_table ''SELECT * FROM ::'' ''SELECT * FROM ::`a``; DROP` WHERE partition_id() = 3'' ''a`; DROP''
     '' WHERE partition_id() = 3''"
proof -
  have q: "MakeReadResultTableQuery ''a`; DROP'' 3 ''8.5.6'' = Inr ''SELECT * FROM ::`a``; DROP` WHERE partition_id() = 3''"
    by code_simp
  have r: "'' WHERE partition_id() = '' @ int_to_string (uint (3 :: u32)) = '' WHERE partition_id() = 3''" by code_simp
  note read = table_name_is_one_token [THEN conjunct2, THEN conjunct2, THEN conjunct2, THEN conjunct2, THEN conjunct2,
      THEN conjunct2, THEN conjunct1, THEN spec, THEN mp]
  show ?thesis by (rule read [OF q, unfolded r])
qed

text \<open>The sort key of a temporary table is the columns the client orders by and then, unless it
  is among them, the key column, each column once and read back exactly as named.\<close>

theorem sort_key_columns:
  "lex_names (Suc (length cols)) (BuildSortKey cols key) =
     Some (cols @ (if key \<in> set cols then [] else [key]))"
proof (cases "key \<in> set cols")
  case True
  then have "cols \<noteq> []" by auto
  with True show ?thesis by (simp only: BuildSortKey_eq if_True append_Nil2) (rule lex_JoinColumnNames, simp_all)
next
  case False
  then show ?thesis by (simp only: BuildSortKey_eq if_False) (rule lex_JoinColumnNames, simp_all)
qed

text \<open>The server version has no effect on the statement that reads a result table: the alias the
  code means to add for newer servers is never in it.\<close>

theorem version_does_not_matter:
  assumes "small_version v"
  shows "MakeReadResultTableQuery t part (show_version v) =
      Inr (''SELECT * FROM ::'' @ QuotedName t @ '' WHERE partition_id() = '' @ int_to_string (uint part)) \<and>
    MakePointInTimeQuery t '''' key p row True (show_version v) =
      Inr (''SELECT * FROM ::'' @ QuotedName t @ '' WHERE partition_id() = '' @ int_to_string (sint p) @
        '' AND partition_row_id() = '' @ int_to_string (sint row))"
proof -
  have "show_version (Version 7 8 14) = ''7.8.14''" by code_simp
  moreover have "small_version (Version 7 8 14)" by (simp add: small_version_def INT_MAX_def)
  ultimately obtain n where "CompareVersions (show_version v) ''7.8.14'' = Inr n"
    using CompareVersions_show [OF assms, of "Version 7 8 14"] by auto
  then show ?thesis
    by (simp add: MakeReadResultTableQuery_def MakePointInTimeQuery_def)
qed

theorem version_does_not_matter_witness:
  "MakeReadResultTableQuery ''r'' 3 ''8.5.6'' = Inr ''SELECT * FROM ::`r` WHERE partition_id() = 3''"
proof -
  have "show_version (Version 8 5 6) = ''8.5.6''" "small_version (Version 8 5 6)" by code_simp+
  moreover have "''SELECT * FROM ::'' @ QuotedName ''r'' @ '' WHERE partition_id() = '' @ int_to_string 3 =
      ''SELECT * FROM ::`r` WHERE partition_id() = 3''" by code_simp
  ultimately show ?thesis using version_does_not_matter [of "Version 8 5 6" "''r''" 3] by simp
qed

text \<open>
  The reference for the Avro statement: how a column of each type is computed from the variable \<open>?\<close> its field is
  read into (\<open>^\<close> and \<open>#\<close> are the quotes), \<open>None\<close> when the field is the column; the type of the field.
\<close>

definition avro_template :: "bool \<Rightarrow> ColumnType \<Rightarrow> string option" where
  "avro_template zero_is_null t =
     (case t of
        Int64 \<Rightarrow> Some '' = IF(? != -9223372036854775808,?,NULL)''
      | Int32 \<Rightarrow> Some '' = IF(? != -2147483648,?,NULL)''
      | DateTime \<Rightarrow> Some '' = ADDDATE(#1960-01-01#, INTERVAL ? MICROSECOND)''
      | Date \<Rightarrow> Some '' = ADDDATE(#1960-01-01#, INTERVAL ? DAY)''
      | Time \<Rightarrow> Some (''= IF(?= -9223372036854775808,NULL,CONCAT(IF(?> 0, ^^, ^-^),'' @
          ''ADDTIME(SEC_TO_TIME(FLOOR(ABS(?/1000000))),CONCAT(^00:00:00.^,LPAD(ABS(?) % 1000000 :> TEXT, 6, ^0^)))))'')
      | Fixed \<Rightarrow> if zero_is_null then Some '' = IF(LENGTH(?) = 0, NULL,?)'' else None
      | Variable \<Rightarrow> if zero_is_null then Some '' = IF(LENGTH(?) = 0, NULL,?)'' else None
      | Double \<Rightarrow> None
      | Unsupported \<Rightarrow> None)"

definition fill_in :: "string \<Rightarrow> string \<Rightarrow> string" where
  "fill_in v template =
     concat (map (\<lambda>c. if c = CHR ''?'' then v else if c = CHR ''^'' then [CHR 0x27] else if c = CHR ''#'' then [CHR 0x22]
       else [c]) template)"

definition avro_kind :: "ColumnType \<Rightarrow> string" where
  "avro_kind t =
     (if t \<in> {Int64, DateTime, Time} then ''long'' else if t \<in> {Int32, Date} then ''int''
      else if t = Double then ''double'' else ''bytes'')"

lemma avro_value_template:
  "avro_template z t = None \<longleftrightarrow> \<not> avro_computed z t"
  "avro_template z t = Some p \<Longrightarrow> avro_value t v = fill_in v p"
  by (cases t; auto simp: avro_template_def avro_computed_def avro_value_def fill_in_def dquote_def apos_def split: if_splits)+

text \<open>One entry per column, in order, and one assignment per column that is computed from a variable.\<close>

definition avro_entry :: "bool \<Rightarrow> nat \<times> Column \<Rightarrow> string" where
  "avro_entry z ic = (case ic of (i, c) \<Rightarrow>
     (if avro_template z (col_type c) = None then QuotedName (col_name c) else ''@var_'' @ nat_to_string i) @
     '' <- %::col_'' @ nat_to_string i)"

definition avro_assignment :: "bool \<Rightarrow> nat \<times> Column \<Rightarrow> string list" where
  "avro_assignment z ic = (case ic of (i, c) \<Rightarrow>
     (case avro_template z (col_type c) of
        None \<Rightarrow> []
      | Some p \<Rightarrow> [QuotedName (col_name c) @ fill_in (''@var_'' @ nat_to_string i) p]))"

definition avro_field :: "nat \<times> Column \<Rightarrow> json" where
  "avro_field ic = (case ic of (i, c) \<Rightarrow>
     JObject [(''name'', JString (''col_'' @ nat_to_string i)), (''type'', JString (avro_kind (col_type c)))])"

definition set_clause :: "string list \<Rightarrow> string" where
  "set_clause as = (if as = [] then '''' else ''SET '' @ sep_by '','' as)"

lemma set_clause_snoc:
  "set_clause (as @ [a]) = set_clause as @ (if set_clause as \<noteq> '''' then '','' else ''SET '') @ a"
  by (simp add: set_clause_def sep_by_snoc)

lemma avro_columns_loop_eq:
  assumes "length es = i"
  shows "avro_columns_loop z i cs (sep_by '','' es, set_clause as) =
    (sep_by '','' (es @ map (avro_entry z) (enumerate i cs)),
     set_clause (as @ concat (map (avro_assignment z) (enumerate i cs))))"
  using assms
proof (induction cs arbitrary: i es as)
  case Nil
  then show ?case by simp
next
  case (Cons c cs)
  let ?e = "avro_entry z (i, c)"
  have entries: "(if i > 0 then sep_by '','' es @ '','' else sep_by '','' es) @ ?e = sep_by '','' (es @ [?e])"
    using Cons.prems sep_by_snoc [of es "'',''" ?e] by (cases es) auto
  note IH = Cons.IH [of "es @ [?e]" "Suc i"]
  show ?case
  proof (cases "avro_template z (col_type c)")
    case (Some p)
    let ?a = "QuotedName (col_name c) @ avro_value (col_type c) (MakeAvroVarName i)"
    have "avro_assignment z (i, c) = [?a]" "avro_computed z (col_type c)"
      "?e = MakeAvroVarName i @ '' <- %::'' @ MakeAvroFieldName i"
      using Some avro_value_template [of z "col_type c"]
      by (auto simp: avro_assignment_def avro_entry_def MakeAvroVarName_def MakeAvroFieldName_def)
    with IH [of "as @ [?a]"] Cons.prems entries set_clause_snoc [of as ?a] show ?thesis
      by (simp add: Let_def)
  next
    case None
    then have "avro_assignment z (i, c) = []" "\<not> avro_computed z (col_type c)"
      "?e = QuotedName (col_name c) @ '' <- %::'' @ MakeAvroFieldName i"
      using avro_value_template(1) [of z "col_type c"]
      by (simp_all add: avro_assignment_def avro_entry_def MakeAvroFieldName_def)
    with IH [of as] Cons.prems entries show ?thesis by (simp add: Let_def)
  qed
qed

lemma avro_fields_eq:
  "avro_fields i cs =
    (if \<exists>c \<in> set cs. col_type c = Unsupported then Inl (S2ClientError S2C_ERROR_INV_ARG ''Unsupported data type: 8'')
     else Inr (map avro_field (enumerate i cs)))"
proof (induction cs arbitrary: i)
  case (Cons c cs)
  then show ?case
    by (cases "col_type c") (auto simp: avro_type_def avro_field_def avro_kind_def MakeAvroFieldName_def)
qed simp

text \<open>C37. The statement of an Avro load, for any schema: a column of an unsupported type is an error. Otherwise it
  names the table, and its two halves agree: the column list maps exactly one field per column, in order, the
  i-th to the field \<open>col_i\<close> the schema document declares in its i-th place, with the Avro type of the column's,
  either directly or through the variable \<open>@var_i\<close>; and for each such variable, in order, the statement assigns
  the column the value its type is converted by (the sentinels of the integers are nulls, dates count from
  1960, times become intervals, and empty strings are nulls when the caller wants that).\<close>

theorem avro_load_statement:
  "MakeLoadDataQuery json_dumps table schema AVRO z =
    (if \<exists>c \<in> set schema. col_type c = Unsupported
     then Inl (S2ClientError S2C_ERROR_INV_ARG ''Unsupported data type: 8'')
     else Inr (''LOAD DATA LOCAL INFILE '' @ apos @ ''placeholder'' @ apos @ '' INTO TABLE '' @ QuotedName table @
       ''  FORMAT AVRO ('' @ sep_by '','' (map (avro_entry z) (enumerate 0 schema)) @ '') SCHEMA '' @
       apos @ json_dumps (JObject [(''type'', JString ''record''), (''name'', JString ''schema_name''),
         (''fields'', JArray (map avro_field (enumerate 0 schema)))]) @ apos @ '' '' @
       set_clause (concat (map (avro_assignment z) (enumerate 0 schema)))))"
proof -
  have "MakeColumnsAvro schema z =
      (sep_by '','' (map (avro_entry z) (enumerate 0 schema)),
       set_clause (concat (map (avro_assignment z) (enumerate 0 schema))))"
    using avro_columns_loop_eq [of "[]" 0 z schema "[]"]
    by (simp add: MakeColumnsAvro_def set_clause_def)
  then show ?thesis
    by (simp add: MakeLoadDataQuery_def MakeAvroJsonSchema_def avro_fields_eq Let_def)
qed

theorem avro_load_statement_witness:
  "MakeLoadDataQuery (\<lambda>j. ''{}'') ''t'' [\<lparr>col_type = Int32, col_size = 4, col_name = ''a''\<rparr>,
     \<lparr>col_type = Double, col_size = 8, col_name = ''b''\<rparr>] AVRO False =
   Inr (''LOAD DATA LOCAL INFILE '' @ apos @ ''placeholder'' @ apos @ '' INTO TABLE `t`  FORMAT AVRO ('' @
     ''@var_0 <- %::col_0,`b` <- %::col_1) SCHEMA '' @ apos @ ''{}'' @ apos @
     '' SET `a` = IF(@var_0 != -2147483648,@var_0,NULL)'')"
proof -
  let ?s = "[\<lparr>col_type = Int32, col_size = 4, col_name = ''a''\<rparr>, \<lparr>col_type = Double, col_size = 8, col_name = ''b''\<rparr>]"
  have "sep_by '','' (map (avro_entry False) (enumerate 0 ?s)) = ''@var_0 <- %::col_0,`b` <- %::col_1''"
    "set_clause (concat (map (avro_assignment False) (enumerate 0 ?s))) = ''SET `a` = IF(@var_0 != -2147483648,@var_0,NULL)''"
    "QuotedName ''t'' = ''`t`''"
    by code_simp+
  then show ?thesis unfolding avro_load_statement by simp
qed

end
