(* ===== verification/ThreadSafeQueue.thy ===== *)
theory ThreadSafeQueue
  imports Utils Hdat_Chunk
begin

text \<open>
  The interface \<^verbatim>\<open>ThreadSafeQueue\<close> (\<^verbatim>\<open>queue/thread_safe_queue.hpp\<close>) and the threads that use a queue.
  Every operation holds the queue's mutex except while it waits on a condition variable, so what
  other threads can observe are its critical sections: from taking the mutex (at the call, or on
  waking up) to the next wait or the return. A section is a function on the queue's state; a
  system of threads steps from section to section in any order.
\<close>

section \<open>Critical sections\<close>

text \<open>\<open>EmptyCV\<close> and \<open>FullCV\<close> are the condition variables of the simple queue; the batch queue
  has \<open>EmptyCV\<close>, \<open>BusyCV\<close> and one \<open>DataCV\<close> per producer.\<close>

datatype cv = EmptyCV | FullCV | BusyCV | DataCV nat

datatype notice = NotifyOne cv | NotifyAll cv

datatype 'r outcome = Wait cv | Return 'r | Throw fault

type_synonym ('r, 'q) section_result = "'r outcome \<times> 'q \<times> notice list"

datatype 'v qop = QPush 'v | QPop | QGet int int | QGetLoop int int | QDelete int

text \<open>
  A thread that wakes up goes on in the loop around its wait. For \<open>Push\<close> and \<open>Pop\<close> the loop is
  all there is before the rest; \<open>Get\<close> checks something before its loop, once, so what is left of
  it after a wait is an operation of its own, \<open>QGetLoop\<close>.
\<close>

fun resumed :: "'v qop \<Rightarrow> 'v qop" where
  "resumed (QGet p i) = QGetLoop p i"
| "resumed op = op"

text \<open>What an operation returns: a popped or fetched value, or nothing.\<close>

type_synonym 'v answer = "'v option"

section \<open>Threads\<close>

text \<open>
  A thread inside the queue either waits on a condition variable or has been woken and will take
  the mutex again (\<open>ready\<close>). The log lists the sections that ended in a return or an exception,
  oldest first.
\<close>

record ('v, 'q) sys =
  sys_q :: 'q
  sys_wait :: "(nat \<times> 'v qop \<times> cv) list"
  sys_ready :: "(nat \<times> 'v qop) list"
  sys_log :: "(nat \<times> 'v qop \<times> 'v answer outcome) list"

definition inside :: "('v, 'q) sys \<Rightarrow> nat set" where
  "inside s = fst ` set (sys_wait s) \<union> fst ` set (sys_ready s)"

text \<open>\<open>notify_one\<close> wakes some thread that waits on the variable, if there is one; \<open>notify_all\<close>
  wakes all of them.\<close>

inductive notified :: "notice list \<Rightarrow> ('v, 'q) sys \<Rightarrow> ('v, 'q) sys \<Rightarrow> bool" where
  notified_Nil: "notified [] s s"
| notified_none: "\<forall>(t, op, c') \<in> set (sys_wait s). c' \<noteq> c \<Longrightarrow> notified ns s s' \<Longrightarrow>
    notified (NotifyOne c # ns) s s'"
| notified_one: "sys_wait s = xs @ (t, op, c) # ys \<Longrightarrow>
    notified ns (s\<lparr>sys_wait := xs @ ys, sys_ready := sys_ready s @ [(t, op)]\<rparr>) s' \<Longrightarrow>
    notified (NotifyOne c # ns) s s'"
| notified_all:
    "notified ns (s\<lparr>sys_wait := filter (\<lambda>(t, op, c'). c' \<noteq> c) (sys_wait s),
       sys_ready := sys_ready s @ map (\<lambda>(t, op, c'). (t, op)) (filter (\<lambda>(t, op, c'). c' = c) (sys_wait s))\<rparr>) s' \<Longrightarrow>
    notified (NotifyAll c # ns) s s'"

inductive_cases notified_NilE: "notified [] s s'"
inductive_cases notified_OneE: "notified (NotifyOne c # ns) s s'"
inductive_cases notified_AllE: "notified (NotifyAll c # ns) s s'"

text \<open>The end of a section: the thread leaves the mutex waiting or done, and notifications take
  effect.\<close>

definition ended :: "nat \<Rightarrow> 'v qop \<Rightarrow> 'v answer outcome \<Rightarrow> 'q \<Rightarrow> ('v, 'q) sys \<Rightarrow> ('v, 'q) sys" where
  "ended t op r q' s =
     (case r of
        Wait c \<Rightarrow> s\<lparr>sys_q := q', sys_wait := sys_wait s @ [(t, op, c)]\<rparr>
      | _ \<Rightarrow> s\<lparr>sys_q := q', sys_log := sys_log s @ [(t, op, r)]\<rparr>)"

text \<open>
  One step of the system: a thread calls an operation, a woken thread takes the mutex and runs the
  section again from the loop around the wait, or a waiting thread wakes up for no reason, as the
  standard allows.
\<close>

inductive sys_step ::
  "('v qop \<Rightarrow> 'q \<Rightarrow> ('v answer, 'q) section_result) \<Rightarrow> ('v, 'q) sys \<Rightarrow> ('v, 'q) sys \<Rightarrow> bool"
  for sec where
  step_call: "t \<notin> inside s \<Longrightarrow> \<forall>p i. op \<noteq> QGetLoop p i \<Longrightarrow> sec op (sys_q s) = (r, q', ns) \<Longrightarrow>
    notified ns (ended t op r q' s) s' \<Longrightarrow> sys_step sec s s'"
| step_resume: "sys_ready s = xs @ (t, op) # ys \<Longrightarrow> sec (resumed op) (sys_q s) = (r, q', ns) \<Longrightarrow>
    notified ns (ended t op r q' (s\<lparr>sys_ready := xs @ ys\<rparr>)) s' \<Longrightarrow> sys_step sec s s'"
| step_spurious: "sys_wait s = xs @ (t, op, c) # ys \<Longrightarrow>
    sys_step sec s (s\<lparr>sys_wait := xs @ ys, sys_ready := sys_ready s @ [(t, op)]\<rparr>)"

inductive sys_reachable ::
  "('v qop \<Rightarrow> 'q \<Rightarrow> ('v answer, 'q) section_result) \<Rightarrow> 'q \<Rightarrow> ('v, 'q) sys \<Rightarrow> bool"
  for sec q0 where
  reach_init: "sys_reachable sec q0 \<lparr>sys_q = q0, sys_wait = [], sys_ready = [], sys_log = []\<rparr>"
| reach_step: "sys_reachable sec q0 s \<Longrightarrow> sys_step sec s s' \<Longrightarrow> sys_reachable sec q0 s'"

lemma notified_frame:
  "notified ns s s' \<Longrightarrow> sys_q s' = sys_q s \<and> sys_log s' = sys_log s"
  by (induction rule: notified.induct) auto

lemma ended_simps [simp]:
  "sys_q (ended t op r q' s) = q'" "sys_ready (ended t op r q' s) = sys_ready s"
  by (auto simp: ended_def split: outcome.split)

text \<open>Notifications nobody waits for have no effect.\<close>

lemma notified_idle:
  "\<forall>n \<in> set ns. \<forall>(t, op, c) \<in> set (sys_wait s). n \<noteq> NotifyOne c \<and> n \<noteq> NotifyAll c \<Longrightarrow> notified ns s s"
proof (induction ns)
  case (Cons n ns)
  then have rest: "notified ns s s" by simp
  show ?case
  proof (cases n)
    case (NotifyOne c)
    with Cons.prems rest show ?thesis by (auto intro!: notified_none)
  next
    case (NotifyAll c)
    then have "filter (\<lambda>(t, op, c'). c' \<noteq> c) (sys_wait s) = sys_wait s"
      "filter (\<lambda>(t, op, c'). c' = c) (sys_wait s) = []"
      using Cons.prems by (auto simp: filter_id_conv filter_empty_conv)
    with rest show ?thesis unfolding NotifyAll by (intro notified_all) simp
  qed
qed (rule notified_Nil)

lemma step_call_idle:
  assumes "sec op (sys_q s) = (r, q', ns)" "t \<notin> inside s" "\<forall>p i. op \<noteq> QGetLoop p i" "s' = ended t op r q' s"
    and "\<forall>n \<in> set ns. \<forall>(t, op, c) \<in> set (sys_wait s'). n \<noteq> NotifyOne c \<and> n \<noteq> NotifyAll c"
  shows "sys_step sec s s'"
  using step_call [where sec = sec, OF assms(2,3,1)] notified_idle [OF assms(5)] assms(4) by blast

text \<open>What was pushed and what was popped, in the order of the log.\<close>

fun pushed :: "(nat \<times> 'v qop \<times> 'v answer outcome) list \<Rightarrow> 'v list" where
  "pushed [] = []"
| "pushed ((t, QPush v, Return a) # l) = v # pushed l"
| "pushed (_ # l) = pushed l"

fun popped :: "(nat \<times> 'v qop \<times> 'v answer outcome) list \<Rightarrow> 'v list" where
  "popped [] = []"
| "popped ((t, QPop, Return (Some v)) # l) = v # popped l"
| "popped (_ # l) = popped l"

lemma pushed_append [simp]: "pushed (l @ l') = pushed l @ pushed l'"
  by (induction l rule: pushed.induct) auto

lemma popped_append [simp]: "popped (l @ l') = popped l @ popped l'"
  by (induction l rule: popped.induct) auto

section \<open>The interface\<close>

text \<open>
  What both queues promise to the readers that push and the consumers that pop: they hold a list of
  values; \<open>Push\<close> adds at the end, \<open>Pop\<close> takes from the front, waits only when the queue is empty
  and some producer is left, and throws \<open>out_of_range\<close> when it is empty and none is left.
\<close>

locale thread_safe_queue =
  fixes sec :: "'v qop \<Rightarrow> 'q \<Rightarrow> ('v answer, 'q) section_result"
    and contents :: "'q \<Rightarrow> 'v list"
    and producers_left :: "'q \<Rightarrow> bool"
    and good :: "'q \<Rightarrow> bool"
  assumes push_return: "good q \<Longrightarrow> sec (QPush v) q = (Return a, q', ns) \<Longrightarrow>
      good q' \<and> contents q' = contents q @ [v] \<and> producers_left q' = producers_left q"
    and push_other: "good q \<Longrightarrow> sec (QPush v) q = (r, q', ns) \<Longrightarrow> \<forall>a. r \<noteq> Return a \<Longrightarrow> q' = q"
    and pop_return: "good q \<Longrightarrow> sec QPop q = (Return a, q', ns) \<Longrightarrow>
      good q' \<and> (\<exists>v. a = Some v \<and> contents q = v # contents q') \<and> producers_left q' = producers_left q"
    and pop_wait: "good q \<Longrightarrow> sec QPop q = (Wait c, q', ns) \<Longrightarrow>
      q' = q \<and> contents q = [] \<and> producers_left q"
    and pop_throw: "good q \<Longrightarrow> sec QPop q = (Throw e, q', ns) \<Longrightarrow>
      q' = q \<and> contents q = [] \<and> \<not> producers_left q \<and> e = OutOfRange ''Queue is empty''"
    and delete_keeps: "good q \<Longrightarrow> sec (QDelete p) q = (r, q', ns) \<Longrightarrow>
      good q' \<and> contents q' = contents q"
    and get_wait: "good q \<Longrightarrow> sec (QGet p i) q = (Wait c, q', ns) \<Longrightarrow> q' = q"
    and get_loop_wait: "good q \<Longrightarrow> sec (QGetLoop p i) q = (Wait c, q', ns) \<Longrightarrow> q' = q"
begin

text \<open>No value is lost, duplicated or reordered, however the threads interleave, as long as
  values are taken by \<open>Pop\<close>.\<close>

definition no_get :: "(nat \<times> 'v qop \<times> 'v answer outcome) list \<Rightarrow> bool" where
  "no_get l \<longleftrightarrow> (\<forall>(t, op, r) \<in> set l. \<forall>p i. op \<noteq> QGet p i \<and> op \<noteq> QGetLoop p i)"

text \<open>The effect of one section on the contents and the log, unless it ends a \<open>Get\<close>.\<close>

lemma section_contents:
  assumes "good (sys_q s)" "sec op' (sys_q s) = (r, q', ns)" "op' = op \<or> op' = resumed op"
    and "no_get (sys_log (ended t op r q' s))"
    and "contents q0 @ pushed (sys_log s) = popped (sys_log s) @ contents (sys_q s)"
  shows "good q' \<and>
    contents q0 @ pushed (sys_log (ended t op r q' s)) = popped (sys_log (ended t op r q' s)) @ contents q'"
proof (cases op)
  case (QPush v)
  show ?thesis
  proof (cases "\<exists>a. r = Return a")
    case True
    then show ?thesis
      using push_return [OF assms(1)] assms(2,3,5) QPush by (auto simp: ended_def)
  next
    case False
    then have "q' = sys_q s" using push_other [OF assms(1)] assms(2,3) QPush by auto
    with False assms(1,5) QPush show ?thesis by (cases r) (auto simp: ended_def)
  qed
next
  case QPop
  then have op': "op' = QPop" using assms(3) by auto
  show ?thesis
  proof (cases r)
    case (Wait c)
    with pop_wait [OF assms(1)] assms QPop op' show ?thesis by (auto simp: ended_def)
  next
    case (Return a)
    with pop_return [OF assms(1)] assms(2) op'
    obtain v where "a = Some v" "contents (sys_q s) = v # contents q'" "good q'" by blast
    with Return assms(5) QPop show ?thesis by (simp add: ended_def)
  next
    case (Throw e)
    with pop_throw [OF assms(1)] assms QPop op' show ?thesis by (auto simp: ended_def)
  qed
next
  case (QGet p i)
  then obtain c where "r = Wait c"
    using assms(4) by (cases r) (auto simp: ended_def no_get_def)
  then have "q' = sys_q s"
    using get_wait [OF assms(1)] get_loop_wait [OF assms(1)] assms(2,3) QGet by auto
  with \<open>r = Wait c\<close> assms(1,5) show ?thesis by (simp add: ended_def)
next
  case (QGetLoop p i)
  then obtain c where "r = Wait c"
    using assms(4) by (cases r) (auto simp: ended_def no_get_def)
  then have "q' = sys_q s" using get_loop_wait [OF assms(1)] assms(2,3) QGetLoop by auto
  with \<open>r = Wait c\<close> assms(1,5) show ?thesis by (simp add: ended_def)
next
  case (QDelete p)
  with delete_keeps [OF assms(1)] assms(2,3,5) show ?thesis
    by (cases r) (auto simp: ended_def)
qed

lemma log_grows: "no_get (sys_log (ended t op r q' s)) \<Longrightarrow> no_get (sys_log s)"
  by (cases r) (auto simp: ended_def no_get_def)

lemma step_contents:
  assumes "sys_step sec s s'" "no_get (sys_log s')"
    and "no_get (sys_log s) \<Longrightarrow> good (sys_q s) \<and> contents q0 @ pushed (sys_log s) = popped (sys_log s) @ contents (sys_q s)"
  shows "good (sys_q s') \<and> contents q0 @ pushed (sys_log s') = popped (sys_log s') @ contents (sys_q s')"
  using assms(1)
proof cases
  case (step_call t op r q' ns)
  note f = notified_frame [OF step_call(4)]
  then have "no_get (sys_log (ended t op r q' s))" using assms(2) by simp
  with section_contents [OF _ step_call(3), of op t q0] assms(3) log_grows [of t op r q' s] f show ?thesis by simp
next
  case (step_resume xs t op ys r q' ns)
  let ?s = "s\<lparr>sys_ready := xs @ ys\<rparr>"
  note f = notified_frame [OF step_resume(3)]
  then have "no_get (sys_log (ended t op r q' ?s))" using assms(2) by simp
  with section_contents [of ?s "resumed op" r q' ns op t q0] step_resume(2) assms(3) log_grows [of t op r q' ?s] f
  show ?thesis by simp
next
  case (step_spurious xs t op c ys)
  with assms(2,3) show ?thesis by simp
qed

lemma reachable_contents:
  assumes "sys_reachable sec q0 s" "good q0"
  shows "no_get (sys_log s) \<Longrightarrow>
    good (sys_q s) \<and> contents q0 @ pushed (sys_log s) = popped (sys_log s) @ contents (sys_q s)"
  using assms(1)
proof (induction rule: sys_reachable.induct)
  case reach_init
  with assms(2) show ?case by simp
next
  case (reach_step s s')
  then show ?case using step_contents by blast
qed

end

end
