(* ===== verification/SimpleQueue.thy ===== *)
theory SimpleQueue
  imports ThreadSafeQueue
begin

text \<open>
  The class \<^verbatim>\<open>ThreadSafeSimpleQueue\<close> (\<^verbatim>\<open>queue/thread_safe_simple_queue.hpp\<close>), a bounded queue with
  many producers and consumers, as critical sections; its interpretation of the interface; and
  the invariants of the threads that use it.
\<close>

record 'v SimpleQueue =
  sq_items :: "'v list"
  sq_capacity :: u32
  sq_producers :: u32

definition ThreadSafeSimpleQueue :: "u32 \<Rightarrow> u32 \<Rightarrow> 'v SimpleQueue" where
  "ThreadSafeSimpleQueue capacity producers =
     \<lparr>sq_items = [], sq_capacity = capacity, sq_producers = producers\<rparr>"

section \<open>Operations\<close>

definition sq_Push :: "'v \<Rightarrow> 'v SimpleQueue \<Rightarrow> ('v answer, 'v SimpleQueue) section_result" where
  "sq_Push value q =
     (if length (sq_items q) \<ge> unat (sq_capacity q) then (Wait FullCV, q, [])
      else (Return None, q\<lparr>sq_items := sq_items q @ [value]\<rparr>, [NotifyOne EmptyCV]))"

definition sq_Pop :: "'v SimpleQueue \<Rightarrow> ('v answer, 'v SimpleQueue) section_result" where
  "sq_Pop q =
     (case sq_items q of
        [] \<Rightarrow> if sq_producers q \<noteq> 0 then (Wait EmptyCV, q, [])
              else (Throw (OutOfRange ''Queue is empty''), q, [])
      | res # rest \<Rightarrow> (Return (Some res), q\<lparr>sq_items := rest\<rparr>, [NotifyOne FullCV]))"

definition sq_Get :: "int \<Rightarrow> int \<Rightarrow> 'v SimpleQueue \<Rightarrow> ('v answer, 'v SimpleQueue) section_result" where
  "sq_Get producerId valueId q = (Throw AssertionFailed, q, [])"

definition sq_DeleteProducer :: "int \<Rightarrow> 'v SimpleQueue \<Rightarrow> ('v answer, 'v SimpleQueue) section_result" where
  "sq_DeleteProducer producerId q =
     (let q' = q\<lparr>sq_producers := sq_producers q - 1\<rparr> in
      (Return None, q', if sq_producers q' = 0 then [NotifyAll EmptyCV] else []))"

fun simple_sec :: "'v qop \<Rightarrow> 'v SimpleQueue \<Rightarrow> ('v answer, 'v SimpleQueue) section_result" where
  "simple_sec (QPush v) q = sq_Push v q"
| "simple_sec QPop q = sq_Pop q"
| "simple_sec (QGet p i) q = sq_Get p i q"
| "simple_sec (QGetLoop p i) q = sq_Get p i q"
| "simple_sec (QDelete p) q = sq_DeleteProducer p q"

lemmas simple_ops = sq_Push_def sq_Pop_def sq_Get_def sq_DeleteProducer_def

interpretation simple: thread_safe_queue simple_sec sq_items "\<lambda>q. sq_producers q \<noteq> 0" "\<lambda>q. True"
  by unfold_locales
    (auto simp: simple_ops Let_def split: if_splits list.splits)

section \<open>No lost wakeups\<close>

text \<open>Who waits for what, and how many.\<close>

fun is_push :: "'v qop \<Rightarrow> bool" where
  "is_push (QPush v) = True"
| "is_push _ = False"

fun wait_ok :: "nat \<times> 'v qop \<times> cv \<Rightarrow> bool" where
  "wait_ok (t, op, c) \<longleftrightarrow> c = EmptyCV \<and> op = QPop \<or> c = FullCV \<and> is_push op"

definition waits_ok :: "('v, 'q) sys \<Rightarrow> bool" where
  "waits_ok s \<longleftrightarrow> list_all wait_ok (sys_wait s)"

definition waiting_pops :: "('v, 'q) sys \<Rightarrow> nat" where
  "waiting_pops s = length (filter (\<lambda>(t, op, c). c = EmptyCV) (sys_wait s))"

definition waiting_pushes :: "('v, 'q) sys \<Rightarrow> nat" where
  "waiting_pushes s = length (filter (\<lambda>(t, op, c). c = FullCV) (sys_wait s))"

definition ready_pops :: "('v, 'q) sys \<Rightarrow> nat" where
  "ready_pops s = length (filter (\<lambda>(t, op). op = QPop) (sys_ready s))"

definition ready_pushes :: "('v, 'q) sys \<Rightarrow> nat" where
  "ready_pushes s = length (filter (\<lambda>(t, op). is_push op) (sys_ready s))"

lemmas counts = waiting_pops_def waiting_pushes_def ready_pops_def ready_pushes_def

definition simple_inv :: "('v, 'v SimpleQueue) sys \<Rightarrow> bool" where
  "simple_inv s \<longleftrightarrow> waits_ok s \<and>
     (waiting_pops s \<noteq> 0 \<longrightarrow> length (sq_items (sys_q s)) \<le> ready_pops s \<and> sq_producers (sys_q s) \<noteq> 0) \<and>
     (waiting_pushes s \<noteq> 0 \<longrightarrow> unat (sq_capacity (sys_q s)) \<le> length (sq_items (sys_q s)) + ready_pushes s) \<and>
     length (sq_items (sys_q s)) \<le> unat (sq_capacity (sys_q s))"

lemma is_push_iff: "is_push op \<longleftrightarrow> (\<exists>v. op = QPush v)"
  by (cases op) auto

text \<open>The effect of the notifications on the counts.\<close>

lemma notified_one_empty:
  assumes "notified [NotifyOne EmptyCV] s s'" "waits_ok s"
  shows "waits_ok s' \<and> waiting_pushes s' = waiting_pushes s \<and> ready_pushes s' = ready_pushes s \<and>
    (waiting_pops s = 0 \<and> waiting_pops s' = 0 \<and> ready_pops s' = ready_pops s \<or>
     waiting_pops s = Suc (waiting_pops s') \<and> ready_pops s' = Suc (ready_pops s))"
  using assms(1)
proof (rule notified_OneE)
  assume "\<forall>(t, op, c') \<in> set (sys_wait s). c' \<noteq> EmptyCV" "notified [] s s'"
  then show ?thesis
    using assms(2) by (auto elim!: notified_NilE simp: counts filter_empty_conv)
next
  fix xs t op ys
  assume w: "sys_wait s = xs @ (t, op, EmptyCV) # ys"
    and n: "notified [] (s\<lparr>sys_wait := xs @ ys, sys_ready := sys_ready s @ [(t, op)]\<rparr>) s'"
  have "op = QPop" using assms(2) w by (auto simp: waits_ok_def)
  with assms(2) w n show ?thesis
    by (auto elim!: notified_NilE simp: counts waits_ok_def)
qed

lemma notified_one_full:
  assumes "notified [NotifyOne FullCV] s s'" "waits_ok s"
  shows "waits_ok s' \<and> waiting_pops s' = waiting_pops s \<and> ready_pops s' = ready_pops s \<and>
    (waiting_pushes s = 0 \<and> waiting_pushes s' = 0 \<and> ready_pushes s' = ready_pushes s \<or>
     waiting_pushes s = Suc (waiting_pushes s') \<and> ready_pushes s' = Suc (ready_pushes s))"
  using assms(1)
proof (rule notified_OneE)
  assume "\<forall>(t, op, c') \<in> set (sys_wait s). c' \<noteq> FullCV" "notified [] s s'"
  then show ?thesis
    using assms(2) by (auto elim!: notified_NilE simp: counts filter_empty_conv)
next
  fix xs t op ys
  assume w: "sys_wait s = xs @ (t, op, FullCV) # ys"
    and n: "notified [] (s\<lparr>sys_wait := xs @ ys, sys_ready := sys_ready s @ [(t, op)]\<rparr>) s'"
  have "is_push op" using assms(2) w by (auto simp: waits_ok_def)
  with assms(2) w n show ?thesis
    by (auto elim!: notified_NilE simp: counts waits_ok_def)
qed

lemma notified_all_empty:
  assumes "notified [NotifyAll EmptyCV] s s'" "waits_ok s"
  shows "waits_ok s' \<and> waiting_pushes s' = waiting_pushes s \<and> ready_pushes s' = ready_pushes s \<and>
    waiting_pops s' = 0"
proof -
  let ?m = "map (\<lambda>(t, op, c'). (t, op)) (filter (\<lambda>(t, op, c'). c' = EmptyCV) (sys_wait s))"
  have "filter (\<lambda>(t, op). is_push op) ?m = []"
    using assms(2) by (fastforce simp: filter_empty_conv waits_ok_def list_all_iff)
  moreover have "filter (\<lambda>x. (case x of (t, op, c) \<Rightarrow> c \<noteq> EmptyCV) \<and> (case x of (t, op, c) \<Rightarrow> c = FullCV)) (sys_wait s)
      = filter (\<lambda>(t, op, c). c = FullCV) (sys_wait s)"
    by (intro filter_cong) auto
  ultimately show ?thesis
    using assms by (auto elim!: notified_AllE notified_NilE simp: counts waits_ok_def filter_empty_conv list_all_iff)
qed

lemma ended_counts:
  "r = Wait EmptyCV \<Longrightarrow> waiting_pops (ended t op r q' s) = Suc (waiting_pops s) \<and>
     waiting_pushes (ended t op r q' s) = waiting_pushes s \<and>
     (waits_ok (ended t op r q' s) \<longleftrightarrow> waits_ok s \<and> op = QPop)"
  "r = Wait FullCV \<Longrightarrow> waiting_pops (ended t op r q' s) = waiting_pops s \<and>
     waiting_pushes (ended t op r q' s) = Suc (waiting_pushes s) \<and>
     (waits_ok (ended t op r q' s) \<longleftrightarrow> waits_ok s \<and> is_push op)"
  "\<forall>c. r \<noteq> Wait c \<Longrightarrow> waiting_pops (ended t op r q' s) = waiting_pops s \<and>
     waiting_pushes (ended t op r q' s) = waiting_pushes s \<and> (waits_ok (ended t op r q' s) \<longleftrightarrow> waits_ok s)"
  by (auto simp: ended_def counts waits_ok_def split: outcome.splits)

lemma ended_ready [simp]:
  "ready_pops (ended t op r q' s) = ready_pops s"
  "ready_pushes (ended t op r q' s) = ready_pushes s"
  by (simp_all add: counts)

text \<open>
  One section keeps the invariant, also when the thread that runs it was counted among the ready
  ones before (then the counts the invariant speaks of are one larger than after its removal).
\<close>

lemma section_keeps_simple_inv:
  assumes "waits_ok s" "length (sq_items (sys_q s)) \<le> unat (sq_capacity (sys_q s))"
    and pops: "waiting_pops s \<noteq> 0 \<longrightarrow> length (sq_items (sys_q s)) \<le> ready_pops s + (if op = QPop then 1 else 0) \<and>
      sq_producers (sys_q s) \<noteq> 0"
    and pushes: "waiting_pushes s \<noteq> 0 \<longrightarrow>
      unat (sq_capacity (sys_q s)) \<le> length (sq_items (sys_q s)) + ready_pushes s + (if is_push op then 1 else 0)"
    and sec: "simple_sec op' (sys_q s) = (r, q', ns)" and op': "op' = op \<or> op' = resumed op" and n: "notified ns (ended t op r q' s) s'"
  shows "simple_inv s'"
proof -
  let ?q = "sys_q s" and ?e = "ended t op r q' s"
  note fr = notified_frame [OF n]
  show ?thesis
  proof (cases op)
    case (QPush v)
    show ?thesis
    proof (cases "unat (sq_capacity ?q) \<le> length (sq_items ?q)")
      case True
      then have r: "r = Wait FullCV" "q' = ?q" "ns = []" using sec op' QPush by (auto simp: sq_Push_def)
      then have "s' = ?e" using n by (auto elim: notified_NilE)
      with r ended_counts [of r t op q' s] True assms QPush show ?thesis
        by (auto simp: simple_inv_def)
    next
      case False
      then have r: "r = Return None" "q' = ?q\<lparr>sq_items := sq_items ?q @ [v]\<rparr>" "ns = [NotifyOne EmptyCV]"
        using sec op' QPush by (auto simp: sq_Push_def)
      have e: "waits_ok ?e" using ended_counts(3) [of r t op q' s] r assms(1) by simp
      from notified_one_empty [OF n [unfolded r(3)] e] fr r ended_counts [of r t op q' s] False assms QPush
      show ?thesis by (auto simp: simple_inv_def)
    qed
  next
    case QPop
    show ?thesis
    proof (cases "sq_items ?q")
      case (Cons x xs)
      then have r: "r = Return (Some x)" "q' = ?q\<lparr>sq_items := xs\<rparr>" "ns = [NotifyOne FullCV]"
        using sec op' QPop by (auto simp: sq_Pop_def)
      have e: "waits_ok ?e" using ended_counts(3) [of r t op q' s] r assms(1) by simp
      from notified_one_full [OF n [unfolded r(3)] e] fr r ended_counts [of r t op q' s] Cons assms QPop
      show ?thesis by (auto simp: simple_inv_def)
    next
      case Nil
      then have q: "q' = ?q" "ns = []" using sec op' QPop by (auto simp: sq_Pop_def split: if_splits)
      then have "s' = ?e" using n by (auto elim: notified_NilE)
      then show ?thesis
        using q sec op' QPop Nil ended_counts [of r t op q' s] assms
        by (auto simp: simple_inv_def sq_Pop_def split: if_splits)
    qed
  next
    case (QGet p i)
    then have r: "r = Throw AssertionFailed" "q' = ?q" "ns = []" using sec op' by (auto simp: sq_Get_def)
    then have "s' = ?e" using n by (auto elim: notified_NilE)
    with r ended_counts [of r t op q' s] assms QGet show ?thesis by (auto simp: simple_inv_def)
  next
    case (QGetLoop p i)
    then have r: "r = Throw AssertionFailed" "q' = ?q" "ns = []" using sec op' by (auto simp: sq_Get_def)
    then have "s' = ?e" using n by (auto elim: notified_NilE)
    with r ended_counts [of r t op q' s] assms QGetLoop show ?thesis by (auto simp: simple_inv_def)
  next
    case (QDelete p)
    then have r: "r = Return None" "q' = ?q\<lparr>sq_producers := sq_producers ?q - 1\<rparr>"
      "ns = (if sq_producers q' = 0 then [NotifyAll EmptyCV] else [])"
      using sec op' by (auto simp: sq_DeleteProducer_def Let_def)
    have e: "waits_ok ?e" using ended_counts(3) [of r t op q' s] r assms(1) by simp
    show ?thesis
    proof (cases "sq_producers q' = 0")
      case True
      from notified_all_empty [of ?e s'] n True r e fr ended_counts [of r t op q' s] assms QDelete
      show ?thesis by (auto simp: simple_inv_def)
    next
      case False
      then have "s' = ?e" using n r by (auto elim: notified_NilE)
      with r ended_counts [of r t op q' s] assms QDelete False show ?thesis by (auto simp: simple_inv_def)
    qed
  qed
qed

lemma step_keeps_simple_inv:
  assumes "sys_step simple_sec s s'" "simple_inv s"
  shows "simple_inv s'"
  using assms(1)
proof cases
  case (step_call t op r q' ns)
  show ?thesis
    by (rule section_keeps_simple_inv [OF _ _ _ _ step_call(3) _ step_call(4)])
       (use assms(2) in \<open>auto simp: simple_inv_def\<close>)
next
  case (step_resume xs t op ys r q' ns)
  let ?s = "s\<lparr>sys_ready := xs @ ys\<rparr>"
  have "ready_pops s = ready_pops ?s + (if op = QPop then 1 else 0)"
    "ready_pushes s = ready_pushes ?s + (if is_push op then 1 else 0)"
    "waiting_pops ?s = waiting_pops s" "waiting_pushes ?s = waiting_pushes s" "waits_ok ?s = waits_ok s"
    using step_resume(1) by (auto simp: counts waits_ok_def)
  note c = this
  show ?thesis
    by (rule section_keeps_simple_inv [OF _ _ _ _ _ _ step_resume(3)])
       (use c step_resume(2) assms(2) in \<open>auto simp: simple_inv_def\<close>)
next
  case (step_spurious xs t op c ys)
  then have "wait_ok (t, op, c)" using assms(2) by (simp add: simple_inv_def waits_ok_def)
  with step_spurious assms(2) show ?thesis
    by (auto simp: simple_inv_def counts waits_ok_def)
qed

lemma reachable_simple_inv:
  "sys_reachable simple_sec (ThreadSafeSimpleQueue capacity producers) s \<Longrightarrow> simple_inv s"
proof (induction rule: sys_reachable.induct)
  case reach_init
  show ?case by (simp add: simple_inv_def waits_ok_def counts ThreadSafeSimpleQueue_def)
next
  case (reach_step s s')
  then show ?case using step_keeps_simple_inv by blast
qed

lemma step_keeps_capacity:
  assumes "sys_step simple_sec s s'"
  shows "sq_capacity (sys_q s') = sq_capacity (sys_q s)"
proof -
  have sec: "sq_capacity q' = sq_capacity q" if "simple_sec op q = (r, q', ns)" for op q r q' ns
    using that by (cases op) (auto simp: simple_ops Let_def split: if_splits list.splits)
  show ?thesis
    using assms
  proof cases
    case (step_call t op r q' ns)
    then show ?thesis using sec [OF step_call(3)] notified_frame [OF step_call(4)] by simp
  next
    case (step_resume xs t op ys r q' ns)
    then show ?thesis using sec [OF step_resume(2)] notified_frame [OF step_resume(3)] by simp
  qed simp
qed

lemma reachable_capacity:
  "sys_reachable simple_sec (ThreadSafeSimpleQueue capacity producers) s \<Longrightarrow>
   sq_capacity (sys_q s) = capacity"
proof (induction rule: sys_reachable.induct)
  case reach_init
  show ?case by (simp add: ThreadSafeSimpleQueue_def)
next
  case (reach_step s s')
  then show ?case using step_keeps_capacity by metis
qed

section \<open>The contract\<close>

text \<open>An example: a consumer waits on an empty queue until a producer pushes.\<close>

definition example_waiting :: "(nat, nat SimpleQueue) sys" where
  "example_waiting = \<lparr>sys_q = ThreadSafeSimpleQueue 1 1, sys_wait = [(7, QPop, EmptyCV)], sys_ready = [], sys_log = []\<rparr>"

definition example_pushed :: "(nat, nat SimpleQueue) sys" where
  "example_pushed = \<lparr>sys_q = (ThreadSafeSimpleQueue 1 1)\<lparr>sq_items := [5]\<rparr>, sys_wait = [],
     sys_ready = [(7, QPop)], sys_log = [(3, QPush 5, Return None)]\<rparr>"

lemma example_reachable:
  "sys_reachable simple_sec (ThreadSafeSimpleQueue 1 1) example_waiting"
  "sys_reachable simple_sec (ThreadSafeSimpleQueue 1 1) example_pushed"
proof -
  let ?q = "ThreadSafeSimpleQueue 1 1 :: nat SimpleQueue"
  let ?s0 = "\<lparr>sys_q = ?q, sys_wait = [], sys_ready = [], sys_log = []\<rparr>"
  have e: "ended 7 QPop (Wait EmptyCV) ?q ?s0 = example_waiting"
    by (simp add: ended_def example_waiting_def)
  have "sys_step simple_sec ?s0 example_waiting"
  proof (rule step_call [where t = 7 and op = QPop and r = "Wait EmptyCV" and q' = ?q and ns = "[]"])
    show "notified [] (ended 7 QPop (Wait EmptyCV) ?q ?s0) example_waiting"
      unfolding e by (rule notified_Nil)
  qed (simp_all add: inside_def sq_Pop_def ThreadSafeSimpleQueue_def)
  then show w: "sys_reachable simple_sec ?q example_waiting"
    by (rule reach_step [OF reach_init])
  have "sys_step simple_sec example_waiting example_pushed"
  proof (rule step_call [where t = 3 and op = "QPush 5" and r = "Return None"
        and q' = "?q\<lparr>sq_items := [5]\<rparr>" and ns = "[NotifyOne EmptyCV]"])
    show "notified [NotifyOne EmptyCV] (ended 3 (QPush 5) (Return None) (?q\<lparr>sq_items := [5]\<rparr>) example_waiting) example_pushed"
    proof (rule notified_one [where xs = "[]" and ys = "[]" and t = 7 and op = QPop])
      let ?e = "ended 3 (QPush 5) (Return None) (?q\<lparr>sq_items := [5]\<rparr>) example_waiting"
      have "?e\<lparr>sys_wait := [] @ [], sys_ready := sys_ready ?e @ [(7, QPop)]\<rparr> = example_pushed"
        by (simp add: ended_def example_waiting_def example_pushed_def)
      then show "notified [] (?e\<lparr>sys_wait := [] @ [], sys_ready := sys_ready ?e @ [(7, QPop)]\<rparr>) example_pushed"
        by (simp only: notified_Nil)
    qed (simp add: ended_def example_waiting_def)
  qed (simp_all add: inside_def sq_Push_def ThreadSafeSimpleQueue_def example_waiting_def)
  with w show "sys_reachable simple_sec ?q example_pushed"
    by (rule reach_step)
qed

text \<open>C7. The bounded queue is first in, first out, loses nothing and stays within its capacity:
  in every state any number of producers and consumers can reach, the values pushed so far are the
  values popped so far, in the same order, followed by the values still in the queue.\<close>

theorem simple_queue_fifo:
  assumes "sys_reachable simple_sec (ThreadSafeSimpleQueue capacity producers) s"
    and "\<forall>(t, op, r) \<in> set (sys_log s). \<forall>p i. op \<noteq> QGet p i \<and> op \<noteq> QGetLoop p i"
  shows "pushed (sys_log s) = popped (sys_log s) @ sq_items (sys_q s) \<and>
    length (sq_items (sys_q s)) \<le> unat capacity"
proof
  have "simple.no_get (sys_log s)" using assms(2) by (simp add: simple.no_get_def)
  then show "pushed (sys_log s) = popped (sys_log s) @ sq_items (sys_q s)"
    using simple.reachable_contents [OF assms(1)] by (simp add: ThreadSafeSimpleQueue_def)
  show "length (sq_items (sys_q s)) \<le> unat capacity"
    using reachable_simple_inv [OF assms(1)] reachable_capacity [OF assms(1)] by (simp add: simple_inv_def)
qed

theorem simple_queue_fifo_witness:
  "pushed (sys_log example_pushed) = popped (sys_log example_pushed) @ [5]"
  using simple_queue_fifo [OF example_reachable(2)] by (simp add: example_pushed_def)

text \<open>C17. No wakeup is lost: while a consumer waits there are at least as many woken consumers as
  values in the queue, and some producer is left; while a producer waits there are at least as many
  woken producers as free places.\<close>

theorem simple_queue_no_lost_wakeup:
  assumes "sys_reachable simple_sec (ThreadSafeSimpleQueue capacity producers) s"
  shows "(waiting_pops s \<noteq> 0 \<longrightarrow>
      length (sq_items (sys_q s)) \<le> ready_pops s \<and> sq_producers (sys_q s) \<noteq> 0) \<and>
    (waiting_pushes s \<noteq> 0 \<longrightarrow> unat capacity \<le> length (sq_items (sys_q s)) + ready_pushes s)"
  using reachable_simple_inv [OF assms] reachable_capacity [OF assms] by (simp add: simple_inv_def)

theorem simple_queue_no_lost_wakeup_witness:
  "waiting_pops example_waiting = 1 \<and> sq_producers (sys_q example_waiting) \<noteq> 0"
  using simple_queue_no_lost_wakeup [OF example_reachable(1)] by (simp add: example_waiting_def counts)

text \<open>The queue does not deadlock: when no thread in it has been woken, consumers wait only
  for an empty queue that still has a producer, producers wait only for a full one, and the two
  never wait at the same time.\<close>

theorem simple_queue_no_deadlock:
  assumes "sys_reachable simple_sec (ThreadSafeSimpleQueue capacity producers) s"
    and "sys_ready s = []" "0 < unat capacity"
  shows "(waiting_pops s \<noteq> 0 \<longrightarrow>
      sq_items (sys_q s) = [] \<and> sq_producers (sys_q s) \<noteq> 0 \<and> waiting_pushes s = 0) \<and>
    (waiting_pushes s \<noteq> 0 \<longrightarrow> length (sq_items (sys_q s)) = unat capacity \<and> waiting_pops s = 0)"
proof -
  have "ready_pops s = 0" "ready_pushes s = 0" using assms(2) by (simp_all add: counts)
  then show ?thesis
    using reachable_simple_inv [OF assms(1)] reachable_capacity [OF assms(1)] assms(3)
    by (auto simp: simple_inv_def)
qed

theorem simple_queue_no_deadlock_witness:
  "waiting_pops example_waiting = 1 \<and> sq_items (sys_q example_waiting) = [] \<and> waiting_pushes example_waiting = 0"
  using simple_queue_no_deadlock [OF example_reachable(1)] by (simp add: example_waiting_def counts)

end
