(* ===== verification/BatchQueue.thy ===== *)
theory BatchQueue
  imports ThreadSafeQueue "HOL-Library.Signed_Division"
begin

text \<open>
  The class \<^verbatim>\<open>ThreadSafeBatchQueue\<close> (\<^verbatim>\<open>queue/thread_safe_batch_queue.hpp\<close>): the queue of multi-pass
  reading. Each producer has a row of \<open>batchSize\<close> slots; chunk number \<open>i\<close> of a producer goes into
  its slot \<open>i mod batchSize\<close> and must wait until batch \<open>i div batchSize\<close> is current; the next batch
  starts when every active producer has had a whole batch read.
\<close>

record BatchQueue =
  bq_queue :: "Chunk list"
  bq_batchSize :: int
  bq_producerIds :: "int list"
  bq_activeProducers :: int
  bq_active :: "bool list"
  bq_data :: "Chunk option list"
  bq_currentBatch :: int
  bq_readInBatch :: "int list"
  bq_itemsToRead :: int

text \<open>\<open>m_totalProducers\<close>; \<open>m_dataArray\<close> keeps a slot that is not set as \<open>None\<close>.\<close>

definition bq_totalProducers :: "BatchQueue \<Rightarrow> nat" where
  "bq_totalProducers q = length (bq_producerIds q)"

definition ThreadSafeBatchQueue :: "u32 \<Rightarrow> int list \<Rightarrow> BatchQueue" where
  "ThreadSafeBatchQueue batch_size producers =
     \<lparr>bq_queue = [], bq_batchSize = sint batch_size, bq_producerIds = producers,
      bq_activeProducers = int (length producers), bq_active = replicate (length producers) True,
      bq_data = replicate (length producers * nat (sint batch_size)) None, bq_currentBatch = 0,
      bq_readInBatch = replicate (length producers) 0, bq_itemsToRead = 0\<rparr>"

section \<open>Internal operations\<close>

text \<open>
  \<open>m_partitionIdToNumber\<close>: a later producer with the same id overwrites an earlier one, and
  \<open>operator[]\<close> yields 0 for an id that is not there.
\<close>

definition producer_number :: "BatchQueue \<Rightarrow> int \<Rightarrow> nat" where
  "producer_number q p =
     (case map_of (rev (zip (bq_producerIds q) [0..<bq_totalProducers q])) p of
        Some i \<Rightarrow> i | None \<Rightarrow> 0)"

definition isBatchFinished :: "BatchQueue \<Rightarrow> bool" where
  "isBatchFinished q \<longleftrightarrow>
     list_all (\<lambda>i. \<not> (bq_active q ! i \<and> bq_readInBatch q ! i \<noteq> bq_batchSize q)) [0..<bq_totalProducers q] \<and>
     bq_itemsToRead q = 0"

definition targetIndex :: "BatchQueue \<Rightarrow> int \<Rightarrow> int \<Rightarrow> int" where
  "targetIndex q producerId valueId =
     int (producer_number q producerId) * bq_batchSize q + valueId smod bq_batchSize q"

definition resetBatch :: "BatchQueue \<Rightarrow> BatchQueue \<times> notice list" where
  "resetBatch q =
     (q\<lparr>bq_readInBatch := replicate (bq_totalProducers q) 0, bq_currentBatch := bq_currentBatch q + 1\<rparr>,
      NotifyAll BusyCV # map (\<lambda>i. NotifyAll (DataCV i)) [0..<bq_totalProducers q])"

definition readValue :: "nat \<Rightarrow> BatchQueue \<Rightarrow> Chunk option \<times> BatchQueue" where
  "readValue idx q =
     (let i = idx div nat (bq_batchSize q) in
      (bq_data q ! idx,
       q\<lparr>bq_itemsToRead := bq_itemsToRead q - 1, bq_data := (bq_data q)[idx := None],
         bq_readInBatch := (bq_readInBatch q)[i := bq_readInBatch q ! i + 1]\<rparr>))"

text \<open>\<^verbatim>\<open>if (isBatchFinished()) resetBatch();\<close>\<close>

definition finish_batch :: "BatchQueue \<Rightarrow> BatchQueue \<times> notice list" where
  "finish_batch q = (if isBatchFinished q then resetBatch q else (q, []))"

definition in_data :: "BatchQueue \<Rightarrow> int \<Rightarrow> bool" where
  "in_data q idx \<longleftrightarrow> 0 \<le> idx \<and> idx < int (length (bq_data q))"

text \<open>The 64-bit id and the 32-bit partition of a chunk, converted to \<open>int\<close>.\<close>

definition value_id :: "Chunk \<Rightarrow> int" where
  "value_id c = sint (ucast (chunk_id c) :: i32)"

definition value_partition :: "Chunk \<Rightarrow> int" where
  "value_partition c = sint (partition_id c)"

definition value_batch :: "BatchQueue \<Rightarrow> Chunk \<Rightarrow> int" where
  "value_batch q c = sint (ucast (chunk_id c div word_of_int (bq_batchSize q)) :: i32)"

definition value_index :: "BatchQueue \<Rightarrow> Chunk \<Rightarrow> int" where
  "value_index q c = targetIndex q (value_partition c) (value_id c)"

section \<open>Operations\<close>

text \<open>Dividing by a batch size of 0, and an index outside \<open>m_dataArray\<close>, are undefined behaviour.\<close>

definition bq_Push :: "Chunk \<Rightarrow> BatchQueue \<Rightarrow> (Chunk answer, BatchQueue) section_result" where
  "bq_Push val q =
     (if bq_batchSize q = 0 then (Throw UndefinedBehaviour, q, [])
      else let batchNum = value_batch q val; valueIndex = value_index q val in
        if batchNum > bq_currentBatch q then (Wait BusyCV, q, [])
        else if \<not> in_data q valueIndex then (Throw UndefinedBehaviour, q, [])
        else if bq_data q ! nat valueIndex \<noteq> None then (Throw AssertionFailed, q, [])
        else (Return None,
              q\<lparr>bq_data := (bq_data q)[nat valueIndex := Some val], bq_queue := bq_queue q @ [val],
                bq_itemsToRead := bq_itemsToRead q + 1\<rparr>,
              [NotifyOne EmptyCV, NotifyAll (DataCV (producer_number q (value_partition val)))]))"

definition bq_Pop :: "BatchQueue \<Rightarrow> (Chunk answer, BatchQueue) section_result" where
  "bq_Pop q =
     (if bq_itemsToRead q = 0 \<and> bq_activeProducers q \<noteq> 0 then (Wait EmptyCV, q, [])
      else if bq_itemsToRead q = 0 then (Throw (OutOfRange ''Queue is empty''), q, [])
      else case bq_queue q of
        [] \<Rightarrow> (Throw UndefinedBehaviour, q, [])
      | res # rest \<Rightarrow>
          if bq_batchSize q = 0 \<or> \<not> in_data q (value_index q res) then (Throw UndefinedBehaviour, q, [])
          else let (_, q1) = readValue (nat (value_index q res)) q;
                   (q2, ns) = finish_batch (q1\<lparr>bq_queue := rest\<rparr>)
               in (Return (Some res), q2, ns))"

definition bq_GetLoop :: "int \<Rightarrow> int \<Rightarrow> BatchQueue \<Rightarrow> (Chunk answer, BatchQueue) section_result" where
  "bq_GetLoop producerId valueId q =
     (let valueIndex = targetIndex q producerId valueId; n = producer_number q producerId in
      if bq_batchSize q = 0 \<or> \<not> in_data q valueIndex then (Throw UndefinedBehaviour, q, [])
      else if (bq_data q ! nat valueIndex = None \<or> valueId sdiv bq_batchSize q \<noteq> bq_currentBatch q) \<and>
        bq_active q ! n then (Wait (DataCV n), q, [])
      else case bq_data q ! nat valueIndex of
        None \<Rightarrow> (Throw (OutOfRange ''Asking for non-existsent chunk''), q, [])
      | Some _ \<Rightarrow>
          let (res, q1) = readValue (nat valueIndex) q in
          (case bq_queue q1 of
             [] \<Rightarrow> (Throw UndefinedBehaviour, q, [])
           | _ # rest \<Rightarrow>
               let (q2, ns) = finish_batch (q1\<lparr>bq_queue := rest\<rparr>) in (Return res, q2, ns)))"

definition bq_Get :: "int \<Rightarrow> int \<Rightarrow> BatchQueue \<Rightarrow> (Chunk answer, BatchQueue) section_result" where
  "bq_Get producerId valueId q =
     (if bq_itemsToRead q = 0 \<and> bq_activeProducers q = 0
      then (Throw (OutOfRange ''Queue is empty''), q, [])
      else bq_GetLoop producerId valueId q)"

definition bq_DeleteProducer :: "int \<Rightarrow> BatchQueue \<Rightarrow> (Chunk answer, BatchQueue) section_result" where
  "bq_DeleteProducer producerId q =
     (let n = producer_number q producerId in
      if \<not> n < length (bq_active q) then (Throw UndefinedBehaviour, q, [])
      else let q1 = q\<lparr>bq_active := (bq_active q)[n := False], bq_activeProducers := bq_activeProducers q - 1\<rparr>;
               (q2, ns) = finish_batch q1
           in (Return None, q2, ns @ (if bq_activeProducers q2 = 0 then [NotifyAll EmptyCV] else [])))"

fun batch_sec :: "Chunk qop \<Rightarrow> BatchQueue \<Rightarrow> (Chunk answer, BatchQueue) section_result" where
  "batch_sec (QPush v) q = bq_Push v q"
| "batch_sec QPop q = bq_Pop q"
| "batch_sec (QGet p i) q = bq_Get p i q"
| "batch_sec (QGetLoop p i) q = bq_GetLoop p i q"
| "batch_sec (QDelete p) q = bq_DeleteProducer p q"

text \<open>
  \<^verbatim>\<open>FreeBatchData\<close> frees every chunk that is still pushed, as a consumer would, until no producer
  is left. Between two waits it runs over the slots again and again; \<open>first_set\<close> is the inner
  loop and \<open>free_section\<close> one section (it ends when nothing is left to read); \<open>None\<close> stands for
  a section that never ends, because the counter says that something is left and no slot is set. The
  second component is the chunks that were freed.
\<close>

fun first_set :: "nat \<Rightarrow> Chunk option list \<Rightarrow> nat option" where
  "first_set i [] = None"
| "first_set i (x # xs) = (if x \<noteq> None then Some i else first_set (Suc i) xs)"

lemma first_set_Some:
  "first_set i xs = Some k \<Longrightarrow> i \<le> k \<and> k - i < length xs \<and> xs ! (k - i) \<noteq> None"
  by (induction i xs rule: first_set.induct) (auto split: if_splits simp: nth_Cons' Suc_le_eq)

definition set_slots :: "BatchQueue \<Rightarrow> nat" where
  "set_slots q = length (filter (\<lambda>x. x \<noteq> None) (bq_data q))"

lemma bq_data_readValue: "bq_data (snd (readValue idx q)) = (bq_data q)[idx := None]"
  by (simp add: readValue_def Let_def)

lemma bq_data_finish: "bq_data (fst (finish_batch q)) = bq_data q"
  by (simp add: finish_batch_def resetBatch_def)

lemma filter_update_None:
  assumes "i < length xs" "xs ! i \<noteq> None"
  shows "length (filter (\<lambda>x. x \<noteq> None) xs) = Suc (length (filter (\<lambda>x. x \<noteq> None) (xs[i := None])))"
proof -
  have xs: "xs = take i xs @ xs ! i # drop (Suc i) xs" using assms(1) by (simp add: id_take_nth_drop)
  have "filter (\<lambda>x. x \<noteq> None) xs =
      filter (\<lambda>x. x \<noteq> None) (take i xs) @ xs ! i # filter (\<lambda>x. x \<noteq> None) (drop (Suc i) xs)"
    using assms(2) by (subst xs) simp
  moreover have "filter (\<lambda>x. x \<noteq> None) (xs[i := None]) =
      filter (\<lambda>x. x \<noteq> None) (take i xs) @ filter (\<lambda>x. x \<noteq> None) (drop (Suc i) xs)"
    using assms(1) by (simp add: upd_conv_take_nth_drop)
  ultimately show ?thesis by simp
qed

function free_section :: "BatchQueue \<Rightarrow> ((bool, BatchQueue) section_result \<times> Chunk list) option" where
  "free_section q =
     (if bq_itemsToRead q = 0
      then Some ((if bq_activeProducers q = 0 then Return True else Wait EmptyCV, q, []), [])
      else case first_set 0 (bq_data q) of
        None \<Rightarrow> None
      | Some idx \<Rightarrow>
          (case bq_queue q of
             [] \<Rightarrow> Some ((Throw UndefinedBehaviour, q, []), [])
           | _ # rest \<Rightarrow>
               let rv = readValue idx (q\<lparr>bq_queue := rest\<rparr>); fb = finish_batch (snd rv) in
               map_option (\<lambda>((r, q3, ns), freed). ((r, q3, snd fb @ ns), the (fst rv) # freed))
                 (free_section (fst fb))))"
  by pat_completeness auto
termination
proof (relation "measure set_slots")
  fix q idx c rest rv fb
  assume "first_set 0 (bq_data q) = Some idx" "rv = readValue idx (q\<lparr>bq_queue := rest\<rparr>)"
    "fb = finish_batch (snd rv)"
  then show "(fst fb, q) \<in> measure set_slots"
    using first_set_Some [of 0 "bq_data q" idx] filter_update_None [of idx "bq_data q"]
    by (simp add: set_slots_def bq_data_finish bq_data_readValue)
qed simp

declare free_section.simps [simp del]

section \<open>The queue and its slots\<close>

text \<open>
  The invariant: the arrays have their sizes, the chunks in the queue are exactly those in the slots,
  each in the slot of its own index, and \<open>itemsToRead\<close> counts them.
\<close>

definition shape_ok :: "BatchQueue \<Rightarrow> bool" where
  "shape_ok q \<longleftrightarrow> 0 < bq_batchSize q \<and> length (bq_active q) = bq_totalProducers q \<and>
     length (bq_readInBatch q) = bq_totalProducers q \<and>
     int (length (bq_data q)) = int (bq_totalProducers q) * bq_batchSize q"

definition in_slot :: "BatchQueue \<Rightarrow> Chunk \<Rightarrow> bool" where
  "in_slot q c \<longleftrightarrow> in_data q (value_index q c) \<and> bq_data q ! nat (value_index q c) = Some c"

definition batch_good :: "BatchQueue \<Rightarrow> bool" where
  "batch_good q \<longleftrightarrow> shape_ok q \<and> list_all (in_slot q) (bq_queue q) \<and>
     distinct (map (value_index q) (bq_queue q)) \<and> set_slots q = length (bq_queue q) \<and>
     bq_itemsToRead q = int (length (bq_queue q))"

lemma value_index_cong:
  assumes "bq_producerIds q' = bq_producerIds q" "bq_batchSize q' = bq_batchSize q"
  shows "value_index q' = value_index q" "producer_number q' = producer_number q"
    "targetIndex q' = targetIndex q" "bq_totalProducers q' = bq_totalProducers q"
  using assms
  by (simp_all add: fun_eq_iff value_index_def targetIndex_def producer_number_def bq_totalProducers_def)

lemma index_frame [simp]:
  "bq_totalProducers (q\<lparr>bq_queue := x_queue\<rparr>) = bq_totalProducers q"
  "producer_number (q\<lparr>bq_queue := x_queue\<rparr>) = producer_number q"
  "targetIndex (q\<lparr>bq_queue := x_queue\<rparr>) = targetIndex q"
  "value_index (q\<lparr>bq_queue := x_queue\<rparr>) = value_index q"
  "bq_totalProducers (q\<lparr>bq_data := x_data\<rparr>) = bq_totalProducers q"
  "producer_number (q\<lparr>bq_data := x_data\<rparr>) = producer_number q"
  "targetIndex (q\<lparr>bq_data := x_data\<rparr>) = targetIndex q"
  "value_index (q\<lparr>bq_data := x_data\<rparr>) = value_index q"
  "bq_totalProducers (q\<lparr>bq_itemsToRead := x_itemsToRead\<rparr>) = bq_totalProducers q"
  "producer_number (q\<lparr>bq_itemsToRead := x_itemsToRead\<rparr>) = producer_number q"
  "targetIndex (q\<lparr>bq_itemsToRead := x_itemsToRead\<rparr>) = targetIndex q"
  "value_index (q\<lparr>bq_itemsToRead := x_itemsToRead\<rparr>) = value_index q"
  "bq_totalProducers (q\<lparr>bq_active := x_active\<rparr>) = bq_totalProducers q"
  "producer_number (q\<lparr>bq_active := x_active\<rparr>) = producer_number q"
  "targetIndex (q\<lparr>bq_active := x_active\<rparr>) = targetIndex q"
  "value_index (q\<lparr>bq_active := x_active\<rparr>) = value_index q"
  "bq_totalProducers (q\<lparr>bq_activeProducers := x_activeProducers\<rparr>) = bq_totalProducers q"
  "producer_number (q\<lparr>bq_activeProducers := x_activeProducers\<rparr>) = producer_number q"
  "targetIndex (q\<lparr>bq_activeProducers := x_activeProducers\<rparr>) = targetIndex q"
  "value_index (q\<lparr>bq_activeProducers := x_activeProducers\<rparr>) = value_index q"
  "bq_totalProducers (q\<lparr>bq_readInBatch := x_readInBatch\<rparr>) = bq_totalProducers q"
  "producer_number (q\<lparr>bq_readInBatch := x_readInBatch\<rparr>) = producer_number q"
  "targetIndex (q\<lparr>bq_readInBatch := x_readInBatch\<rparr>) = targetIndex q"
  "value_index (q\<lparr>bq_readInBatch := x_readInBatch\<rparr>) = value_index q"
  "bq_totalProducers (q\<lparr>bq_currentBatch := x_currentBatch\<rparr>) = bq_totalProducers q"
  "producer_number (q\<lparr>bq_currentBatch := x_currentBatch\<rparr>) = producer_number q"
  "targetIndex (q\<lparr>bq_currentBatch := x_currentBatch\<rparr>) = targetIndex q"
  "value_index (q\<lparr>bq_currentBatch := x_currentBatch\<rparr>) = value_index q"
  by (simp_all add: fun_eq_iff value_index_def targetIndex_def producer_number_def bq_totalProducers_def)

lemma in_slot_cong:
  assumes "bq_producerIds q' = bq_producerIds q" "bq_batchSize q' = bq_batchSize q" "bq_data q' = bq_data q"
  shows "in_slot q' = in_slot q" "set_slots q' = set_slots q"
  using value_index_cong(1) [OF assms(1,2)] assms(3)
  by (simp_all add: fun_eq_iff in_slot_def in_data_def set_slots_def)

text \<open>The fields the batch bookkeeping does not touch.\<close>

lemma finish_batch_frame:
  assumes "finish_batch q = (q', ns)"
  shows "bq_queue q' = bq_queue q" "bq_data q' = bq_data q" "bq_producerIds q' = bq_producerIds q"
    "bq_batchSize q' = bq_batchSize q" "bq_itemsToRead q' = bq_itemsToRead q"
    "bq_active q' = bq_active q" "bq_activeProducers q' = bq_activeProducers q"
    "length (bq_readInBatch q) = bq_totalProducers q \<Longrightarrow> length (bq_readInBatch q') = bq_totalProducers q"
  using assms by (auto simp: finish_batch_def resetBatch_def split: if_splits)

lemma finish_batch_good:
  assumes "finish_batch q = (q', ns)" "batch_good q"
  shows "batch_good q'"
proof -
  note f = finish_batch_frame [OF assms(1)]
  note c = value_index_cong [OF f(3,4)] in_slot_cong [OF f(3,4,2)]
  have "shape_ok q'"
    using assms(2) f(8) unfolding batch_good_def shape_ok_def f(2,4,6) c(4) by blast
  then show ?thesis
    using assms(2) unfolding batch_good_def f(1,5) c by simp
qed

lemma push_keeps_good:
  assumes "batch_good q" "bq_Push v q = (Return a, q', ns)"
  shows "batch_good q' \<and> bq_queue q' = bq_queue q @ [v] \<and> bq_activeProducers q' = bq_activeProducers q"
proof -
  let ?i = "nat (value_index q v)"
  have i: "in_data q (value_index q v)" "bq_data q ! ?i = None" "?i < length (bq_data q)"
    and q': "q' = q\<lparr>bq_data := (bq_data q)[?i := Some v], bq_queue := bq_queue q @ [v],
                bq_itemsToRead := bq_itemsToRead q + 1\<rparr>"
    using assms(2) by (auto simp: bq_Push_def Let_def in_data_def split: if_splits)
  have c: "value_index q' = value_index q" "bq_totalProducers q' = bq_totalProducers q"
    by (simp_all add: q')
  have other: "value_index q w \<noteq> value_index q v" if "w \<in> set (bq_queue q)" for w
    using assms(1) that i by (auto simp: batch_good_def list_all_iff in_slot_def)
  have "in_slot q' w" if "w \<in> set (bq_queue q)" for w
  proof -
    have "in_slot q w" using assms(1) that by (simp add: batch_good_def list_all_iff)
    moreover have "nat (value_index q w) \<noteq> ?i"
      using \<open>in_slot q w\<close> other [OF that] i by (auto simp: in_slot_def in_data_def)
    ultimately show ?thesis by (simp add: in_slot_def c in_data_def) (simp add: q')
  qed
  moreover have "in_slot q' v" using i by (simp add: in_slot_def c in_data_def q')
  moreover have "set_slots q' = Suc (set_slots q)"
    using filter_update_None [of ?i "(bq_data q)[?i := Some v]"] i list_update_id [of "bq_data q" ?i]
    by (simp add: set_slots_def q')
  moreover have "value_index q v \<notin> value_index q ` set (bq_queue q)"
    using other by fastforce
  then have "distinct (map (value_index q') (bq_queue q'))"
    using assms(1) by (simp add: batch_good_def c) (simp add: q')
  ultimately show ?thesis
    using assms(1) c by (auto simp: batch_good_def shape_ok_def list_all_iff q')
qed

lemma value_index_bound:
  assumes "shape_ok q" "in_data q i"
  shows "nat i < length (bq_data q)" "nat i div nat (bq_batchSize q) < bq_totalProducers q"
proof -
  show n: "nat i < length (bq_data q)" using assms(2) by (auto simp: in_data_def)
  have "length (bq_data q) = bq_totalProducers q * nat (bq_batchSize q)"
    using assms(1) unfolding shape_ok_def by (metis int_nat_eq nat_int nat_mult_distrib of_nat_0_le_iff)
  with n show "nat i div nat (bq_batchSize q) < bq_totalProducers q"
    by (simp add: less_mult_imp_div_less)
qed

text \<open>Taking the value out of a slot, with the front of the queue when that is the value.\<close>

lemma read_front_good:
  assumes "batch_good q" "bq_queue q = c # rest" "readValue (nat (value_index q c)) q = (r, q1)"
  shows "r = Some c \<and> batch_good (q1\<lparr>bq_queue := rest\<rparr>) \<and> bq_activeProducers q1 = bq_activeProducers q"
proof -
  let ?i = "nat (value_index q c)" and ?q = "q1\<lparr>bq_queue := rest\<rparr>"
  have c: "in_slot q c" "shape_ok q" using assms(1,2) by (simp_all add: batch_good_def)
  have i: "?i < length (bq_data q)" "bq_data q ! ?i = Some c" "0 \<le> value_index q c"
    using c value_index_bound [OF c(2)] by (auto simp: in_slot_def in_data_def)
  have q1: "r = Some c" "bq_data q1 = (bq_data q)[?i := None]" "bq_itemsToRead q1 = bq_itemsToRead q - 1"
    "bq_producerIds q1 = bq_producerIds q" "bq_batchSize q1 = bq_batchSize q"
    "bq_active q1 = bq_active q" "length (bq_readInBatch q1) = length (bq_readInBatch q)"
    "bq_activeProducers q1 = bq_activeProducers q"
    using assms(3) i by (auto simp: readValue_def Let_def)
  have cong: "value_index q1 = value_index q" "bq_totalProducers q1 = bq_totalProducers q"
    by (rule value_index_cong; simp add: q1)+
  have "in_slot ?q w" if "w \<in> set rest" for w
  proof -
    have w: "in_slot q w" using assms(1,2) that by (simp add: batch_good_def list_all_iff)
    have "value_index q w \<in> value_index q ` set rest" "value_index q c \<notin> value_index q ` set rest"
      using assms(1,2) that by (simp_all add: batch_good_def)
    then have "nat (value_index q w) \<noteq> ?i"
      using w i(3) unfolding in_slot_def in_data_def by (metis nat_eq_iff)
    with w show ?thesis by (simp add: in_slot_def cong in_data_def q1)
  qed
  moreover have "set_slots q = Suc (set_slots ?q)"
    using filter_update_None [of ?i "bq_data q"] i by (simp add: set_slots_def q1)
  moreover have "shape_ok ?q" using c(2) cong by (simp add: shape_ok_def q1)
  ultimately show ?thesis
    using assms(1,2) q1 cong by (auto simp: batch_good_def list_all_iff)
qed

lemma pop_keeps_good:
  assumes "batch_good q" "bq_Pop q = (Return a, q', ns)"
  shows "batch_good q' \<and> (\<exists>v. a = Some v \<and> bq_queue q = v # bq_queue q') \<and>
    bq_activeProducers q' = bq_activeProducers q"
proof -
  obtain c rest where q: "bq_queue q = c # rest"
    using assms(2) by (auto simp: bq_Pop_def split: if_splits list.splits)
  obtain r q1 where rv: "readValue (nat (value_index q c)) q = (r, q1)" by fastforce
  obtain q2 ns2 where fb: "finish_batch (q1\<lparr>bq_queue := rest\<rparr>) = (q2, ns2)" by fastforce
  have res: "a = Some c" "q' = q2"
    using assms(2) q rv fb by (auto simp: bq_Pop_def split: if_splits)
  note g = read_front_good [OF assms(1) q rv]
  from finish_batch_good [OF fb] finish_batch_frame(1,7) [OF fb] g q res show ?thesis by simp
qed

lemma pop_of_good:
  assumes "batch_good q"
  shows "bq_queue q = [] \<Longrightarrow> bq_Pop q =
      (if bq_activeProducers q \<noteq> 0 then (Wait EmptyCV, q, []) else (Throw (OutOfRange ''Queue is empty''), q, []))"
    and "bq_queue q \<noteq> [] \<Longrightarrow> \<exists>a q' ns. bq_Pop q = (Return a, q', ns)"
proof -
  show "bq_queue q = [] \<Longrightarrow> bq_Pop q =
      (if bq_activeProducers q \<noteq> 0 then (Wait EmptyCV, q, []) else (Throw (OutOfRange ''Queue is empty''), q, []))"
    using assms by (simp add: batch_good_def bq_Pop_def)
  assume "bq_queue q \<noteq> []"
  then obtain c rest where q: "bq_queue q = c # rest" by (cases "bq_queue q") auto
  have "in_data q (value_index q c)" "bq_batchSize q \<noteq> 0" "bq_itemsToRead q \<noteq> 0"
    using assms q by (auto simp: batch_good_def in_slot_def shape_ok_def)
  then show "\<exists>a q' ns. bq_Pop q = (Return a, q', ns)"
    using q by (simp add: bq_Pop_def split: prod.split)
qed

lemma delete_keeps_good:
  assumes "batch_good q" "bq_DeleteProducer p q = (r, q', ns)"
  shows "batch_good q' \<and> bq_queue q' = bq_queue q"
proof (cases "producer_number q p < length (bq_active q)")
  case True
  let ?q1 = "q\<lparr>bq_active := (bq_active q)[producer_number q p := False],
      bq_activeProducers := bq_activeProducers q - 1\<rparr>"
  obtain q2 ns2 where fb: "finish_batch ?q1 = (q2, ns2)" by fastforce
  have "q' = q2" using assms(2) True fb by (simp add: bq_DeleteProducer_def Let_def)
  moreover have "batch_good ?q1"
    using assms(1) in_slot_cong [of ?q1 q] by (simp add: batch_good_def shape_ok_def)
  ultimately show ?thesis
    using finish_batch_good [OF fb] finish_batch_frame(1) [OF fb] by simp
next
  case False
  with assms show ?thesis by (simp add: bq_DeleteProducer_def)
qed

interpretation batch: thread_safe_queue batch_sec bq_queue "\<lambda>q. bq_activeProducers q \<noteq> 0" batch_good
proof
  fix q q' :: BatchQueue and v :: Chunk and a and r and ns c p i e
  assume g: "batch_good q"
  show "batch_sec (QPush v) q = (Return a, q', ns) \<Longrightarrow> batch_good q' \<and> bq_queue q' = bq_queue q @ [v] \<and>
      (bq_activeProducers q' \<noteq> 0) = (bq_activeProducers q \<noteq> 0)"
    using push_keeps_good [OF g] by simp
  show "batch_sec (QPush v) q = (r, q', ns) \<Longrightarrow> \<forall>a. r \<noteq> Return a \<Longrightarrow> q' = q"
    by (auto simp: bq_Push_def Let_def split: if_splits)
  show "batch_sec QPop q = (Return a, q', ns) \<Longrightarrow> batch_good q' \<and>
      (\<exists>v. a = Some v \<and> bq_queue q = v # bq_queue q') \<and> (bq_activeProducers q' \<noteq> 0) = (bq_activeProducers q \<noteq> 0)"
    using pop_keeps_good [OF g] by simp
  show "batch_sec QPop q = (Wait c, q', ns) \<Longrightarrow> q' = q \<and> bq_queue q = [] \<and> bq_activeProducers q \<noteq> 0"
    using pop_of_good [OF g] by (cases "bq_queue q = []") (auto split: if_splits)
  show "batch_sec QPop q = (Throw e, q', ns) \<Longrightarrow> q' = q \<and> bq_queue q = [] \<and> \<not> bq_activeProducers q \<noteq> 0 \<and>
      e = OutOfRange ''Queue is empty''"
    using pop_of_good [OF g] by (cases "bq_queue q = []") (auto split: if_splits)
  show "batch_sec (QDelete p) q = (r, q', ns) \<Longrightarrow> batch_good q' \<and> bq_queue q' = bq_queue q"
    using delete_keeps_good [OF g] by simp
  show "batch_sec (QGetLoop p i) q = (Wait c, q', ns) \<Longrightarrow> q' = q"
    by (auto simp: bq_GetLoop_def Let_def split: if_splits option.splits list.splits prod.splits)
  then show "batch_sec (QGet p i) q = (Wait c, q', ns) \<Longrightarrow> q' = q"
    by (auto simp: bq_Get_def split: if_splits)
qed

end
