(* ===== verification/BatchProtocol.thy ===== *)
theory BatchProtocol
  imports BatchQueue
begin

text \<open>
  The batch queue as its clients use it: every producer pushes its chunks with consecutive numbers
  from 0 until it is deleted, and consumers take chunks by \<open>Pop\<close> or by \<open>Get\<close>. A run is the sequence
  of critical sections that return (a section that waits or throws leaves the queue as it was), in any
  interleaving; \<open>nx p\<close> is the number producer \<open>p\<close> gives to its next chunk.
\<close>

section \<open>Rows of slots\<close>

abbreviation bsz :: "BatchQueue \<Rightarrow> nat" where "bsz q \<equiv> nat (bq_batchSize q)"
abbreviation bcur :: "BatchQueue \<Rightarrow> nat" where "bcur q \<equiv> nat (bq_currentBatch q)"

definition slot_row :: "nat \<Rightarrow> 'a list \<Rightarrow> nat \<Rightarrow> 'a list" where
  "slot_row B xs i = take B (drop (i * B) xs)"

definition filled :: "'a option list \<Rightarrow> nat" where
  "filled xs = length (filter (\<lambda>x. x \<noteq> None) xs)"

lemma row_index:
  assumes "i < n" "k < B"
  shows "i * B + k < n * (B :: nat)"
proof -
  have "i * B + k < Suc i * B" using assms(2) by simp
  also have "\<dots> \<le> n * B" using assms(1) by (intro mult_le_mono1) simp
  finally show ?thesis .
qed

lemma slot_row_nth:
  assumes "length xs = n * B" "i < n" "k < B"
  shows "slot_row B xs i ! k = xs ! (i * B + k)" "length (slot_row B xs i) = B"
proof -
  have "i * B + k < length xs" "i * B + B \<le> length xs"
    using assms row_index [OF assms(2,3)] mult_le_mono1 [of "Suc i" n B] by simp_all
  then show "slot_row B xs i ! k = xs ! (i * B + k)" "length (slot_row B xs i) = B"
    using assms(3) by (simp_all add: slot_row_def)
qed

lemma slot_row_update:
  assumes "length xs = n * B" "i < n" "j < n" "k < B"
  shows "slot_row B (xs[i * B + k := x]) j = (if j = i then (slot_row B xs i)[k := x] else slot_row B xs j)"
proof (rule nth_equalityI)
  have B: "0 < B" using assms(4) by simp
  note l = slot_row_nth(2) [OF _ _ B]
  show len: "length (slot_row B (xs[i * B + k := x]) j) =
      length (if j = i then (slot_row B xs i)[k := x] else slot_row B xs j)"
    using l [of "xs[i * B + k := x]" n j] l [of xs n i] l [of xs n j] assms by simp
  fix m
  assume "m < length (slot_row B (xs[i * B + k := x]) j)"
  then have m: "m < B" using l [of "xs[i * B + k := x]" n j] assms by simp
  have "j * B + m = i * B + k \<longleftrightarrow> j = i \<and> m = k"
  proof
    assume e: "j * B + m = i * B + k"
    have "(j * B + m) div B = (i * B + k) div B" "(j * B + m) mod B = (i * B + k) mod B"
      using e by simp_all
    then show "j = i \<and> m = k" using m assms(4) by simp
  qed simp
  then show "slot_row B (xs[i * B + k := x]) j ! m =
      (if j = i then (slot_row B xs i)[k := x] else slot_row B xs j) ! m"
    using slot_row_nth [of "xs[i * B + k := x]" n B j m] slot_row_nth [of xs n B j m] assms m
      row_index [OF assms(3) m] row_index [OF assms(2,4)] l [of xs n i]
    by (auto simp: nth_list_update)
qed

lemma filled_None: "i < length xs \<Longrightarrow> xs ! i \<noteq> None \<Longrightarrow> filled xs = Suc (filled (xs[i := None]))"
  unfolding filled_def by (rule filter_update_None)

lemma filled_Some: "i < length xs \<Longrightarrow> xs ! i = None \<Longrightarrow> filled (xs[i := Some v]) = Suc (filled xs)"
  using filled_None [of i "xs[i := Some v]"] list_update_id [of xs i] by simp

lemma filled_0: "filled xs = 0 \<Longrightarrow> i < length xs \<Longrightarrow> xs ! i = None"
  unfolding filled_def by (auto simp: filter_empty_conv)

lemma filled_all_None: "\<forall>i < length xs. xs ! i = None \<Longrightarrow> filled xs = 0"
  by (auto simp: filled_def filter_empty_conv in_set_conv_nth)

section \<open>The invariant\<close>

text \<open>A chunk in slot \<open>k\<close> of row \<open>i\<close> is the chunk of that producer with number \<open>k\<close> of the current
  batch.\<close>

definition slot_holds :: "BatchQueue \<Rightarrow> (int \<Rightarrow> nat) \<Rightarrow> nat \<Rightarrow> nat \<Rightarrow> Chunk \<Rightarrow> bool" where
  "slot_holds q nx i k c \<longleftrightarrow> value_partition c = bq_producerIds q ! i \<and>
     unat (chunk_id c) = bcur q * bsz q + k \<and> bcur q * bsz q + k < nx (bq_producerIds q ! i)"

definition active_ok :: "BatchQueue \<Rightarrow> (int \<Rightarrow> nat) \<Rightarrow> nat \<Rightarrow> bool" where
  "active_ok q nx i \<longleftrightarrow> (let m = nx (bq_producerIds q ! i) in
     bcur q * bsz q \<le> m \<and> m \<le> bcur q * bsz q + bsz q \<and>
     bq_readInBatch q ! i + int (filled (slot_row (bsz q) (bq_data q) i)) = int (m - bcur q * bsz q))"

definition batch_inv :: "BatchQueue \<Rightarrow> (int \<Rightarrow> nat) \<Rightarrow> bool" where
  "batch_inv q nx \<longleftrightarrow> shape_ok q \<and> 0 \<le> bq_currentBatch q \<and> distinct (bq_producerIds q) \<and>
     bq_itemsToRead q = int (filled (bq_data q)) \<and> length (bq_queue q) = filled (bq_data q) \<and>
     (\<forall>i < bq_totalProducers q. \<forall>k < bsz q. \<forall>c.
        bq_data q ! (i * bsz q + k) = Some c \<longrightarrow> slot_holds q nx i k c) \<and>
     (\<forall>i < bq_totalProducers q. bq_active q ! i \<longrightarrow> active_ok q nx i)"

lemma shape_data: "shape_ok q \<Longrightarrow> length (bq_data q) = bq_totalProducers q * bsz q"
  unfolding shape_ok_def by (metis int_nat_eq nat_int nat_mult_distrib of_nat_0_le_iff)

lemma batch_inv_init:
  assumes "0 < sint B" "distinct ids"
  shows "batch_inv (ThreadSafeBatchQueue B ids) (\<lambda>_. 0)"
proof -
  let ?q = "ThreadSafeBatchQueue B ids"
  have f: "filled (replicate n (None :: Chunk option)) = 0" for n by (simp add: filled_def)
  have s: "shape_ok ?q" using assms(1) by (simp add: shape_ok_def ThreadSafeBatchQueue_def bq_totalProducers_def)
  have d: "bq_data ?q = replicate (length ids * bsz ?q) None" by (simp add: ThreadSafeBatchQueue_def)
  have "active_ok ?q (\<lambda>_. 0) i" if "i < bq_totalProducers ?q" for i
    using that unfolding active_ok_def d slot_row_def
    by (simp add: f) (simp add: ThreadSafeBatchQueue_def bq_totalProducers_def)
  moreover have "bq_data ?q ! (i * bsz ?q + k) = None" if "i < bq_totalProducers ?q" "k < bsz ?q" for i k
    using row_index [OF that] by (simp add: d bq_totalProducers_def) (simp add: ThreadSafeBatchQueue_def)
  ultimately show ?thesis
    using s assms(2) f by (simp add: batch_inv_def) (simp add: ThreadSafeBatchQueue_def)
qed

text \<open>Starting the next batch keeps the invariant: nothing is set then, and every active producer has
  been read to the end of its batch.\<close>

lemma finish_keeps_inv:
  assumes "batch_inv q nx" "finish_batch q = (q', ns)"
  shows "batch_inv q' nx"
proof (cases "isBatchFinished q")
  case False
  with assms show ?thesis by (simp add: finish_batch_def)
next
  case True
  let ?n = "bq_totalProducers q"
  have q': "q' = q\<lparr>bq_readInBatch := replicate ?n 0, bq_currentBatch := bq_currentBatch q + 1\<rparr>"
    using assms(2) True by (simp add: finish_batch_def resetBatch_def)
  have sh: "shape_ok q" and cur: "0 \<le> bq_currentBatch q" using assms(1) by (simp_all add: batch_inv_def)
  have zero: "filled (bq_data q) = 0"
    using True assms(1) by (simp add: isBatchFinished_def batch_inv_def)
  have none: "bq_data q ! (i * bsz q + k) = None" if "i < ?n" "k < bsz q" for i k
    using filled_0 [OF zero] row_index [OF that] shape_data [OF sh] by simp
  have b': "bcur q' = Suc (bcur q)" "bsz q' = bsz q" using cur by (simp_all add: q' nat_add_distrib)
  have act: "active_ok q' nx i" if i: "i < ?n" "bq_active q ! i" for i
  proof -
    have "bq_readInBatch q ! i = bq_batchSize q" using True i by (simp add: isBatchFinished_def list_all_iff)
    moreover have ok: "active_ok q nx i" using assms(1) i by (simp add: batch_inv_def)
    moreover have row: "filled (slot_row (bsz q) (bq_data q) i) = 0"
    proof (rule filled_all_None, intro allI impI)
      fix k assume "k < length (slot_row (bsz q) (bq_data q) i)"
      then have "k < bsz q" by (simp add: slot_row_def)
      then show "slot_row (bsz q) (bq_data q) i ! k = None"
        using slot_row_nth(1) [OF shape_data [OF sh] i(1)] none [OF i(1)] by simp
    qed
    moreover have "bq_batchSize q = int (bsz q)" using sh by (simp add: shape_ok_def)
    ultimately have "bcur q * bsz q \<le> nx (bq_producerIds q ! i)"
      "int (bsz q) = int (nx (bq_producerIds q ! i) - bcur q * bsz q)"
      unfolding active_ok_def Let_def by linarith+
    then have "nx (bq_producerIds q ! i) = bcur q * bsz q + bsz q"
      unfolding of_nat_eq_iff by linarith
    moreover have "bq_readInBatch q' ! i = 0" "bq_data q' = bq_data q" "bq_producerIds q' = bq_producerIds q"
      using i by (simp_all add: q')
    ultimately show ?thesis
      unfolding active_ok_def b' using row by simp
  qed
  have "shape_ok q'" using sh by (simp add: shape_ok_def q')
  then show ?thesis
    using assms(1) none act unfolding batch_inv_def by (simp add: q')
qed

text \<open>Taking the chunk out of slot \<open>k\<close> of row \<open>i\<close>.\<close>

lemma read_keeps_inv:
  assumes "batch_inv q nx" "i < bq_totalProducers q" "k < bsz q"
    and "bq_data q ! (i * bsz q + k) \<noteq> None" "readValue (i * bsz q + k) q = (r, q1)" "bq_queue q = c # rest"
  shows "batch_inv (q1\<lparr>bq_queue := rest\<rparr>) nx"
proof -
  let ?idx = "i * bsz q + k"
  have B: "0 < bsz q" using assms(3) by simp
  have q1: "q1 = q\<lparr>bq_itemsToRead := bq_itemsToRead q - 1, bq_data := (bq_data q)[?idx := None],
      bq_readInBatch := (bq_readInBatch q)[i := bq_readInBatch q ! i + 1]\<rparr>"
    using assms(3,5) B by (simp add: readValue_def Let_def)
  have sh: "shape_ok q" using assms(1) by (simp add: batch_inv_def)
  note len = shape_data [OF sh]
  have idx: "?idx < length (bq_data q)" using row_index [OF assms(2,3)] len by simp
  have fl: "filled (bq_data q) = Suc (filled ((bq_data q)[?idx := None]))"
    using filled_None [OF idx assms(4)] .
  have row: "slot_row (bsz q) (bq_data q) i ! k = bq_data q ! ?idx" "length (slot_row (bsz q) (bq_data q) i) = bsz q"
    using slot_row_nth [OF len assms(2,3)] by simp_all
  have act: "active_ok (q1\<lparr>bq_queue := rest\<rparr>) nx j"
    if j: "j < bq_totalProducers q" "bq_active q ! j" for j
  proof -
    have ok: "active_ok q nx j" using assms(1) j by (simp add: batch_inv_def)
    have len_r: "length (bq_readInBatch q) = bq_totalProducers q" using sh by (simp add: shape_ok_def)
    show ?thesis
    proof (cases "j = i")
      case True
      have "filled (slot_row (bsz q) (bq_data q) i) = Suc (filled ((slot_row (bsz q) (bq_data q) i)[k := None]))"
        using filled_None [of k "slot_row (bsz q) (bq_data q) i"] row assms(3,4) by simp
      with ok show ?thesis
        using slot_row_update [OF len assms(2,2,3)] True j len_r
        by (auto simp: active_ok_def Let_def q1)
    next
      case False
      with ok show ?thesis
        using slot_row_update [OF len assms(2) j(1) assms(3)] j len_r
        by (simp add: active_ok_def Let_def q1)
    qed
  qed
  have holds: "slot_holds (q1\<lparr>bq_queue := rest\<rparr>) nx j m d"
    if "j < bq_totalProducers q" "m < bsz q" "(bq_data q)[?idx := None] ! (j * bsz q + m) = Some d" for j m d
  proof -
    have "bq_data q ! (j * bsz q + m) = Some d"
      using that idx by (cases "j * bsz q + m = ?idx") auto
    then have "slot_holds q nx j m d" using assms(1) that by (simp add: batch_inv_def)
    then show ?thesis by (simp add: slot_holds_def q1)
  qed
  have "shape_ok (q1\<lparr>bq_queue := rest\<rparr>)" using sh by (simp add: shape_ok_def q1)
  then show ?thesis
    using assms(1,6) act holds fl unfolding batch_inv_def by (simp add: q1)
qed

lemma producer_number_nth:
  assumes "distinct (bq_producerIds q)" "i < bq_totalProducers q"
  shows "producer_number q (bq_producerIds q ! i) = i"
proof -
  let ?z = "zip (bq_producerIds q) [0..<bq_totalProducers q]"
  have len: "length (bq_producerIds q) = bq_totalProducers q" by (simp add: bq_totalProducers_def)
  have "distinct (map fst (rev ?z))"
    using assms(1) len by (simp add: rev_map [symmetric])
  moreover have "(bq_producerIds q ! i, i) \<in> set (rev ?z)"
    using assms(2) len by (auto simp: in_set_zip)
  ultimately have "map_of (rev ?z) (bq_producerIds q ! i) = Some i" by (rule map_of_is_SomeI)
  then show ?thesis by (simp add: producer_number_def)
qed

lemma smod_nat: "int w smod int B = int (w mod B)" "int w sdiv int B = int (w div B)"
proof -
  show d: "int w sdiv int B = int (w div B)"
    by (simp add: signed_divide_int_def sgn_if zdiv_int)
  show "int w smod int B = int (w mod B)"
    unfolding signed_modulo_int_def d
    by (cases "w = 0") (simp_all add: zdiv_int zmod_int minus_div_mult_eq_mod)
qed

lemma targetIndex_nth:
  assumes "distinct (bq_producerIds q)" "i < bq_totalProducers q" "0 < bq_batchSize q" "0 \<le> v"
  shows "targetIndex q (bq_producerIds q ! i) v = int (i * bsz q + nat v mod bsz q)"
proof -
  have "v smod bq_batchSize q = int (nat v mod bsz q)"
    using smod_nat(1) [of "nat v" "bsz q"] assms(3,4) by simp
  then show ?thesis
    using assms producer_number_nth [OF assms(1,2)] by (simp add: targetIndex_def)
qed

section \<open>Operations that keep the invariant\<close>

lemma value_conversions:
  assumes "unat (chunk_id c) < 2 ^ 31" "0 < bq_batchSize q" "bq_batchSize q < 2 ^ 31"
  shows "value_id c = int (unat (chunk_id c))" "value_batch q c = int (unat (chunk_id c) div bsz q)"
proof -
  show "value_id c = int (unat (chunk_id c))"
    unfolding value_id_def using assms(1) by (rule sint_ucast_int)
  have "unat (word_of_int (bq_batchSize q) :: u64) = bsz q"
    using assms(2,3) by (simp add: unat_eq_nat_uint uint_word_of_int_eq take_bit_int_eq_self)
  then have u: "unat (chunk_id c div word_of_int (bq_batchSize q)) = unat (chunk_id c) div bsz q"
    by (simp add: unat_div_distrib)
  moreover have "unat (chunk_id c) div bsz q < 2 ^ 31"
    using assms(1) div_le_dividend [of "unat (chunk_id c)" "bsz q"] by linarith
  ultimately show "value_batch q c = int (unat (chunk_id c) div bsz q)"
    unfolding value_batch_def by (subst sint_ucast_int) simp_all
qed

lemma div_in_batch:
  assumes "b * B \<le> m" "m < b * B + (B :: nat)"
  shows "m div B = b" "m mod B = m - b * B"
proof -
  obtain k where k: "m = b * B + k" using assms(1) le_Suc_ex by blast
  then have "k < B" using assms(2) by simp
  then show "m div B = b" "m mod B = m - b * B" unfolding k by simp_all
qed

lemma push_next:
  assumes "batch_inv q nx" "i < bq_totalProducers q" "bq_active q ! i" "bq_batchSize q < 2 ^ 31"
    and "value_partition c = bq_producerIds q ! i" "unat (chunk_id c) = nx (bq_producerIds q ! i)"
    and "nx (bq_producerIds q ! i) < 2 ^ 31"
  shows "if nx (bq_producerIds q ! i) < bcur q * bsz q + bsz q
    then (\<exists>q' ns. bq_Push c q = (Return None, q', ns) \<and>
      batch_inv q' (nx(bq_producerIds q ! i := Suc (nx (bq_producerIds q ! i)))))
    else bq_Push c q = (Wait BusyCV, q, [])"
proof -
  let ?p = "bq_producerIds q ! i"
  let ?m = "nx ?p" and ?B = "bsz q" and ?b = "bcur q"
  have inv: "shape_ok q" "0 \<le> bq_currentBatch q" "distinct (bq_producerIds q)"
    using assms(1) by (simp_all add: batch_inv_def)
  have B: "0 < bq_batchSize q" "0 < ?B" "bq_batchSize q = int ?B" using inv(1) by (simp_all add: shape_ok_def)
  have cur: "bq_currentBatch q = int ?b" using inv(2) by simp
  have small: "unat (chunk_id c) < 2 ^ 31" using assms(6,7) by simp
  note conv = value_conversions [OF small B(1) assms(4)]
  have ok: "?b * ?B \<le> ?m" "?m \<le> ?b * ?B + ?B"
    using assms(1-3) by (simp_all add: batch_inv_def active_ok_def Let_def)
  have vi: "value_index q c = int (i * ?B + ?m mod ?B)"
    unfolding value_index_def assms(5)
    using targetIndex_nth [OF inv(3) assms(2) B(1)] conv(1) assms(6) by simp
  show ?thesis
  proof (cases "?m < ?b * ?B + ?B")
    case False
    then have "?m = Suc ?b * ?B" using ok by simp
    then have "?m div ?B = Suc ?b" using B(2) by simp
    then have "value_batch q c = int (Suc ?b)" by (simp only: conv(2) assms(6))
    then have "bq_currentBatch q < value_batch q c" using cur by linarith
    with False B(1) show ?thesis by (simp add: bq_Push_def)
  next
    case True
    note db = div_in_batch [OF ok(1) True]
    let ?k = "?m - ?b * ?B" and ?idx = "i * ?B + (?m - ?b * ?B)"
    have k: "?k < ?B" using ok True by simp
    note len = shape_data [OF inv(1)]
    have idx: "?idx < length (bq_data q)" using row_index [OF assms(2) k] len by simp
    have vi': "value_index q c = int ?idx" "nat (value_index q c) = ?idx"
      unfolding vi db(2) by (rule refl, rule nat_int)
    have none: "bq_data q ! ?idx = None"
    proof (rule ccontr)
      assume "bq_data q ! ?idx \<noteq> None"
      then obtain d where "bq_data q ! ?idx = Some d" by auto
      then have "?b * ?B + ?k < ?m" using assms(1,2) k by (auto simp: batch_inv_def slot_holds_def)
      with ok show False by simp
    qed
    let ?q' = "q\<lparr>bq_data := (bq_data q)[?idx := Some c], bq_queue := bq_queue q @ [c],
                bq_itemsToRead := bq_itemsToRead q + 1\<rparr>"
    let ?nx = "nx(?p := Suc ?m)"
    have "value_batch q c = int ?b" by (simp only: conv(2) assms(6) db(1))
    then have nb: "\<not> bq_currentBatch q < value_batch q c" using cur by linarith
    have push: "bq_Push c q = (Return None, ?q', [NotifyOne EmptyCV, NotifyAll (DataCV (producer_number q (value_partition c)))])"
    proof -
      have "in_data q (value_index q c)"
        unfolding in_data_def vi'(1) using idx by (simp only: of_nat_less_iff of_nat_0_le_iff)
      then show ?thesis using nb B(1) none vi'(2) by (simp add: bq_Push_def Let_def)
    qed
    have fl: "filled ((bq_data q)[?idx := Some c]) = Suc (filled (bq_data q))"
      using filled_Some [OF idx none] .
    have ids: "bq_producerIds q ! j \<noteq> ?p" if "j < bq_totalProducers q" "j \<noteq> i" for j
      using inv(3) that assms(2) by (simp add: nth_eq_iff_index_eq bq_totalProducers_def)
    have act: "active_ok ?q' ?nx j" if j: "j < bq_totalProducers q" "bq_active q ! j" for j
    proof -
      have okj: "active_ok q nx j" using assms(1) j by (simp add: batch_inv_def)
      show ?thesis
      proof (cases "j = i")
        case True
        have "filled ((slot_row ?B (bq_data q) i)[?k := Some c]) = Suc (filled (slot_row ?B (bq_data q) i))"
          using slot_row_nth [OF len assms(2) k] none k by (intro filled_Some) simp_all
        with okj show ?thesis
          using slot_row_update [OF len assms(2,2) k] True ok \<open>?m < ?b * ?B + ?B\<close>
          by (simp add: active_ok_def Let_def of_nat_diff)
      next
        case False
        with okj show ?thesis
          using slot_row_update [OF len assms(2) j(1) k] ids [OF j(1)] by (simp add: active_ok_def Let_def)
      qed
    qed
    have holds: "slot_holds ?q' ?nx j m d"
      if "j < bq_totalProducers q" "m < ?B" "(bq_data q)[?idx := Some c] ! (j * ?B + m) = Some d" for j m d
    proof (cases "j * ?B + m = ?idx")
      case True
      have "(j * ?B + m) div ?B = ?idx div ?B" "(j * ?B + m) mod ?B = ?idx mod ?B" using True by simp_all
      then have "j = i" "m = ?k" using that(2) k by simp_all
      moreover have "d = c" using that(3) True idx by simp
      ultimately show ?thesis using assms(5,6) ok by (simp add: slot_holds_def)
    next
      case False
      then have "slot_holds q nx j m d" using assms(1) that by (simp add: batch_inv_def)
      then show ?thesis by (auto simp: slot_holds_def)
    qed
    have "shape_ok ?q'" using inv(1) by (simp add: shape_ok_def)
    then have "batch_inv ?q' ?nx"
      using assms(1) act holds fl unfolding batch_inv_def by simp
    with push True show ?thesis by simp
  qed
qed

lemma slot_split:
  assumes "shape_ok q" "in_data q idx"
  obtains i k where "i < bq_totalProducers q" "k < bsz q" "nat idx = i * bsz q + k"
proof
  have B: "0 < bsz q" using assms(1) by (simp add: shape_ok_def)
  show "nat idx div bsz q < bq_totalProducers q" using value_index_bound(2) [OF assms] .
  show "nat idx mod bsz q < bsz q" using B by simp
  show "nat idx = nat idx div bsz q * bsz q + nat idx mod bsz q" by simp
qed

text \<open>A \<open>Pop\<close> of a chunk that is still in its slot.\<close>

lemma pop_keeps_inv:
  assumes "batch_inv q nx" "bq_Pop q = (Return a, q', ns)" "bq_queue q = c # rest" "in_slot q c"
  shows "batch_inv q' nx \<and> a = Some c"
proof -
  have sh: "shape_ok q" using assms(1) by (simp add: batch_inv_def)
  have c: "in_data q (value_index q c)" "bq_data q ! nat (value_index q c) = Some c"
    using assms(4) by (simp_all add: in_slot_def)
  obtain i k where ik: "i < bq_totalProducers q" "k < bsz q" "nat (value_index q c) = i * bsz q + k"
    using slot_split [OF sh c(1)] .
  obtain r q1 where rv: "readValue (nat (value_index q c)) q = (r, q1)" by fastforce
  obtain q2 ns2 where fb: "finish_batch (q1\<lparr>bq_queue := rest\<rparr>) = (q2, ns2)" by fastforce
  have res: "a = Some c" "q' = q2"
    using assms(2,3) rv fb by (auto simp: bq_Pop_def split: if_splits)
  have "batch_inv (q1\<lparr>bq_queue := rest\<rparr>) nx"
    by (rule read_keeps_inv [OF assms(1) ik(1,2) _ _ assms(3)]) (use c(2) rv ik(3) in simp_all)
  from finish_keeps_inv [OF this fb] res show ?thesis by simp
qed

text \<open>A \<open>Get\<close> by the number of a producer and of its chunk.\<close>

lemma get_keeps_inv:
  assumes "batch_inv q nx" "i < bq_totalProducers q" "0 \<le> v"
    and "bq_GetLoop (bq_producerIds q ! i) v q = (Return a, q', ns)"
  shows "batch_inv q' nx \<and> (\<exists>c. a = Some c \<and> value_partition c = bq_producerIds q ! i \<and>
    unat (chunk_id c) = bcur q * bsz q + nat v mod bsz q \<and>
    (bq_active q ! i \<longrightarrow> unat (chunk_id c) = nat v))"
proof -
  have inv: "shape_ok q" "0 \<le> bq_currentBatch q" "distinct (bq_producerIds q)"
    using assms(1) by (simp_all add: batch_inv_def)
  have B: "0 < bq_batchSize q" "0 < bsz q" using inv(1) by (simp_all add: shape_ok_def)
  let ?k = "nat v mod bsz q"
  let ?idx = "i * bsz q + ?k"
  have k: "?k < bsz q" using B(2) by simp
  have t: "targetIndex q (bq_producerIds q ! i) v = int ?idx"
    using targetIndex_nth [OF inv(3) assms(2) B(1) assms(3)] .
  then have ni: "nat (targetIndex q (bq_producerIds q ! i) v) = ?idx" by (metis nat_int)
  have idx: "in_data q (int ?idx)"
    unfolding in_data_def using row_index [OF assms(2) k] shape_data [OF inv(1)]
    by (simp only: of_nat_less_iff of_nat_0_le_iff)
  note pn = producer_number_nth [OF inv(3) assms(2)]
  obtain r q1 where rv: "readValue ?idx q = (r, q1)" by fastforce
  obtain d where d: "bq_data q ! ?idx = Some d"
    using assms(4) by (auto simp: bq_GetLoop_def Let_def ni split: if_splits option.splits)
  have q1: "r = Some d" "bq_queue q1 = bq_queue q" using rv d by (auto simp: readValue_def Let_def)
  obtain c rest where q: "bq_queue q = c # rest"
    using assms(4) rv d q1 by (auto simp: bq_GetLoop_def Let_def ni split: if_splits list.splits)
  obtain q2 ns2 where fb: "finish_batch (q1\<lparr>bq_queue := rest\<rparr>) = (q2, ns2)" by fastforce
  have res: "a = Some d" "q' = q2" "bq_active q ! i \<longrightarrow> v sdiv bq_batchSize q = bq_currentBatch q"
    using assms(4) rv d q1 q fb by (auto simp: bq_GetLoop_def Let_def ni pn split: if_splits)
  have "batch_inv (q1\<lparr>bq_queue := rest\<rparr>) nx"
    by (rule read_keeps_inv [OF assms(1,2) k _ rv q]) (simp add: d)
  then have g: "batch_inv q' nx" using finish_keeps_inv [OF _ fb] res by simp
  have h: "slot_holds q nx i ?k d" using assms(1,2) k d by (simp add: batch_inv_def)
  have "unat (chunk_id d) = nat v" if "bq_active q ! i"
  proof -
    have "int (nat v div bsz q) = int (bcur q)"
      using res(3) that smod_nat(2) [of "nat v" "bsz q"] assms(3) B inv(2) by simp
    then have "nat v div bsz q = bcur q" by (simp only: of_nat_eq_iff)
    then have "bcur q * bsz q + ?k = nat v" by (metis div_mult_mod_eq)
    then show ?thesis using h by (simp add: slot_holds_def)
  qed
  with g h res(1) show ?thesis by (auto simp: slot_holds_def)
qed

lemma delete_keeps_inv:
  assumes "batch_inv q nx" "i < bq_totalProducers q"
    and "bq_DeleteProducer (bq_producerIds q ! i) q = (r, q', ns)"
  shows "batch_inv q' nx"
proof -
  have inv: "shape_ok q" "distinct (bq_producerIds q)" using assms(1) by (simp_all add: batch_inv_def)
  note pn = producer_number_nth [OF inv(2) assms(2)]
  let ?q1 = "q\<lparr>bq_active := (bq_active q)[i := False], bq_activeProducers := bq_activeProducers q - 1\<rparr>"
  have i: "i < length (bq_active q)" using inv(1) assms(2) by (simp add: shape_ok_def)
  obtain q2 ns2 where fb: "finish_batch ?q1 = (q2, ns2)" by fastforce
  have "q' = q2" using assms(3) i fb pn by (simp add: bq_DeleteProducer_def Let_def)
  moreover have "batch_inv ?q1 nx"
  proof -
    have "shape_ok ?q1" using inv(1) by (simp add: shape_ok_def)
    moreover have "active_ok ?q1 nx j = active_ok q nx j" "slot_holds ?q1 nx j k c = slot_holds q nx j k c" for j k c
      by (simp_all add: active_ok_def slot_holds_def)
    ultimately show ?thesis
      using assms(1) i unfolding batch_inv_def by (auto simp: nth_list_update split: if_splits)
  qed
  ultimately show ?thesis using finish_keeps_inv [OF _ fb] by simp
qed

section \<open>Runs\<close>

text \<open>
  A run by chunk numbers: \<open>run_pop\<close> asks that the front of the queue is still in its slot, which is
  so as long as chunks are only popped; \<open>run_get\<close> covers a \<open>Get\<close> that did not wait and one that did.
\<close>

inductive batch_run :: "u32 \<Rightarrow> int list \<Rightarrow> BatchQueue \<Rightarrow> (int \<Rightarrow> nat) \<Rightarrow> bool" for B ids where
  run_init: "batch_run B ids (ThreadSafeBatchQueue B ids) (\<lambda>_. 0)"
| run_push: "batch_run B ids q nx \<Longrightarrow> i < length ids \<Longrightarrow> bq_active q ! i \<Longrightarrow>
    value_partition c = ids ! i \<Longrightarrow> unat (chunk_id c) = nx (ids ! i) \<Longrightarrow> nx (ids ! i) < 2 ^ 31 \<Longrightarrow>
    bq_Push c q = (Return a, q', ns) \<Longrightarrow> batch_run B ids q' (nx(ids ! i := Suc (nx (ids ! i))))"
| run_pop: "batch_run B ids q nx \<Longrightarrow> bq_queue q = c # rest \<Longrightarrow> in_slot q c \<Longrightarrow>
    bq_Pop q = (Return a, q', ns) \<Longrightarrow> batch_run B ids q' nx"
| run_get: "batch_run B ids q nx \<Longrightarrow> i < length ids \<Longrightarrow> 0 \<le> v \<Longrightarrow>
    bq_GetLoop (ids ! i) v q = (Return a, q', ns) \<Longrightarrow> batch_run B ids q' nx"
| run_delete: "batch_run B ids q nx \<Longrightarrow> i < length ids \<Longrightarrow>
    bq_DeleteProducer (ids ! i) q = (r, q', ns) \<Longrightarrow> batch_run B ids q' nx"

lemma section_ids:
  "bq_Push c q = (r, q', ns) \<Longrightarrow> bq_producerIds q' = bq_producerIds q \<and> bq_batchSize q' = bq_batchSize q"
  "bq_Pop q = (r, q', ns) \<Longrightarrow> bq_producerIds q' = bq_producerIds q \<and> bq_batchSize q' = bq_batchSize q"
  "bq_GetLoop p v q = (r, q', ns) \<Longrightarrow> bq_producerIds q' = bq_producerIds q \<and> bq_batchSize q' = bq_batchSize q"
  "bq_DeleteProducer p q = (r, q', ns) \<Longrightarrow> bq_producerIds q' = bq_producerIds q \<and> bq_batchSize q' = bq_batchSize q"
  by (auto simp: bq_Push_def bq_Pop_def bq_GetLoop_def bq_DeleteProducer_def Let_def readValue_def
      finish_batch_def resetBatch_def split: if_splits list.splits option.splits)

lemma batch_run_inv:
  assumes "batch_run B ids q nx" "0 < sint B" "distinct ids"
  shows "batch_inv q nx \<and> bq_producerIds q = ids \<and> bq_batchSize q = sint B"
  using assms(1)
proof (induction rule: batch_run.induct)
  case run_init
  show ?case using batch_inv_init [OF assms(2,3)] by (simp add: ThreadSafeBatchQueue_def)
next
  case (run_push q nx i c a q' ns)
  have "sint B < 2 ^ 31" using sint_lt [of B] by simp
  then have "batch_inv q' (nx(ids ! i := Suc (nx (ids ! i))))"
    using push_next [of q nx i c] run_push by (auto simp: bq_totalProducers_def split: if_splits)
  with section_ids(1) [OF run_push(7)] run_push.IH show ?case by metis
next
  case (run_pop q nx c rest a q' ns)
  with pop_keeps_inv [of q nx a q' ns c rest] section_ids(2) [OF run_pop(4)] show ?case by simp
next
  case (run_get q nx i v a q' ns)
  with get_keeps_inv [of q nx i v a q' ns] section_ids(3) [OF run_get(4)] show ?case
    by (simp add: bq_totalProducers_def)
next
  case (run_delete q nx i r q' ns)
  with delete_keeps_inv [of q nx i r q' ns] section_ids(4) [OF run_delete(3)] show ?case
    by (simp add: bq_totalProducers_def)
qed

section \<open>The contract\<close>

text \<open>C12. A producer that numbers its chunks consecutively never finds its place taken: in every run
  its next chunk either is stored or, exactly when it belongs to a later batch than the current one,
  waits; and at most \<open>batchSize\<close> chunks per producer are held at a time.\<close>

theorem batch_push_finds_place:
  assumes "batch_run B ids q nx" "0 < sint B" "distinct ids" "i < length ids" "bq_active q ! i"
    and "value_partition c = ids ! i" "unat (chunk_id c) = nx (ids ! i)" "nx (ids ! i) < 2 ^ 31"
  shows "((\<exists>a q' ns. bq_Push c q = (Return a, q', ns) \<and> nx (ids ! i) div bsz q = bcur q) \<or>
      bq_Push c q = (Wait BusyCV, q, []) \<and> nx (ids ! i) = bsz q * Suc (bcur q)) \<and>
    length (bq_queue q) \<le> length ids * nat (sint B)"
proof
  note inv = batch_run_inv [OF assms(1-3)]
  have e: "bq_producerIds q = ids" using inv by simp
  have lt: "sint B < 2 ^ 31" using sint_lt [of B] by simp
  have p: "if nx (ids ! i) < bcur q * bsz q + bsz q
    then (\<exists>q' ns. bq_Push c q = (Return None, q', ns) \<and> batch_inv q' (nx(ids ! i := Suc (nx (ids ! i)))))
    else bq_Push c q = (Wait BusyCV, q, [])"
    by (rule push_next [of q nx i c, unfolded e]) (use inv e lt assms(4-8) in \<open>simp_all add: bq_totalProducers_def\<close>)
  have ok: "bcur q * bsz q \<le> nx (ids ! i)" "nx (ids ! i) \<le> bcur q * bsz q + bsz q"
    using inv assms(4,5) by (auto simp: batch_inv_def active_ok_def Let_def bq_totalProducers_def)
  show "(\<exists>a q' ns. bq_Push c q = (Return a, q', ns) \<and> nx (ids ! i) div bsz q = bcur q) \<or>
      bq_Push c q = (Wait BusyCV, q, []) \<and> nx (ids ! i) = bsz q * Suc (bcur q)"
  proof (cases "nx (ids ! i) < bcur q * bsz q + bsz q")
    case True
    with p div_in_batch(1) [OF ok(1) True] show ?thesis by auto
  next
    case False
    with p ok show ?thesis by (simp add: mult.commute)
  qed
  have "filled (bq_data q) \<le> length (bq_data q)" by (simp add: filled_def)
  then show "length (bq_queue q) \<le> length ids * nat (sint B)"
    using inv shape_data [of q] by (simp add: batch_inv_def bq_totalProducers_def)
qed

definition example_batch_chunk :: "nat \<Rightarrow> u32 \<Rightarrow> Chunk" where
  "example_batch_chunk k p = NewChunk [] 0 (of_nat k) p"

lemma example_batch_run:
  "batch_run 1 [5, 6] (ThreadSafeBatchQueue 1 [5, 6]) (\<lambda>_. 0)"
  "\<exists>q ns. bq_Push (example_batch_chunk 0 6) (ThreadSafeBatchQueue 1 [5, 6]) = (Return None, q, ns) \<and>
    bq_queue q = [example_batch_chunk 0 6] \<and> bq_active q = [True, True]"
  by (rule run_init)
     (simp add: bq_Push_def Let_def ThreadSafeBatchQueue_def value_batch_def value_index_def value_id_def
        value_partition_def targetIndex_def producer_number_def bq_totalProducers_def in_data_def
        example_batch_chunk_def NewChunk_def)

theorem batch_push_finds_place_witness:
  "length (bq_queue (ThreadSafeBatchQueue 1 [5, 6])) \<le> length [5 :: int, 6] * nat (sint (1 :: u32)) \<and>
   (\<exists>a q' ns. bq_Push (example_batch_chunk 0 6) (ThreadSafeBatchQueue 1 [5, 6]) = (Return a, q', ns))"
  using batch_push_finds_place [OF example_batch_run(1), of 1 "example_batch_chunk 0 6"]
  by (auto simp: ThreadSafeBatchQueue_def value_partition_def example_batch_chunk_def NewChunk_def)

text \<open>C13. \<open>Get\<close> returns the right chunk: in every run, if \<open>Get\<close> of chunk \<open>v\<close> of a producer that is
  still active returns, it returns the chunk that producer pushed with number \<open>v\<close>.\<close>

theorem batch_get_right_chunk:
  assumes "batch_run B ids q nx" "0 < sint B" "distinct ids" "i < length ids" "0 \<le> v"
    and "bq_GetLoop (ids ! i) v q = (Return a, q', ns)" "bq_active q ! i"
  shows "\<exists>c. a = Some c \<and> value_partition c = ids ! i \<and> unat (chunk_id c) = nat v"
proof -
  have "batch_inv q nx" "bq_producerIds q = ids" "i < bq_totalProducers q"
    using batch_run_inv [OF assms(1-3)] assms(4) by (simp_all add: bq_totalProducers_def)
  with get_keeps_inv [of q nx i v a q' ns] assms(5-7) show ?thesis by auto
qed

text \<open>An example: two producers, 5 and 6, with one slot each.\<close>

definition ebq0 :: BatchQueue where "ebq0 = ThreadSafeBatchQueue 1 [5, 6]"

definition ebq1 :: BatchQueue where
  "ebq1 = ebq0\<lparr>bq_queue := [example_batch_chunk 0 6], bq_data := [None, Some (example_batch_chunk 0 6)],
     bq_itemsToRead := 1\<rparr>"

definition ebq2 :: BatchQueue where
  "ebq2 = ebq1\<lparr>bq_active := [False, True], bq_activeProducers := 1\<rparr>"

lemmas ebq_defs = ebq2_def ebq1_def ebq0_def ThreadSafeBatchQueue_def

lemmas bq_eval = bq_Push_def bq_Get_def bq_GetLoop_def bq_DeleteProducer_def Let_def value_batch_def
  value_index_def value_id_def value_partition_def targetIndex_def producer_number_def
  bq_totalProducers_def in_data_def example_batch_chunk_def NewChunk_def readValue_def finish_batch_def
  isBatchFinished_def resetBatch_def

lemma ebq_sections:
  "batch_sec (QGet 5 0) ebq0 = (Wait (DataCV 0), ebq0, [])"
  "batch_sec (QPush (example_batch_chunk 0 6)) ebq0 = (Return None, ebq1, [NotifyOne EmptyCV, NotifyAll (DataCV 1)])"
  "batch_sec (QPush (example_batch_chunk 1 6)) ebq1 = (Wait BusyCV, ebq1, [])"
  "batch_sec (QDelete 5) ebq1 = (Return None, ebq2, [])"
  "batch_sec (QGetLoop 5 0) ebq2 = (Throw (OutOfRange ''Asking for non-existsent chunk''), ebq2, [])"
  "\<exists>q' ns. bq_GetLoop 6 0 ebq1 = (Return (Some (example_batch_chunk 0 6)), q', ns)"
  by (simp_all add: ebq_defs bq_eval)

lemma ebq1_run: "batch_run 1 [5, 6] ebq1 ((\<lambda>_. 0)(6 := 1))"
proof -
  have "batch_run 1 [5, 6] ebq1 ((\<lambda>_. 0)([5, 6] ! 1 := Suc ((\<lambda>_. 0) ([5, 6] ! 1 :: int))))"
    by (rule run_push [OF run_init, where i = 1 and c = "example_batch_chunk 0 6"])
       (use ebq_sections(2) in \<open>simp_all add: ebq0_def value_partition_def example_batch_chunk_def NewChunk_def
          ThreadSafeBatchQueue_def\<close>)
  then show ?thesis by simp
qed

theorem batch_get_right_chunk_witness:
  "\<exists>q' ns c. bq_GetLoop 6 0 ebq1 = (Return (Some c), q', ns) \<and> value_partition c = 6 \<and> unat (chunk_id c) = 0"
proof -
  obtain q' ns where g: "bq_GetLoop ([5, 6] ! 1) 0 ebq1 = (Return (Some (example_batch_chunk 0 6)), q', ns)"
    using ebq_sections(6) by auto
  from batch_get_right_chunk [OF ebq1_run _ _ _ _ g] g show ?thesis
    by (auto simp: ebq_defs)
qed

text \<open>C24. The batch queue can lose a wakeup: \<open>DeleteProducer\<close> does not notify the consumer that waits
  for a chunk of the producer. In a state the system can reach, producer 5 has finished, a consumer
  waits for its chunk 0 although \<open>Get\<close> would throw at once if it ran, the other producer waits for the
  consumer to read its batch, and no thread has been woken.\<close>

theorem batch_queue_lost_wakeup:
  "\<exists>s. sys_reachable batch_sec (ThreadSafeBatchQueue 1 [5, 6]) s \<and> sys_ready s = [] \<and>
     sys_wait s = [(1, QGet 5 0, DataCV 0), (6, QPush (example_batch_chunk 1 6), BusyCV)] \<and>
     bq_active (sys_q s) = [False, True] \<and>
     batch_sec (QGetLoop 5 0) (sys_q s) =
       (Throw (OutOfRange ''Asking for non-existsent chunk''), sys_q s, [])"
proof -
  let ?c = "example_batch_chunk"
  let ?s0 = "\<lparr>sys_q = ebq0, sys_wait = [], sys_ready = [], sys_log = []\<rparr>"
  let ?s1 = "\<lparr>sys_q = ebq0, sys_wait = [(1, QGet 5 0, DataCV 0)], sys_ready = [], sys_log = []\<rparr>"
  let ?s2 = "\<lparr>sys_q = ebq1, sys_wait = [(1, QGet 5 0, DataCV 0)], sys_ready = [],
     sys_log = [(6, QPush (?c 0 6), Return None)]\<rparr>"
  let ?s3 = "\<lparr>sys_q = ebq1, sys_wait = [(1, QGet 5 0, DataCV 0), (6, QPush (?c 1 6), BusyCV)], sys_ready = [],
     sys_log = [(6, QPush (?c 0 6), Return None)]\<rparr>"
  let ?s4 = "\<lparr>sys_q = ebq2, sys_wait = [(1, QGet 5 0, DataCV 0), (6, QPush (?c 1 6), BusyCV)], sys_ready = [],
     sys_log = [(6, QPush (?c 0 6), Return None), (5, QDelete 5, Return None)]\<rparr>"
  have 1: "sys_step batch_sec ?s0 ?s1"
    by (rule step_call_idle [where t = 1 and op = "QGet 5 0" and r = "Wait (DataCV 0)" and q' = ebq0 and ns = "[]"])
       (simp_all only: sys.simps ebq_sections, simp_all add: inside_def ended_def)
  have 2: "sys_step batch_sec ?s1 ?s2"
    by (rule step_call_idle [where t = 6 and op = "QPush (?c 0 6)" and r = "Return None" and q' = ebq1
          and ns = "[NotifyOne EmptyCV, NotifyAll (DataCV 1)]"])
       (simp_all only: sys.simps ebq_sections, simp_all add: inside_def ended_def)
  have 3: "sys_step batch_sec ?s2 ?s3"
    by (rule step_call_idle [where t = 6 and op = "QPush (?c 1 6)" and r = "Wait BusyCV" and q' = ebq1 and ns = "[]"])
       (simp_all only: sys.simps ebq_sections, simp_all add: inside_def ended_def)
  have 4: "sys_step batch_sec ?s3 ?s4"
    by (rule step_call_idle [where t = 5 and op = "QDelete 5" and r = "Return None" and q' = ebq2 and ns = "[]"])
       (simp_all only: sys.simps ebq_sections, simp_all add: inside_def ended_def)
  have "sys_reachable batch_sec ebq0 ?s4"
    by (rule reach_step [OF reach_step [OF reach_step [OF reach_step [OF reach_init 1] 2] 3] 4])
  moreover have "bq_active ebq2 = [False, True]" by (simp add: ebq2_def)
  ultimately show ?thesis
    unfolding ebq0_def using ebq_sections(5) by (intro exI [of _ ?s4]) simp
qed

text \<open>C25. Chunks that are only popped leave the batch queue in the order they entered it, none lost
  and none twice, in every interleaving of producers and consumers.\<close>

theorem batch_queue_fifo:
  assumes "sys_reachable batch_sec (ThreadSafeBatchQueue B ids) s" "0 < sint B"
    and "\<forall>(t, op, r) \<in> set (sys_log s). \<forall>p i. op \<noteq> QGet p i \<and> op \<noteq> QGetLoop p i"
  shows "pushed (sys_log s) = popped (sys_log s) @ bq_queue (sys_q s)"
proof -
  have "batch_good (ThreadSafeBatchQueue B ids)"
    using assms(2) by (simp add: batch_good_def shape_ok_def ThreadSafeBatchQueue_def bq_totalProducers_def set_slots_def)
  moreover have "batch.no_get (sys_log s)" using assms(3) by (simp add: batch.no_get_def)
  ultimately show ?thesis
    using batch.reachable_contents [OF assms(1)] by (simp add: ThreadSafeBatchQueue_def)
qed

lemma example_batch_reachable:
  "sys_reachable batch_sec ebq0 \<lparr>sys_q = ebq1, sys_wait = [], sys_ready = [],
     sys_log = [(6, QPush (example_batch_chunk 0 6), Return None)]\<rparr>"
  by (rule reach_step [OF reach_init], rule step_call_idle [where t = 6 and op = "QPush (example_batch_chunk 0 6)"
        and r = "Return None" and q' = ebq1 and ns = "[NotifyOne EmptyCV, NotifyAll (DataCV 1)]"])
     (simp_all only: sys.simps ebq_sections, simp_all add: inside_def ended_def)

theorem batch_queue_fifo_witness:
  "pushed [(6 :: nat, QPush (example_batch_chunk 0 6), Return None)] = bq_queue ebq1"
  using batch_queue_fifo [OF example_batch_reachable [unfolded ebq0_def]] by simp

section \<open>Freeing what was not read\<close>

definition set_values :: "'a option list \<Rightarrow> 'a list" where
  "set_values xs = map the (filter (\<lambda>x. x \<noteq> None) xs)"

lemma set_values_update:
  assumes "i < length xs" "xs ! i = Some v"
  shows "mset (set_values xs) = add_mset v (mset (set_values (xs[i := None])))"
proof -
  have xs: "xs = take i xs @ xs ! i # drop (Suc i) xs" using assms(1) by (simp add: id_take_nth_drop)
  have "set_values xs = set_values (take i xs) @ v # set_values (drop (Suc i) xs)"
    using assms(2) by (subst xs) (simp add: set_values_def)
  moreover have "set_values (xs[i := None]) = set_values (take i xs) @ set_values (drop (Suc i) xs)"
    using assms(1) by (simp add: upd_conv_take_nth_drop set_values_def)
  ultimately show ?thesis by simp
qed

lemma first_set_None: "first_set i xs = None \<Longrightarrow> filled xs = 0"
  by (induction i xs rule: first_set.induct) (auto simp: filled_def split: if_splits)

definition counts_ok :: "BatchQueue \<Rightarrow> bool" where
  "counts_ok q \<longleftrightarrow> bq_itemsToRead q = int (filled (bq_data q)) \<and> length (bq_queue q) = filled (bq_data q)"

lemma free_step:
  assumes "counts_ok q" "first_set 0 (bq_data q) = Some idx" "bq_queue q = c # rest"
  defines "rv \<equiv> readValue idx (q\<lparr>bq_queue := rest\<rparr>)"
  defines "fb \<equiv> finish_batch (snd rv)"
  shows "counts_ok (fst fb)" "bq_data (fst fb) = (bq_data q)[idx := None]"
    "bq_activeProducers (fst fb) = bq_activeProducers q"
    "mset (set_values (bq_data q)) = add_mset (the (fst rv)) (mset (set_values (bq_data (fst fb))))"
proof -
  have i: "idx < length (bq_data q)" "bq_data q ! idx \<noteq> None"
    using first_set_Some [OF assms(2)] by simp_all
  then obtain v where v: "bq_data q ! idx = Some v" by auto
  have fl: "filled (bq_data q) = Suc (filled ((bq_data q)[idx := None]))" using filled_None [OF i] .
  obtain q2 ns where f: "finish_batch (snd rv) = (q2, ns)" by fastforce
  note fr = finish_batch_frame [OF f]
  have r: "bq_data (snd rv) = (bq_data q)[idx := None]" "bq_queue (snd rv) = rest"
    "bq_itemsToRead (snd rv) = bq_itemsToRead q - 1" "bq_activeProducers (snd rv) = bq_activeProducers q"
    "fst rv = Some v"
    by (simp_all add: rv_def readValue_def Let_def v)
  show "bq_data (fst fb) = (bq_data q)[idx := None]" "bq_activeProducers (fst fb) = bq_activeProducers q"
    using f fr r by (simp_all add: fb_def)
  show "counts_ok (fst fb)"
    using assms(1,3) f fr r fl by (simp add: counts_ok_def fb_def)
  show "mset (set_values (bq_data q)) = add_mset (the (fst rv)) (mset (set_values (bq_data (fst fb))))"
    using set_values_update [OF i(1) v] f fr r by (simp add: fb_def)
qed

lemma free_section_frees:
  "counts_ok q \<Longrightarrow> \<exists>r q' ns freed. free_section q = Some ((r, q', ns), freed) \<and>
     r = (if bq_activeProducers q = 0 then Return True else Wait EmptyCV) \<and> filled (bq_data q') = 0 \<and>
     mset freed = mset (set_values (bq_data q))"
proof (induction q rule: free_section.induct)
  case (1 q)
  show ?case
  proof (cases "filled (bq_data q) = 0")
    case True
    then have "bq_itemsToRead q = 0" "set_values (bq_data q) = []"
      using 1(2) by (auto simp: counts_ok_def set_values_def filled_def filter_empty_conv)
    with True show ?thesis by (subst free_section.simps) auto
  next
    case False
    then have items: "bq_itemsToRead q \<noteq> 0" using 1(2) by (simp add: counts_ok_def)
    obtain c rest where q: "bq_queue q = c # rest"
      using 1(2) False by (cases "bq_queue q") (auto simp: counts_ok_def)
    obtain idx where idx: "first_set 0 (bq_data q) = Some idx"
      using first_set_None False by (cases "first_set 0 (bq_data q)") auto
    define rv where "rv = readValue idx (q\<lparr>bq_queue := rest\<rparr>)"
    define fb where "fb = finish_batch (snd rv)"
    note st = free_step [OF 1(2) idx q, folded rv_def, folded fb_def]
    obtain r q' ns freed where ih: "free_section (fst fb) = Some ((r, q', ns), freed)"
      "r = (if bq_activeProducers (fst fb) = 0 then Return True else Wait EmptyCV)" "filled (bq_data q') = 0"
      "mset freed = mset (set_values (bq_data (fst fb)))"
      using 1(1) [OF items idx q rv_def fb_def st(1)] by blast
    have "free_section q = Some ((r, q', snd fb @ ns), the (fst rv) # freed)"
      using items idx q ih(1) by (subst free_section.simps) (simp add: rv_def fb_def Let_def)
    with ih st(3,4) show ?thesis by simp
  qed
qed

text \<open>C31. The destructor's \<open>FreeBatchData\<close> frees every chunk that is still in a slot, each once, in
  every state of a run, and never loops for ever while it holds the mutex: it then waits for the
  producers that are left, or returns when there are none.\<close>

theorem free_batch_data_frees_all:
  assumes "batch_run B ids q nx" "0 < sint B" "distinct ids"
  shows "\<exists>r q' ns freed. free_section q = Some ((r, q', ns), freed) \<and>
    r = (if bq_activeProducers q = 0 then Return True else Wait EmptyCV) \<and>
    set_values (bq_data q') = [] \<and> mset freed = mset (set_values (bq_data q))"
proof -
  have "counts_ok q" using batch_run_inv [OF assms] by (simp add: batch_inv_def counts_ok_def)
  then obtain r q' ns freed where f: "free_section q = Some ((r, q', ns), freed)"
    "r = (if bq_activeProducers q = 0 then Return True else Wait EmptyCV)" "filled (bq_data q') = 0"
    "mset freed = mset (set_values (bq_data q))"
    using free_section_frees by blast
  moreover have "set_values (bq_data q') = []" using f(3) by (simp add: filled_def set_values_def)
  ultimately show ?thesis by blast
qed

theorem free_batch_data_frees_all_witness:
  "\<exists>r q' ns freed. free_section ebq1 = Some ((r, q', ns), freed) \<and> mset freed = {#example_batch_chunk 0 6#}"
  using free_batch_data_frees_all [OF ebq1_run] by (auto simp: ebq_defs set_values_def)

text \<open>Once its producer has finished, \<open>Get\<close> no longer looks at the batch: asked for chunk 1 of a
  producer that finished after pushing chunk 0 into its only slot, it returns chunk 0.\<close>

theorem batch_get_after_delete_wrong_chunk:
  "\<exists>q nx q' ns c. batch_run 1 [5] q nx \<and> nx 5 = 1 \<and> bq_Get 5 1 q = (Return (Some c), q', ns) \<and>
     unat (chunk_id c) = 0"
proof -
  let ?q0 = "ThreadSafeBatchQueue 1 [5]" and ?c = "example_batch_chunk 0 5"
  let ?q1 = "?q0\<lparr>bq_queue := [?c], bq_data := [Some ?c], bq_itemsToRead := 1\<rparr>"
  let ?q2 = "?q1\<lparr>bq_active := [False], bq_activeProducers := 0\<rparr>"
  have "bq_Push ?c ?q0 = (Return None, ?q1, [NotifyOne EmptyCV, NotifyAll (DataCV 0)])"
    by (simp add: ThreadSafeBatchQueue_def bq_eval)
  then have "batch_run 1 [5] ?q1 ((\<lambda>_. 0)([5] ! 0 := Suc ((\<lambda>_. 0) ([5] ! 0 :: int))))"
    by (intro run_push [OF run_init, where i = 0 and c = ?c])
       (simp_all add: value_partition_def example_batch_chunk_def NewChunk_def ThreadSafeBatchQueue_def)
  moreover have "bq_DeleteProducer ([5] ! 0) ?q1 = (Return None, ?q2, [NotifyAll EmptyCV])"
    by (simp add: ThreadSafeBatchQueue_def bq_eval)
  ultimately have "batch_run 1 [5] ?q2 ((\<lambda>_. 0)(5 := 1))"
    using run_delete [where i = 0] by fastforce
  moreover have "\<exists>q' ns. bq_Get 5 1 ?q2 = (Return (Some ?c), q', ns)"
    using smod_nat [of 1 1] by (simp add: ThreadSafeBatchQueue_def bq_eval)
  moreover have "unat (chunk_id ?c) = 0" by (simp add: example_batch_chunk_def NewChunk_def)
  ultimately show ?thesis by (metis fun_upd_same)
qed

end
