(* ===== verification/TsvWriter.thy ===== *)
theory TsvWriter
  imports Hdat_Roundtrip SqlText
begin

text \<open>
  \<^verbatim>\<open>TsvTableWriter::ChunkToTSV\<close> (\<^verbatim>\<open>tsv_table_writer.cpp\<close>): the rows of a chunk as tab-separated text
  for \<^verbatim>\<open>LOAD DATA\<close>. The decimal text of a double (\<^verbatim>\<open>sprintf("%.17e")\<close>) is the argument \<open>print_e\<close>.
\<close>

section \<open>The code\<close>

definition tsv_null :: string where "tsv_null = [CHR 0x5C, CHR ''N'']"
definition tab :: char where "tab = CHR 0x09"
definition newline :: char where "newline = CHR 0x0A"
definition backslash :: char where "backslash = CHR 0x5C"

definition string_of_bytes :: "u8 list \<Rightarrow> string" where
  "string_of_bytes bs = map (\<lambda>b. char_of (unat b)) bs"

text \<open>\<^verbatim>\<open>std::string(buf, len)\<close> of a pointer into the chunk's buffer.\<close>

definition string_in :: "u64 option \<Rightarrow> nat \<Rightarrow> Reader \<Rightarrow> fault + string" where
  "string_in p len r =
     (case p of
        None \<Rightarrow> Inl UndefinedBehaviour
      | Some off \<Rightarrow>
          if unat off + len \<le> length (r_mem r) then Inr (string_of_bytes (peek (unat off) len (r_mem r)))
          else Inl UndefinedBehaviour)"

definition tsv_quoted :: "string \<Rightarrow> string" where
  "tsv_quoted s = quoted CHR 0x22 backslash s"

text \<open>\<^verbatim>\<open>sprintf\<close> into a buffer of 30 bytes.\<close>

definition tsv_double :: "(u64 \<Rightarrow> string) \<Rightarrow> u64 \<Rightarrow> fault + string" where
  "tsv_double print_e d = (if length (print_e d) < 30 then Inr (print_e d) else Inl UndefinedBehaviour)"

text \<open>What every case does with what it has read; \<open>None\<close> is \<^verbatim>\<open>return false\<close>.\<close>

definition tsv_value ::
  "fault + (('v \<times> bool) option \<times> Reader) \<Rightarrow> ('v \<Rightarrow> Reader \<Rightarrow> fault + string) \<Rightarrow> fault + (string option \<times> Reader)" where
  "tsv_value x show_value =
     and_then x (\<lambda>(v, r).
     case v of
       None \<Rightarrow> Inr (None, r)
     | Some (a, is_null) \<Rightarrow>
         if is_null then Inr (Some tsv_null, r)
         else and_then (show_value a r) (\<lambda>s. Inr (Some s, r)))"

definition tsv_column :: "(u64 \<Rightarrow> string) \<Rightarrow> Column \<Rightarrow> Reader \<Rightarrow> fault + (string option \<times> Reader)" where
  "tsv_column print_e c r =
     (case col_type c of
        Int64 \<Rightarrow> tsv_value (ReadInt64 r) (\<lambda>v _. Inr (int_to_string (sint v)))
      | Int32 \<Rightarrow> tsv_value (ReadInt32 r) (\<lambda>v _. Inr (int_to_string (sint v)))
      | Double \<Rightarrow> tsv_value (ReadFloat r) (\<lambda>v _. tsv_double print_e v)
      | Variable \<Rightarrow>
          tsv_value (and_then (ReadVariable r) (\<lambda>(v, r'). Inr (map_option (\<lambda>(p, len, null). ((p, len), null)) v, r')))
            (\<lambda>(p, len) r'. and_then (string_in p (unat len) r') (\<lambda>s. Inr (tsv_quoted s)))
      | Fixed \<Rightarrow>
          tsv_value (ReadFixed (col_size c) r)
            (\<lambda>p r'. and_then (string_in p (unat (col_size c)) r') (\<lambda>s. Inr (tsv_quoted s)))
      | DateTime \<Rightarrow> tsv_value (ReadInt64 r) (\<lambda>v _. fromDateTimeCAS v)
      | Time \<Rightarrow> tsv_value (ReadInt64 r) (\<lambda>v _. fromTimeCAS v)
      | Date \<Rightarrow> tsv_value (ReadInt32 r) (\<lambda>v _. fromDateCAS v)
      | Unsupported \<Rightarrow> Inr (None, r))"

fun tsv_columns :: "(u64 \<Rightarrow> string) \<Rightarrow> nat \<Rightarrow> RowSchema \<Rightarrow> string \<Rightarrow> Reader \<Rightarrow> fault + (string option \<times> Reader)" where
  "tsv_columns print_e col_num [] out r = Inr (Some out, r)"
| "tsv_columns print_e col_num (c # cs) out r =
     (let out1 = (if 0 < col_num then out @ [tab] else out) in
      and_then (tsv_column print_e c r) (\<lambda>(v, r').
      case v of
        None \<Rightarrow> Inr (None, r')
      | Some s \<Rightarrow> tsv_columns print_e (Suc col_num) cs (out1 @ s) r'))"

fun tsv_rows :: "(u64 \<Rightarrow> string) \<Rightarrow> nat \<Rightarrow> nat \<Rightarrow> string \<Rightarrow> Reader \<Rightarrow> fault + (string option \<times> Reader)" where
  "tsv_rows print_e row_num 0 out r = Inr (Some out, r)"
| "tsv_rows print_e row_num (Suc n) out r =
     (let out1 = (if 0 < row_num then out @ [newline] else out) in
      and_then (tsv_columns print_e 0 (r_schema r) out1 r) (\<lambda>(v, r').
      case v of
        None \<Rightarrow> Inr (None, r')
      | Some out2 \<Rightarrow> tsv_rows print_e (Suc row_num) n out2 r'))"

definition ChunkToTSV :: "(u64 \<Rightarrow> string) \<Rightarrow> i64 \<Rightarrow> Reader \<Rightarrow> fault + (string option \<times> Reader)" where
  "ChunkToTSV print_e row_cnt r = tsv_rows print_e 0 (nat (sint row_cnt)) '''' r"

section \<open>The text of a table\<close>

text \<open>
  What the text is meant to be, from the values a reader delivers: the text of each value, \<open>None\<close>
  for null; strings quoted; fields and lines separated.
\<close>

fun value_text :: "(u64 \<Rightarrow> string) \<Rightarrow> Column \<Rightarrow> rvalue \<Rightarrow> fault + string option" where
  "value_text print_e c RNull = Inr None"
| "value_text print_e c (RInt64 v) =
     (case col_type c of
        DateTime \<Rightarrow> and_then (fromDateTimeCAS v) (\<lambda>s. Inr (Some s))
      | Time \<Rightarrow> and_then (fromTimeCAS v) (\<lambda>s. Inr (Some s))
      | _ \<Rightarrow> Inr (Some (int_to_string (sint v))))"
| "value_text print_e c (RInt32 v) =
     (case col_type c of
        Date \<Rightarrow> and_then (fromDateCAS v) (\<lambda>s. Inr (Some s))
      | _ \<Rightarrow> Inr (Some (int_to_string (sint v))))"
| "value_text print_e c (RDouble d) = and_then (tsv_double print_e d) (\<lambda>s. Inr (Some s))"
| "value_text print_e c (RBytes bs) = Inr (Some (string_of_bytes bs))"

definition is_string :: "Column \<Rightarrow> bool" where
  "is_string c \<longleftrightarrow> col_type c = Variable \<or> col_type c = Fixed"

definition cell_text :: "Column \<Rightarrow> string option \<Rightarrow> string" where
  "cell_text c v = (case v of None \<Rightarrow> tsv_null | Some s \<Rightarrow> if is_string c then tsv_quoted s else s)"

fun separated :: "char \<Rightarrow> string list \<Rightarrow> string" where
  "separated sp [] = ''''"
| "separated sp [s] = s"
| "separated sp (s # s' # ss) = s @ sp # separated sp (s' # ss)"

definition line_text :: "RowSchema \<Rightarrow> string option list \<Rightarrow> string" where
  "line_text cs vs = separated tab (map2 cell_text cs vs)"

definition table_text :: "RowSchema \<Rightarrow> string option list list \<Rightarrow> string" where
  "table_text cs rows = separated newline (map (line_text cs) rows)"

section \<open>The code computes the text\<close>

lemma read_schema:
  "ReadInt32 r = Inr (i, r') \<Longrightarrow> r_schema r' = r_schema r"
  "ReadFixed len r = Inr (p, r') \<Longrightarrow> r_schema r' = r_schema r"
  "ReadVariable r = Inr (x, r') \<Longrightarrow> r_schema r' = r_schema r"
  by (auto simp: ReadInt32_def ReadFixed_def ReadVariable_def and_then_Inr_iff Let_def
      split: if_splits option.splits)

lemma tsv_column_field:
  assumes "reader_ok r" "field_at (r_mem r) v (r_off r) f" "readable c f"
    and "r_off r + field_width f + v \<le> length (r_mem r)" "value_text pr c (field_value c f) = Inr t"
    and "offset_set v f"
  shows "\<exists>r'. tsv_column pr c r = Inr (Some (cell_text c t), r') \<and> moved (field_width f) r r' \<and>
    r_schema r' = r_schema r"
proof (cases f)
  case (F8 x)
  note rd = read_F8 [OF assms(1) _ assms(2) [unfolded F8]]
  show ?thesis
    using assms(3-5) F8 rd
    by (cases "col_type c")
       (auto simp: tsv_column_def tsv_value_def cell_text_def is_string_def and_then_Inr_iff split: if_splits)
next
  case (F4 x)
  have r: "\<exists>r'. ReadInt32 r = Inr (Some (x, x = int32Null), r') \<and> moved 8 r r' \<and> r_schema r' = r_schema r"
  proof -
    obtain r' where r': "ReadInt32 r = Inr (Some (x, x = int32Null), r')" "moved 8 r r'"
      using read_F4 [OF assms(1) _ assms(2) [unfolded F4]] assms(4) F4 by auto
    with read_schema(1) [OF r'(1)] show ?thesis by blast
  qed
  then show ?thesis
    using assms(3,5) F4
    by (cases "col_type c")
       (auto simp: tsv_column_def tsv_value_def cell_text_def is_string_def and_then_Inr_iff split: if_splits)
next
  case (FFixed bs)
  show ?thesis
  proof (cases "unat (col_size c) = 0")
    case True
    then have "col_size c = 0" "bs = []"
      using assms(3) FFixed by (simp_all add: aligned8_def unat_eq_zero)
    then show ?thesis
      using assms(1,3,5) FFixed
      by (simp add: tsv_column_def tsv_value_def ReadFixed_def moved_def cell_text_def)
  next
    case False
    obtain r' where r': "ReadFixed (col_size c) r =
      Inr (Some (Some (sc_offset (r_sc r)),
        take (unat (col_size c)) bs = replicate (unat (col_size c)) 0 \<or>
        take (unat (col_size c)) bs = replicate (unat (col_size c)) 32), r')" "moved (length bs) r r'"
      using read_FFixed [OF assms(1) _ assms(2) [unfolded FFixed]] assms(3,4) FFixed False by auto
    have sch: "r_schema r' = r_schema r" by (rule read_schema(2) [OF r'(1)])
    have le: "unat (col_size c) \<le> length bs" using assms(3) FFixed aligned8_ge by simp
    have "peek (r_off r) (length bs) (r_mem r) = bs" using assms(2) FFixed by simp
    then have pk: "peek (r_off r) (unat (col_size c)) (r_mem r') = take (unat (col_size c)) bs"
      using r'(2) le unfolding moved_def peek_def by (metis min.absorb1 take_take)
    moreover have "r_off r + unat (col_size c) \<le> length (r_mem r')"
      using assms(4) FFixed le r'(2) by (simp add: moved_def)
    ultimately show ?thesis
      using r' False assms(3,5) FFixed sch
      by (auto simp: tsv_column_def tsv_value_def string_in_def cell_text_def is_string_def Let_def split: if_splits)
  qed
next
  case (FVar bs)
  show ?thesis
  proof (cases "bs = []")
    case True
    then obtain r' where rv: "ReadVariable r = Inr (Some (None, 0, True), r')" "moved 16 r r'"
      using read_FVar_empty [OF assms(1) _ assms(2) [unfolded FVar True]] assms(4,6) FVar by auto
    with read_schema(3) [OF rv(1)] True assms(3,5) FVar show ?thesis
      by (auto simp: tsv_column_def tsv_value_def cell_text_def)
  next
    case False
    then obtain r' p len where rv: "ReadVariable r = Inr (Some (Some p, len, False), r')" "unat len = length bs"
      "peek (unat p) (length bs) (r_mem r') = bs" "moved 16 r r'"
      using read_FVar [OF assms(1) _ assms(2) [unfolded FVar]] assms(4) FVar by auto
    have "r_schema r' = r_schema r" by (rule read_schema(3) [OF rv(1)])
    moreover from False rv(3) have "unat p + length bs \<le> length (r_mem r')"
      using length_peek [of "unat p" "length bs" "r_mem r'"] by (cases bs) auto
    ultimately show ?thesis
      using rv assms(3,5) FVar False
      by (auto simp: tsv_column_def tsv_value_def string_in_def cell_text_def is_string_def)
  qed
qed

text \<open>The texts of the values of a row.\<close>

fun row_texts :: "(u64 \<Rightarrow> string) \<Rightarrow> RowSchema \<Rightarrow> rvalue list \<Rightarrow> string option list \<Rightarrow> bool" where
  "row_texts pr [] [] [] \<longleftrightarrow> True"
| "row_texts pr (c # cs) (v # vs) (t # ts) \<longleftrightarrow> value_text pr c v = Inr t \<and> row_texts pr cs vs ts"
| "row_texts pr _ _ _ \<longleftrightarrow> False"

definition more_text :: "char \<Rightarrow> nat \<Rightarrow> string list \<Rightarrow> string" where
  "more_text sp k ss = (if k = 0 then separated sp ss else concat (map (\<lambda>s. sp # s) ss))"

lemma separated_Cons: "separated sp (s # ss) = s @ concat (map (\<lambda>s. sp # s) ss)"
  by (induction ss arbitrary: s) simp_all

lemma more_text_Cons:
  "more_text sp k (s # ss) = (if 0 < k then [sp] else []) @ s @ more_text sp (Suc k) ss"
  by (simp add: more_text_def separated_Cons)

lemma more_text_Nil [simp]: "more_text sp k [] = ''''"
  by (simp add: more_text_def)

lemma tsv_columns_fields:
  assumes "list_all2 readable cs fs" "reader_ok r" "fields_at (r_mem r) v (r_off r) fs" "offsets_set v fs"
    and "r_off r + fields_width fs + v + fields_tail fs \<le> length (r_mem r)" "row_texts pr cs (map2 field_value cs fs) ts"
  shows "\<exists>r'. tsv_columns pr k cs out r = Inr (Some (out @ more_text tab k (map2 cell_text cs ts)), r') \<and>
    moved (fields_width fs) r r' \<and> r_schema r' = r_schema r"
  using assms
proof (induction cs fs arbitrary: r v k out ts rule: list_all2_induct)
  case Nil
  then show ?case by (cases ts) (simp_all add: moved_def fields_width_def)
next
  case (Cons c cs f fs)
  then obtain t ts' where t: "ts = t # ts'" "value_text pr c (field_value c f) = Inr t"
    "row_texts pr cs (map2 field_value cs fs) ts'"
    by (cases ts) auto
  obtain r1 where r1: "tsv_column pr c r = Inr (Some (cell_text c t), r1)" "moved (field_width f) r r1"
    "r_schema r1 = r_schema r"
    using tsv_column_field [of r "v + field_tail f" f c pr t] Cons t by auto
  note m = r1(2) [unfolded moved_def]
  let ?out = "(if 0 < k then out @ [tab] else out) @ cell_text c t"
  obtain r2 where "tsv_columns pr (Suc k) cs ?out r1 =
      Inr (Some (?out @ more_text tab (Suc k) (map2 cell_text cs ts')), r2)"
    "moved (fields_width fs) r1 r2" "r_schema r2 = r_schema r1"
    using Cons.IH [of r1 "v + field_tail f" ts' "Suc k" ?out] Cons.prems m t(3) by (auto simp: add.assoc)
  with r1 m t(1) show ?case
    by (auto simp: moved_def add.assoc more_text_Cons)
qed

lemma tsv_rows_fields:
  assumes "list_all2 (\<lambda>fs ts. list_all2 readable cs fs \<and> row_texts pr cs (map2 field_value cs fs) ts) rows texts"
    and "at_rows r v rows" "r_schema r = cs"
  shows "\<exists>r'. tsv_rows pr k (length rows) out r =
    Inr (Some (out @ more_text newline k (map (line_text cs) texts)), r')"
  using assms
proof (induction rows texts arbitrary: r v k out rule: list_all2_induct)
  case Nil
  then show ?case by simp
next
  case (Cons fs rows ts texts)
  note at = at_rows_Cons [OF Cons.prems(1)]
  let ?out = "if 0 < k then out @ [newline] else out"
  obtain r1 where r1: "tsv_columns pr 0 cs ?out r = Inr (Some (?out @ line_text cs ts), r1)"
    "moved (fields_width fs) r r1" "r_schema r1 = cs"
    using tsv_columns_fields [OF _ at(1-4), of cs pr ts 0 ?out] Cons.prems(2) Cons.hyps
    by (auto simp: line_text_def more_text_def)
  obtain r2 where "tsv_rows pr (Suc k) (length rows) (?out @ line_text cs ts) r1 =
      Inr (Some ((?out @ line_text cs ts) @ more_text newline (Suc k) (map (line_text cs) texts)), r2)"
    using Cons.IH [OF at(5) [OF r1(2)] r1(3), of "Suc k" "?out @ line_text cs ts"] by auto
  with r1(1) Cons.prems(2) show ?case
    by (auto simp: more_text_Cons)
qed

section \<open>Reading the text back\<close>

text \<open>
  How \<^verbatim>\<open>LOAD DATA ... FIELDS OPTIONALLY ENCLOSED BY '"'\<close> reads the text: a field that starts with
  the quote extends to the next quote that is not escaped, any other to the next tab or newline;
  \<open>\N\<close> is null.
\<close>

definition lex_field :: "string \<Rightarrow> (string option \<times> string) option" where
  "lex_field s =
     (if s \<noteq> [] \<and> hd s = CHR 0x22 then
        map_option (\<lambda>(v, rest). (Some v, rest)) (lex_quoted CHR 0x22 backslash s)
      else
        let f = takeWhile (\<lambda>c. c \<noteq> tab \<and> c \<noteq> newline) s in
        Some (if f = tsv_null then None else Some f, dropWhile (\<lambda>c. c \<noteq> tab \<and> c \<noteq> newline) s))"

fun lex_table :: "nat \<Rightarrow> string \<Rightarrow> string option list list option" where
  "lex_table 0 s = None"
| "lex_table (Suc n) s =
     (case lex_field s of
        None \<Rightarrow> None
      | Some (v, []) \<Rightarrow> Some [[v]]
      | Some (v, c # rest) \<Rightarrow>
          (case lex_table n rest of
             None \<Rightarrow> None
           | Some lines \<Rightarrow>
               if c = newline then Some ([v] # lines)
               else if c = tab then Some ((v # hd lines) # tl lines)
               else None))"

definition plain :: "string \<Rightarrow> bool" where
  "plain s \<longleftrightarrow> list_all (\<lambda>c. c \<notin> {tab, newline, backslash, CHR 0x22}) s"

lemma plain_append [simp]: "plain (s @ t) \<longleftrightarrow> plain s \<and> plain t"
  by (simp add: plain_def)

lemma plain_Cons: "plain (c # s) \<longleftrightarrow> c \<notin> {tab, newline, backslash, CHR 0x22} \<and> plain s"
  by (simp add: plain_def)

lemma plain_Nil [simp]: "plain ''''"
  by (simp add: plain_def)

lemma plain_int [simp]: "plain (int_to_string i)"
proof -
  have "c \<notin> {tab, newline, backslash, CHR 0x22}" if "is_digit c" for c
    using that by (auto simp: is_digit_def tab_def newline_def backslash_def)
  then have "plain (nat_to_string n)" for n
    using nat_to_string_digits [of n] by (auto simp: plain_def list_all_iff)
  then show ?thesis
    by (simp add: int_to_string_def plain_Cons tab_def newline_def backslash_def)
qed

lemma plain_zero_padded [simp]: "plain (zero_padded w i)"
  by (simp add: zero_padded_def plain_def [of "replicate _ _"] list_all_iff tab_def newline_def backslash_def)

lemma plain_date [simp]: "plain (strftime_date t)" "plain (strftime_datetime t)"
  by (simp_all add: strftime_date_def strftime_datetime_def plain_Cons tab_def newline_def backslash_def)

text \<open>The text of a value that is not quoted has no special characters; doubles by assumption.\<close>

lemma plain_value_text:
  assumes "value_text pr c v = Inr (Some s)" "\<forall>d. plain (pr d)" "\<nexists>bs. v = RBytes bs"
  shows "plain s"
proof (cases v)
  case (RInt64 x)
  have "plain u" if "fromDateTimeCAS x = Inr u" for u
    using that by (auto simp: fromDateTimeCAS_def Let_def plain_Cons tab_def newline_def backslash_def split: if_splits)
  moreover have "plain u" if "fromTimeCAS x = Inr u" for u
    using that by (auto simp: fromTimeCAS_def Let_def plain_Cons tab_def newline_def backslash_def split: if_splits)
  ultimately show ?thesis
    using assms(1) RInt64 by (cases "col_type c") (auto simp: and_then_Inr_iff)
next
  case (RInt32 x)
  have "plain u" if "fromDateCAS x = Inr u" for u
    using that by (auto simp: fromDateCAS_def Let_def split: if_splits)
  then show ?thesis
    using assms(1) RInt32 by (cases "col_type c") (auto simp: and_then_Inr_iff)
next
  case (RDouble d)
  then show ?thesis using assms(1,2) by (auto simp: and_then_Inr_iff tsv_double_def split: if_splits)
qed (use assms in auto)

definition cell_plain :: "Column \<Rightarrow> string option \<Rightarrow> bool" where
  "cell_plain c v \<longleftrightarrow> is_string c \<or> (case v of None \<Rightarrow> True | Some s \<Rightarrow> plain s)"

lemma takeWhile_plain:
  assumes "list_all (\<lambda>c. c \<noteq> tab \<and> c \<noteq> newline) s" "rest = [] \<or> hd rest \<in> {tab, newline}"
  shows "takeWhile (\<lambda>c. c \<noteq> tab \<and> c \<noteq> newline) (s @ rest) = s"
    "dropWhile (\<lambda>c. c \<noteq> tab \<and> c \<noteq> newline) (s @ rest) = rest"
proof -
  have s: "\<forall>c \<in> set s. c \<noteq> tab \<and> c \<noteq> newline" using assms(1) by (simp add: list_all_iff)
  have rest: "takeWhile (\<lambda>c. c \<noteq> tab \<and> c \<noteq> newline) rest = []" "dropWhile (\<lambda>c. c \<noteq> tab \<and> c \<noteq> newline) rest = rest"
    using assms(2) by (cases rest; auto)+
  show "takeWhile (\<lambda>c. c \<noteq> tab \<and> c \<noteq> newline) (s @ rest) = s"
    "dropWhile (\<lambda>c. c \<noteq> tab \<and> c \<noteq> newline) (s @ rest) = rest"
    using s rest by simp_all
qed

lemma lex_field_cell:
  assumes "cell_plain c v" "rest = [] \<or> hd rest \<in> {tab, newline}"
  shows "lex_field (cell_text c v @ rest) = Some (v, rest)"
proof (cases v)
  case None
  have n: "list_all (\<lambda>c. c \<noteq> tab \<and> c \<noteq> newline) tsv_null" "tsv_null \<noteq> []" "hd tsv_null \<noteq> CHR 0x22"
    by (simp_all add: tsv_null_def tab_def newline_def)
  with None takeWhile_plain [OF n(1) assms(2)] show ?thesis
    by (simp add: cell_text_def lex_field_def)
next
  case (Some s)
  show ?thesis
  proof (cases "is_string c")
    case True
    have "lex_quoted CHR 0x22 backslash (quoted CHR 0x22 backslash s @ rest) = Some (s, rest)"
      by (rule lex_quoted_quoted) (simp add: backslash_def)
    with Some True show ?thesis
      by (simp add: cell_text_def lex_field_def tsv_quoted_def) (simp add: quoted_def)
  next
    case False
    with assms(1) Some have p: "plain s" by (simp add: cell_plain_def)
    then have s: "list_all (\<lambda>c. c \<noteq> tab \<and> c \<noteq> newline) s" "s \<noteq> tsv_null" "s @ rest = [] \<or> hd (s @ rest) \<noteq> CHR 0x22"
      using assms(2)
      by (cases s; cases rest; auto simp: plain_def list_all_iff tsv_null_def backslash_def tab_def newline_def)+
    with Some False takeWhile_plain [OF s(1) assms(2)] show ?thesis
      by (auto simp: cell_text_def lex_field_def Let_def)
  qed
qed

lemma lex_line:
  assumes "list_all2 cell_plain (c # cs) (v # vs)" "rest = [] \<or> hd rest = newline" "length cs < n"
  shows "lex_table n (line_text (c # cs) (v # vs) @ rest) =
    (if rest = [] then Some [v # vs]
     else map_option (\<lambda>lines. (v # vs) # lines) (lex_table (n - Suc (length cs)) (tl rest)))"
  using assms
proof (induction cs arbitrary: c v vs n)
  case Nil
  then obtain m where m: "n = Suc m" "vs = []" by (cases n) auto
  then show ?case
    using lex_field_cell [of c v rest] Nil.prems
    by (cases rest) (auto simp: line_text_def split: option.splits)
next
  case (Cons d ds)
  then obtain w ws m where w: "vs = w # ws" "n = Suc m" by (cases vs; cases n) auto
  let ?t = "line_text (d # ds) (w # ws) @ rest"
  have "lex_field (cell_text c v @ tab # ?t) = Some (v, tab # ?t)"
    using Cons.prems by (intro lex_field_cell) auto
  moreover have "line_text (c # d # ds) (v # vs) @ rest = cell_text c v @ tab # ?t"
    by (simp add: line_text_def w)
  moreover have "tab \<noteq> newline" by (simp add: tab_def newline_def)
  ultimately show ?case
    using Cons.IH [of d w ws m] Cons.prems w by (auto split: option.splits)
qed

lemma lex_table_text:
  assumes "list_all (\<lambda>vs. list_all2 cell_plain cs vs) rows" "cs \<noteq> []" "rows \<noteq> []"
    and "length rows * length cs \<le> n"
  shows "lex_table n (table_text cs rows) = Some rows"
  using assms
proof (induction rows arbitrary: n)
  case (Cons vs rows)
  obtain c cs' where c: "cs = c # cs'" using Cons.prems(2) by (cases cs) auto
  with Cons.prems obtain v vs' where v: "vs = v # vs'" by (cases vs) auto
  have pl: "list_all2 cell_plain (c # cs') (v # vs')" using Cons.prems(1) c v by simp
  have n: "length cs' < n" using Cons.prems(4) c by simp
  show ?case
  proof (cases rows)
    case Nil
    then show ?thesis
      using lex_line [OF pl _ n, of "[]"] by (simp add: table_text_def c v)
  next
    case (Cons vs2 rows2)
    have "table_text cs (vs # rows) = line_text cs vs @ newline # table_text cs rows"
      by (simp add: table_text_def Cons)
    moreover have "lex_table (n - Suc (length cs')) (table_text cs rows) = Some rows"
      using Cons.IH [of "n - Suc (length cs')"] Cons.prems Cons c by simp
    ultimately show ?thesis
      using lex_line [OF pl _ n, of "newline # table_text cs rows"] by (simp add: c v)
  qed
qed simp

lemma field_text_plain:
  assumes "value_text pr c (field_value c f) = Inr t" "readable c f" "\<forall>d. plain (pr d)"
  shows "cell_plain c t"
proof (cases t)
  case (Some s)
  show ?thesis
  proof (cases "is_string c")
    case False
    then have "\<nexists>bs. field_value c f = RBytes bs"
      using assms(2) by (cases f) (auto simp: is_string_def)
    with plain_value_text assms(1,3) Some show ?thesis by (auto simp: cell_plain_def)
  qed (simp add: cell_plain_def)
qed (simp add: cell_plain_def)

lemma row_texts_plain:
  assumes "list_all2 readable cs fs" "row_texts pr cs (map2 field_value cs fs) ts" "\<forall>d. plain (pr d)"
  shows "list_all2 cell_plain cs ts"
  using assms(1,2)
proof (induction cs fs arbitrary: ts rule: list_all2_induct)
  case Nil
  then show ?case by (cases ts) simp_all
next
  case (Cons c cs f fs)
  then show ?case using field_text_plain [OF _ _ assms(3)] by (cases ts) auto
qed

section \<open>The contract\<close>

text \<open>The text of a chunk a client wrote, for the property below and for loading.\<close>

lemma tsv_written_rows:
  assumes "fresh c" "rows_ok cs rs" "first_text cs rs"
    and "write_rows rs (Reset c cs) = Inr (n, w)" "cs \<noteq> []" "0 < n" "n < 2 ^ 63" "\<forall>d. plain (pr d)"
    and "list_all2 (\<lambda>(vs, ls) ts. row_texts pr cs (row_values cs vs ls) ts) (take n rs) texts"
  shows "\<exists>text r'. ChunkToTSV pr (row_count (sc_chunk (w_sc w))) (SuperChunkReader (sc_chunk (w_sc w)) cs) =
      Inr (Some text, r') \<and> lex_table (n * length cs) text = Some texts"
proof -
  let ?rows = "fields_of_rows cs (take n rs)" and ?r = "SuperChunkReader (sc_chunk (w_sc w)) cs"
  have "holds [] (Reset c cs)" using assms(1) by (intro Reset_holds) (simp_all add: fresh_def)
  moreover have "w_schema (Reset c cs) = cs" by (simp add: Reset_def)
  ultimately have n: "n \<le> length rs" and h: "holds ?rows w"
    using write_rows_holds [of "[]" "Reset c cs" rs n w] assms(2,4) by simp_all
  have each: "list_all2 readable cs (row_fields cs vs ls) \<and>
      map2 field_value cs (row_fields cs vs ls) = row_values cs vs ls"
    if "(vs, ls) \<in> set (take n rs)" for vs ls
    using that assms(2) by (intro row_fields_readable) (auto simp: rows_ok_def dest: in_set_takeD)
  have rel: "list_all2 (\<lambda>fs ts. list_all2 readable cs fs \<and> row_texts pr cs (map2 field_value cs fs) ts) ?rows texts"
    unfolding fields_of_rows_def list_all2_map1
    by (rule list.rel_mono_strong [OF assms(9)]) (use each in auto)
  have len: "length ?rows = n" "length texts = n" using n list_all2_lengthD [OF rel] by (simp_all add: fields_of_rows_def)
  have m: "r_schema ?r = cs" by (simp add: SuperChunkReader_def)
  have count: "row_count (sc_chunk (w_sc w)) = of_nat (length ?rows)" using h by (simp add: holds_def)
  have "offsets_set 0 (concat ?rows)"
    using first_text_iff [OF rows_ok_take [OF assms(2)]] first_text_take [OF assms(3)] by simp
  then have at: "at_rows ?r 0 ?rows" by (rule holds_at_rows [OF h])
  have "nat (sint (of_nat n :: u64)) = n"
    using assms(7) sint_word_of_int_id [where ?'n = 64, of "int n"] by simp
  moreover obtain r' where "tsv_rows pr 0 (length ?rows) '''' ?r =
      Inr (Some ('''' @ more_text newline 0 (map (line_text cs) texts)), r')"
    using tsv_rows_fields [OF rel at m] by blast
  ultimately have "ChunkToTSV pr (row_count (sc_chunk (w_sc w))) ?r = Inr (Some (table_text cs texts), r')"
    by (simp add: ChunkToTSV_def count len table_text_def more_text_def)
  moreover have "lex_table (n * length cs) (table_text cs texts) = Some texts"
  proof (rule lex_table_text)
    show "list_all (\<lambda>vs. list_all2 cell_plain cs vs) texts"
      using rel row_texts_plain [OF _ _ assms(8)] unfolding list_all_length list_all2_conv_all_nth by metis
  qed (use assms(5,6) len in auto)
  ultimately show ?thesis by blast
qed

text \<open>C14. From rows to text and back: the text \<^verbatim>\<open>ChunkToTSV\<close> makes of a chunk a client wrote (to a fresh
  chunk, rows with values of their columns' types, at least one row and one column) contains, read as
  \<^verbatim>\<open>LOAD DATA\<close> reads it, exactly the values of the rows, whatever tabs, newlines, quotes and backslashes the
  strings contain, and nulls as nulls. An empty variable-length value is a null, too, and the first
  variable-length value of the chunk, if it has any, must not be null or empty (the reader's assertion). The
  values have texts: doubles print in less than 30 characters without special ones, dates are in range.\<close>

theorem tsv_round_trip:
  assumes "fresh c" "rows_ok cs rs" "first_text cs rs"
    and "write_rows rs (Reset c cs) = Inr (n, w)" "cs \<noteq> []" "0 < n" "n < 2 ^ 63" "\<forall>d. plain (pr d)"
    and "list_all2 (\<lambda>(vs, ls) ts. row_texts pr cs (row_values cs vs ls) ts) (take n rs) texts"
  shows "\<exists>text r'. ChunkToTSV pr (row_count (sc_chunk (w_sc w))) (SuperChunkReader (sc_chunk (w_sc w)) cs) =
      Inr (Some text, r') \<and> lex_table (n * length cs) text = Some texts"
  by (rule tsv_written_rows [OF assms])

lemma example_chars:
  "char_of (48 :: nat) = CHR ''0''" "char_of (49 :: nat) = CHR ''1''" "char_of (50 :: nat) = CHR ''2''"
  "char_of (51 :: nat) = CHR ''3''" "char_of (52 :: nat) = CHR ''4''" "char_of (53 :: nat) = CHR ''5''"
  "char_of (54 :: nat) = CHR ''6''" "char_of (55 :: nat) = CHR ''7''" "char_of (56 :: nat) = CHR ''8''"
  "char_of (57 :: nat) = CHR ''9''" "char_of (65 :: nat) = CHR ''A''" "char_of (66 :: nat) = CHR ''B''"
  "char_of (67 :: nat) = CHR ''C''" "char_of (88 :: nat) = CHR ''X''" "char_of (32 :: nat) = CHR '' ''"
  by code_simp+

definition example_print :: "u64 \<Rightarrow> string" where
  "example_print d = ''0.0e+00''"

lemma example_first: "first_text example_schema [example_row, example_row]"
  by (simp add: first_text_def example_row_def example_schema_def)

lemma example_plain: "\<forall>d. plain (example_print d)"
  by (simp add: example_print_def plain_Cons tab_def newline_def backslash_def)

lemma example_length: "example_schema \<noteq> []" "length example_schema = 3"
  by (simp_all add: example_schema_def)

lemma example_texts:
  "list_all2 (\<lambda>(vs, ls) ts. row_texts example_print example_schema (row_values example_schema vs ls) ts)
    (take 1 [example_row, example_row]) [[Some ''578437695752307201'', Some ''ABC'', Some ''X  '']]"
proof -
  have vals: "(\<lambda>(vs, ls). row_values example_schema vs ls) example_row =
      [RInt64 0x0807060504030201, RBytes [65, 66, 67], RBytes [88, 32, 32]]"
    by (simp add: example_row_def example_schema_def int64_value_def int64Null_def Let_def replicate_few
        push_bit_eq_mult)
  have num: "int_to_string (sint (0x0807060504030201 :: u64)) = ''578437695752307201''"
    by (simp add: int_to_string_def nat_to_string.simps digit_char_def example_chars)
  have "(\<lambda>(vs, ls) ts. row_texts example_print example_schema (row_values example_schema vs ls) ts) example_row
      [Some ''578437695752307201'', Some ''ABC'', Some ''X  '']"
    using vals num by (simp add: split_beta example_schema_def string_of_bytes_def example_chars)
  then show ?thesis by simp
qed

theorem tsv_round_trip_witness:
  "\<exists>w text r'. write_rows [example_row, example_row] (Reset example_chunk example_schema) = Inr (1, w) \<and>
    ChunkToTSV example_print (row_count (sc_chunk (w_sc w))) (SuperChunkReader (sc_chunk (w_sc w)) example_schema) =
      Inr (Some text, r') \<and>
    lex_table 3 text = Some [[Some ''578437695752307201'', Some ''ABC'', Some ''X  '']]"
proof -
  obtain w where w: "write_rows [example_row, example_row] (Reset example_chunk example_schema) = Inr (1, w)"
    using example_written by blast
  with tsv_round_trip [OF example_facts(1,3) example_first w example_length(1) _ _ example_plain example_texts]
  show ?thesis using example_length(2) by fastforce
qed

end
