(* ===== verification/RowSchemas.thy ===== *)
theory RowSchemas
  imports Hdat_Chunk Versions
begin

text \<open>
  How the library learns the schema of a result (\<^verbatim>\<open>utils.cpp\<close>): \<^verbatim>\<open>FieldsToRowSchema\<close> converts the
  field descriptions of the client library, \<^verbatim>\<open>ExplainToRowSchema\<close> parses the text of an
  \<^verbatim>\<open>EXPLAIN EXTENDED\<close>. String positions are \<^verbatim>\<open>std::size_t\<close>, with \<open>npos\<close> the largest one; the
  arithmetic on them wraps, as in the code.
\<close>

section \<open>Fields of the client library\<close>

datatype enum_field_types =
    MYSQL_TYPE_LONG | MYSQL_TYPE_LONGLONG | MYSQL_TYPE_DOUBLE
  | MYSQL_TYPE_STRING | MYSQL_TYPE_VAR_STRING
  | MYSQL_TYPE_LONG_BLOB | MYSQL_TYPE_MEDIUM_BLOB | MYSQL_TYPE_BLOB | MYSQL_TYPE_TINY_BLOB
  | MYSQL_TYPE_DATETIME | MYSQL_TYPE_DATE | MYSQL_TYPE_TIME
  | MYSQL_TYPE_NEWDATE | MYSQL_TYPE_DATETIME2
  | MYSQL_TYPE_other nat

record MYSQL_FIELD =
  fld_name :: string
  fld_org_name :: string
  fld_length :: u64
  fld_type :: enum_field_types

definition strndup :: "string \<Rightarrow> nat \<Rightarrow> string" where
  "strndup s n = takeWhile (\<lambda>c. c \<noteq> CHR 0x00) (take n s)"

text \<open>The \<open>switch\<close>: type and size of the column; the size of the last two cases is left as it is.\<close>

definition field_type :: "MYSQL_FIELD \<Rightarrow> Column \<Rightarrow> Column" where
  "field_type f c =
     (case fld_type f of
        MYSQL_TYPE_LONG \<Rightarrow> c\<lparr>col_type := Int32, col_size := 4\<rparr>
      | MYSQL_TYPE_LONGLONG \<Rightarrow> c\<lparr>col_type := Int64, col_size := 8\<rparr>
      | MYSQL_TYPE_DOUBLE \<Rightarrow> c\<lparr>col_type := Double, col_size := 8\<rparr>
      | MYSQL_TYPE_STRING \<Rightarrow> c\<lparr>col_type := Fixed, col_size := fld_length f\<rparr>
      | MYSQL_TYPE_VAR_STRING \<Rightarrow> c\<lparr>col_type := Variable\<rparr>
      | MYSQL_TYPE_LONG_BLOB \<Rightarrow> c\<lparr>col_type := Variable\<rparr>
      | MYSQL_TYPE_MEDIUM_BLOB \<Rightarrow> c\<lparr>col_type := Variable\<rparr>
      | MYSQL_TYPE_BLOB \<Rightarrow> c\<lparr>col_type := Variable\<rparr>
      | MYSQL_TYPE_TINY_BLOB \<Rightarrow> c\<lparr>col_type := Variable\<rparr>
      | MYSQL_TYPE_DATETIME \<Rightarrow> c\<lparr>col_type := DateTime, col_size := 8\<rparr>
      | MYSQL_TYPE_DATE \<Rightarrow> c\<lparr>col_type := Date, col_size := 4\<rparr>
      | MYSQL_TYPE_TIME \<Rightarrow> c\<lparr>col_type := Time, col_size := 8\<rparr>
      | _ \<Rightarrow> c\<lparr>col_type := Unsupported\<rparr>)"

fun FieldsToRowSchema :: "MYSQL_FIELD list \<Rightarrow> bool \<Rightarrow> RowSchema \<Rightarrow> fault + RowSchema" where
  "FieldsToRowSchema [] useOriginalName cols = Inr cols"
| "FieldsToRowSchema (f # fs) useOriginalName [] = Inl UndefinedBehaviour"
| "FieldsToRowSchema (f # fs) useOriginalName (c # cols) =
     (let name = (if useOriginalName then strndup (fld_org_name f) (length (fld_org_name f))
                  else strndup (fld_name f) (length (fld_name f)))
      in and_then (FieldsToRowSchema fs useOriginalName cols)
           (\<lambda>rest. Inr (field_type f (c\<lparr>col_name := name\<rparr>) # rest)))"

section \<open>std::string\<close>

definition npos :: u64 where "npos = - 1"

text \<open>A count of at most \<open>n\<close>: \<open>npos\<close> stands for all there is.\<close>

definition at_most :: "nat \<Rightarrow> u64 \<Rightarrow> nat" where
  "at_most n w = (if int n < uint w then n else unat w)"

lemma at_most_min: "at_most n w = min n (unat w)"
proof -
  have "int n < uint w \<longleftrightarrow> n < unat w" unfolding uint_nat by (rule of_nat_less_iff)
  then show ?thesis by (simp add: at_most_def min_def)
qed

fun find_from :: "(string \<Rightarrow> bool) \<Rightarrow> nat \<Rightarrow> string \<Rightarrow> nat option" where
  "find_from P i [] = (if P [] then Some i else None)"
| "find_from P i (c # s) = (if P (c # s) then Some i else find_from P (Suc i) s)"

text \<open>\<^verbatim>\<open>s.find(x, pos)\<close> for a string and for a character.\<close>

definition find_string :: "string \<Rightarrow> u64 \<Rightarrow> string \<Rightarrow> u64" where
  "find_string x pos s =
     (if int (length s) < uint pos then npos
      else case find_from (\<lambda>r. take (length x) r = x) (unat pos) (drop (unat pos) s) of
        None \<Rightarrow> npos | Some i \<Rightarrow> of_nat i)"

definition find_char :: "char \<Rightarrow> u64 \<Rightarrow> string \<Rightarrow> u64" where
  "find_char c pos s = find_string [c] pos s"

text \<open>\<^verbatim>\<open>s.substr(pos, len)\<close> and \<^verbatim>\<open>s[pos]\<close>; at the end \<^verbatim>\<open>s[pos]\<close> is the terminating zero.\<close>

definition substr :: "string \<Rightarrow> u64 \<Rightarrow> u64 \<Rightarrow> fault + string" where
  "substr s pos len =
     (if int (length s) < uint pos then Inl (OutOfRange ''basic_string::substr'')
      else Inr (take (at_most (length s) len) (drop (unat pos) s)))"

definition char_at :: "string \<Rightarrow> u64 \<Rightarrow> fault + char" where
  "char_at s pos =
     (if uint pos < int (length s) then Inr (s ! unat pos)
      else if uint pos = int (length s) then Inr (CHR 0x00)
      else Inl UndefinedBehaviour)"

definition stoi :: "string \<Rightarrow> fault + int" where
  "stoi s =
     (case scan_d s of
        None \<Rightarrow> Inl (InvalidArgument ''stoi'')
      | Some (v, r) \<Rightarrow>
          if - INT_MAX - 1 \<le> v \<and> v \<le> INT_MAX then Inr v else Inl (OutOfRange ''stoi''))"

definition to_lower :: "char \<Rightarrow> char" where
  "to_lower c = (let n = (of_char c :: nat) in if 65 \<le> n \<and> n \<le> 90 then char_of (n + 32) else c)"

text \<open>\<^verbatim>\<open>col_type.compare(0, n, lit, 0, n) == 0\<close>.\<close>

definition starts :: "string \<Rightarrow> nat \<Rightarrow> string \<Rightarrow> bool" where
  "starts s n lit \<longleftrightarrow> take n s = take n lit"

section \<open>ExplainToRowSchema\<close>

record FieldDefSplit =
  name_start :: u64
  name_end :: u64
  type_start :: u64
  type_end :: u64
  field_end :: u64

text \<open>
  One iteration of the loop of \<^verbatim>\<open>ShowColumnsToRowSchemaHelper\<close>. The array of columns is not
  initialised, so the size of a column of unsupported type is indeterminate: \<open>uninit\<close>.
\<close>

definition column_of_split :: "i64 \<Rightarrow> string \<Rightarrow> FieldDefSplit \<Rightarrow> fault + Column" where
  "column_of_split uninit explainStr d =
     (if int (length explainStr) < uint (name_start d) then Inl UndefinedBehaviour else
      let name = strndup (drop (unat (name_start d)) explainStr)
                   (at_most (length explainStr) (name_end d - name_start d + 1));
          col = (\<lambda>t sz. \<lparr>col_type = t, col_size = sz, col_name = name\<rparr>)
      in and_then (substr explainStr (type_start d) (type_end d - type_start d + 1)) (\<lambda>raw.
      let col_type = map to_lower raw in
      if starts col_type 6 ''bigint'' then Inr (col Int64 8)
      else if starts col_type 3 ''int'' then Inr (col Int32 4)
      else if starts col_type 6 ''double'' then Inr (col Double 8)
      else if starts col_type 8 ''datetime(6)'' then Inr (col DateTime 8)
      else if starts col_type 4 ''date'' then Inr (col Date 4)
      else if starts col_type 4 ''time'' then Inr (col Time 8)
      else if starts col_type 6 ''binary'' then
        and_then (substr explainStr (type_start d + 7) (type_end d - type_start d - 8)) (\<lambda>n.
        and_then (stoi n) (\<lambda>size. Inr (col Fixed (word_of_int size))))
      else if starts col_type 4 ''char'' then
        and_then (substr explainStr (type_start d + 5) (type_end d - type_start d - 6)) (\<lambda>n.
        and_then (stoi n) (\<lambda>size_in_char.
        and_then (substr explainStr (type_end d) (field_end d - type_end d + 1)) (\<lambda>part.
        let collation_part = map to_lower part;
            char_size = (if find_string ''utf8mb4'' 0 collation_part \<noteq> npos then 4 else 3);
            size = size_in_char * char_size
        in if - INT_MAX - 1 \<le> size \<and> size \<le> INT_MAX then Inr (col Fixed (word_of_int size))
           else Inl UndefinedBehaviour)))
      else if starts col_type 7 ''varchar'' \<or> starts col_type 9 ''varbinary'' \<or>
              starts col_type 8 ''longtext'' \<or> starts col_type 8 ''longblob'' \<or>
              starts col_type 10 ''mediumblob'' \<or> starts col_type 4 ''blob'' \<or>
              starts col_type 8 ''tinyblob'' \<or> starts col_type 10 ''mediumtext'' \<or>
              starts col_type 4 ''text'' \<or> starts col_type 8 ''tinytext'' then Inr (col Variable 0)
      else Inr (col Unsupported uninit)))"

fun ShowColumnsToRowSchemaHelper :: "i64 \<Rightarrow> string \<Rightarrow> FieldDefSplit list \<Rightarrow> fault + RowSchema" where
  "ShowColumnsToRowSchemaHelper uninit explainStr [] = Inr []"
| "ShowColumnsToRowSchemaHelper uninit explainStr (d # ds) =
     and_then (column_of_split uninit explainStr d) (\<lambda>c.
     and_then (ShowColumnsToRowSchemaHelper uninit explainStr ds) (\<lambda>cs. Inr (c # cs)))"

definition backtick :: char where "backtick = CHR 0x60"

text \<open>
  The inner loop skips doubled backticks, the outer one collects the fields. Neither is bounded by
  the text: on malformed input a search that fails wraps around to its beginning, so the loops are
  partial functions, \<open>None\<close> when they do not return.
\<close>

partial_function (option) skip_doubled :: "string \<Rightarrow> u64 \<Rightarrow> (fault + u64) option" where
  "skip_doubled s name_last_backtick =
     (case char_at s (name_last_backtick + 1) of
        Inl e \<Rightarrow> Some (Inl e)
      | Inr c \<Rightarrow>
          if c = backtick then skip_doubled s (find_char backtick (name_last_backtick + 2) s)
          else Some (Inr name_last_backtick))"

partial_function (option) split_fields ::
  "string \<Rightarrow> u64 \<Rightarrow> u64 \<Rightarrow> FieldDefSplit list \<Rightarrow> (fault + FieldDefSplit list) option" where
  "split_fields s end_idx field_end_idx field_defs =
     (if \<not> field_end_idx < end_idx then Some (Inr field_defs) else
      let ns = find_char backtick field_end_idx s + 1 in
      case skip_doubled s (find_char backtick ns s) of
        None \<Rightarrow> None
      | Some (Inl e) \<Rightarrow> Some (Inl e)
      | Some (Inr name_last_backtick) \<Rightarrow>
          let ne = name_last_backtick - 1;
              ts = ne + 3;
              te = find_char CHR '' '' ts s;
              comma = find_char CHR '','' te s;
              fe = (if comma = npos then end_idx else comma)
          in split_fields s end_idx fe
               (field_defs @ [\<lparr>name_start = ns, name_end = ne, type_start = ts, type_end = te, field_end = fe\<rparr>]))"

definition ExplainToRowSchema :: "i64 \<Rightarrow> string \<Rightarrow> (fault + RowSchema) option" where
  "ExplainToRowSchema uninit explainStr =
     (let show_columns_idx = find_string '' show_columns:['' 0 explainStr;
          start_idx = find_char CHR ''['' show_columns_idx explainStr;
          end_idx = find_string ''NULL] '' show_columns_idx explainStr
      in case split_fields explainStr end_idx start_idx [] of
        None \<Rightarrow> None
      | Some (Inl e) \<Rightarrow> Some (Inl e)
      | Some (Inr ds) \<Rightarrow> Some (ShowColumnsToRowSchemaHelper uninit explainStr ds))"

end
