(* ===== verification/Connection.thy ===== *)
theory Connection
  imports Effects RowSchemas Hdat_Writer SqlText
begin

text \<open>
  The class \<^verbatim>\<open>S2Connection\<close> (\<^verbatim>\<open>s2_connection.cpp\<close>): one connection to the database through the
  MySQL client library. The client library and the server behind it are not part of the program:
  they are the argument \<open>my\<close> of the operations, a record of the functions the code calls, over a
  state \<open>'m\<close> of the handle that the model leaves open. Every operation is an action on the object
  (theory \<open>Effects\<close>), so what an exception leaves behind is part of the model.
\<close>

section \<open>The client library\<close>

text \<open>
  A stored result is the list of its rows, each value with its length. A handle that reports an
  error returns \<open>True\<close> where the C function returns a non-zero code and \<open>None\<close> where it returns
  \<open>NULL\<close>. A \<^verbatim>\<open>LOAD DATA LOCAL\<close> asks its handler for buffers of sizes the library chooses
  (\<open>mysql_infile_buffer\<close>), and its outcome depends on the bytes it got (\<open>mysql_query_infile\<close>). \<open>mysql_stmt_fetch\<close> fills the bound buffers: per column \<open>NULL\<close>, or the length of the value
  and what fits of it; \<open>mysql_stmt_fetch_column\<close> fetches one column whole. Beside the library's functions
  there are \<open>sscanf\<close> of a floating-point number, the content of memory that was not written, and whether
  \<^verbatim>\<open>operator new\<close> fails for the arrays of a row (\<open>new_fails\<close>).
\<close>

datatype fetched = FetchedNull | Fetched u64 cell

record 'm mysql =
  mysql_query :: "string \<Rightarrow> 'm \<Rightarrow> bool \<times> 'm"
  mysql_errno :: "'m \<Rightarrow> nat"
  mysql_error :: "'m \<Rightarrow> string"
  mysql_affected_rows :: "'m \<Rightarrow> i64"
  mysql_store_result :: "'m \<Rightarrow> string option list list option \<times> 'm"
  mysql_use_result :: "'m \<Rightarrow> bool \<times> 'm"
  mysql_num_fields :: "'m \<Rightarrow> nat"
  mysql_fetch_fields :: "'m \<Rightarrow> MYSQL_FIELD list option"
  mysql_fetch_row :: "'m \<Rightarrow> string option list option \<times> 'm"
  mysql_stmt_init :: "'m \<Rightarrow> bool \<times> 'm"
  mysql_stmt_prepare :: "string \<Rightarrow> 'm \<Rightarrow> bool \<times> 'm"
  mysql_stmt_execute :: "'m \<Rightarrow> bool \<times> 'm"
  mysql_stmt_errno :: "'m \<Rightarrow> nat"
  mysql_stmt_error :: "'m \<Rightarrow> string"
  mysql_stmt_field_count :: "'m \<Rightarrow> nat"
  mysql_stmt_result_metadata :: "'m \<Rightarrow> MYSQL_FIELD list option option"
  mysql_stmt_bind_result :: "(enum_field_types \<times> nat) list \<Rightarrow> 'm \<Rightarrow> bool \<times> 'm"
  mysql_stmt_fetch :: "'m \<Rightarrow> (int \<times> fetched list) \<times> 'm"
  mysql_stmt_fetch_column :: "nat \<Rightarrow> u64 \<Rightarrow> 'm \<Rightarrow> cell option \<times> 'm"
  mysql_stmt_close :: "bool \<Rightarrow> 'm \<Rightarrow> 'm"
  mysql_set_ssl :: "string option \<Rightarrow> 'm \<Rightarrow> 'm"
  mysql_real_connect :: "string \<Rightarrow> string \<Rightarrow> string \<Rightarrow> string \<Rightarrow> u32 \<Rightarrow> 'm \<Rightarrow> bool \<times> 'm"
  mysql_get_local_infile :: "'m \<Rightarrow> int option"
  mysql_infile_buffer :: "nat \<Rightarrow> 'm \<Rightarrow> nat"
  mysql_query_infile :: "string \<Rightarrow> u8 list option \<Rightarrow> 'm \<Rightarrow> bool \<times> 'm"
  mysql_close :: "'m \<Rightarrow> 'm"
  sizeof_MYSQL_TIME :: nat
  uninitialised :: u64
  scan_lf :: "string \<Rightarrow> u64 option"
  new_fails :: "'m \<Rightarrow> bool"

definition MYSQL_NO_DATA :: int where "MYSQL_NO_DATA = 100"
definition MYSQL_DATA_TRUNCATED :: int where "MYSQL_DATA_TRUNCATED = 101"

text \<open>C strings end at their first zero.\<close>

definition cstr :: "string \<Rightarrow> string" where
  "cstr s = takeWhile (\<lambda>c. c \<noteq> CHR 0x00) s"

definition strcasecmp :: "string \<Rightarrow> string \<Rightarrow> bool" where
  "strcasecmp a b \<longleftrightarrow> map to_lower (cstr a) \<noteq> map to_lower (cstr b)"

definition atoi :: "string \<Rightarrow> fault + i32" where
  "atoi s =
     (case scan_d s of
        None \<Rightarrow> Inr 0
      | Some (v, r) \<Rightarrow> if - INT_MAX - 1 \<le> v \<and> v \<le> INT_MAX then Inr (word_of_int v) else Inl UndefinedBehaviour)"

section \<open>The object\<close>

record 'm S2Connection =
  c_host :: string
  c_port :: u32
  c_db :: string
  c_user :: "string option"
  c_password :: string
  c_ssl_ca :: "string option"
  c_conn :: 'm
  c_stmt :: bool
  c_res :: bool
  c_need_stmt_close :: bool
  c_use_binary_protocol :: bool
  c_last_fetched_row :: "cell option list option"
  c_last_fetched_lengths :: "u64 list option"
  c_last_columns_num :: nat

text \<open>A call of the client library on the handle of the object.\<close>

definition call :: "('m \<Rightarrow> 'a \<times> 'm) \<Rightarrow> ('m S2Connection, 'a) act" where
  "call f c = (let (a, m) = f (c_conn c) in (Inr a, c\<lparr>c_conn := m\<rparr>))"

definition conn_error :: "'m mysql \<Rightarrow> ('m S2Connection, 'a) act" where
  "conn_error my c = (Inl (S2ClientError (mysql_errno my (c_conn c)) (mysql_error my (c_conn c))), c)"

definition stmt_error :: "'m mysql \<Rightarrow> ('m S2Connection, 'a) act" where
  "stmt_error my c = (Inl (S2ClientError (mysql_stmt_errno my (c_conn c)) (mysql_stmt_error my (c_conn c))), c)"

definition query :: "'m mysql \<Rightarrow> string \<Rightarrow> ('m S2Connection, unit) act" where
  "query my q = andThen (call (mysql_query my (cstr q))) (\<lambda>err. if err then conn_error my else give ())"

section \<open>Connecting\<close>

text \<open>
  \<open>handle\<close> is what \<^verbatim>\<open>mysql_init\<close> returned. The default user replaces a NULL one for the call only;
  the object keeps the pointer it was given.
\<close>

definition new_S2Connection ::
  "string \<Rightarrow> u32 \<Rightarrow> string \<Rightarrow> string option \<Rightarrow> string \<Rightarrow> string option \<Rightarrow> 'm \<Rightarrow> 'm S2Connection" where
  "new_S2Connection host port db user password ssl_ca m =
     \<lparr>c_host = host, c_port = port, c_db = db, c_user = user, c_password = password, c_ssl_ca = ssl_ca,
      c_conn = m, c_stmt = False, c_res = False, c_need_stmt_close = True, c_use_binary_protocol = True,
      c_last_fetched_row = None, c_last_fetched_lengths = None, c_last_columns_num = 0\<rparr>"

definition Connect ::
  "'m mysql \<Rightarrow> 'm option \<Rightarrow> string \<Rightarrow> u32 \<Rightarrow> string \<Rightarrow> string option \<Rightarrow> string \<Rightarrow> string option \<Rightarrow>
   fault + 'm S2Connection" where
  "Connect my h host port db user password ssl_ca =
     (case h of
        None \<Rightarrow> Inl (S2ClientError S2C_ERROR_UNKNOWN_FAILURE ''Failed to init a connection using MySQL C client'')
      | Some m \<Rightarrow>
          let user' = (case user of None \<Rightarrow> ''root'' | Some u \<Rightarrow> u);
              ssl = (case ssl_ca of None \<Rightarrow> None | Some ca \<Rightarrow> if cstr ca = [] then None else Some ca);
              c = new_S2Connection host port db user password ssl_ca (mysql_set_ssl my ssl m)
          in fst (andThen (call (mysql_real_connect my host user' password db port)) (\<lambda>ok.
             if \<not> ok then conn_error my else
             andThen (call (mysql_stmt_init my)) (\<lambda>ok'.
             if \<not> ok' then conn_error my else
             andThen (modify (\<lambda>c. c\<lparr>c_stmt := True\<rparr>)) (\<lambda>_. look (\<lambda>c. c)))) c))"

definition Connect_creds :: "'m mysql \<Rightarrow> 'm option \<Rightarrow> Credentials \<Rightarrow> fault + 'm S2Connection" where
  "Connect_creds my h creds =
     Connect my h (cred_host creds) (cred_port creds) (cred_db creds) (Some (cred_user creds))
       (cred_password creds) (cred_ssl_ca creds)"

text \<open>
  The connection, or \<^verbatim>\<open>nullptr\<close> with the code and message of the second failure in \<^verbatim>\<open>err\<close>; other
  faults than \<^verbatim>\<open>S2ClientError\<close> are not caught.
\<close>

definition ConnectWithRetryMA ::
  "'m mysql \<Rightarrow> 'm option \<Rightarrow> 'm option \<Rightarrow> Credentials \<Rightarrow> Credentials \<Rightarrow>
   fault + ((nat \<times> string) + 'm S2Connection)" where
  "ConnectWithRetryMA my h1 h2 creds masterCreds =
     (case Connect_creds my h1 creds of
        Inr c \<Rightarrow> Inr (Inr c)
      | Inl (S2ClientError _ _) \<Rightarrow>
          (case Connect_creds my h2 masterCreds of
             Inr c \<Rightarrow> Inr (Inr c)
           | Inl (S2ClientError code msg) \<Rightarrow> Inr (Inl (code, msg))
           | Inl e \<Rightarrow> Inl e)
      | Inl e \<Rightarrow> Inl e)"

section \<open>Statements without a cursor\<close>

type_synonym text_row = "string option list"

text \<open>\<^verbatim>\<open>row[k]\<close>: reading past the fields of the row is undefined.\<close>

definition row_at :: "text_row \<Rightarrow> nat \<Rightarrow> fault + string option" where
  "row_at row k = (if k < length row then Inr (row ! k) else Inl UndefinedBehaviour)"

text \<open>\<^verbatim>\<open>mysql_query\<close> and \<^verbatim>\<open>mysql_store_result\<close>, with what is thrown when there is no result.\<close>

definition store_result :: "'m mysql \<Rightarrow> ('m S2Connection, text_row list) act \<Rightarrow> ('m S2Connection, text_row list) act" where
  "store_result my fail =
     andThen (call (mysql_store_result my)) (\<lambda>res. case res of None \<Rightarrow> fail | Some rows \<Rightarrow> give rows)"

fun count_masters :: "text_row list \<Rightarrow> int \<Rightarrow> fault + int" where
  "count_masters [] numPartitions = Inr numPartitions"
| "count_masters (row # rows) numPartitions =
     and_then (row_at row 3) (\<lambda>v. case v of
       None \<Rightarrow> Inl (S2ClientError S2C_ERROR_UNKNOWN_FAILURE
                ''Failed to get SHOW PARTITIONS result: database returned invalid data'')
     | Some role \<Rightarrow>
         count_masters rows (if \<not> strcasecmp role ''master'' then numPartitions + 1 else numPartitions))"

definition GetPartitionsNumber :: "'m mysql \<Rightarrow> ('m S2Connection, int) act" where
  "GetPartitionsNumber my =
     andThen (query my ''SHOW PARTITIONS'') (\<lambda>_.
     andThen (store_result my (conn_error my)) (\<lambda>res.
     lift (count_masters res 0)))"

definition GetServerVersion :: "'m mysql \<Rightarrow> ('m S2Connection, string) act" where
  "GetServerVersion my =
     andThen (query my ''SELECT @@memsql_version'') (\<lambda>_.
     andThen (store_result my (conn_error my)) (\<lambda>res.
     let no_data = Inl (S2ClientError S2C_ERROR_UNKNOWN_FAILURE
           ''Failed to get SELECT @@memsql_version result: database returned no data'')
     in case res of
          [] \<Rightarrow> lift no_data
        | row # _ \<Rightarrow> lift (and_then (row_at row 0) (\<lambda>v. case v of None \<Rightarrow> no_data | Some s \<Rightarrow> Inr (cstr s)))))"

definition aggregator_of_row :: "text_row \<Rightarrow> fault + AggregatorNode" where
  "aggregator_of_row row =
     and_then (row_at row 1) (\<lambda>h. and_then (row_at row 2) (\<lambda>p.
     and_then (row_at row 3) (\<lambda>eh. and_then (row_at row 4) (\<lambda>ep.
     and_then (case p of None \<Rightarrow> Inr 0 | Some s \<Rightarrow> atoi s) (\<lambda>port.
     and_then (case ep of None \<Rightarrow> Inr 0 | Some s \<Rightarrow> atoi s) (\<lambda>externalPort.
     Inr \<lparr>agg_host = (case h of None \<Rightarrow> '''' | Some s \<Rightarrow> cstr s), agg_port = port,
          agg_externalHost = (case eh of None \<Rightarrow> '''' | Some s \<Rightarrow> cstr s),
          agg_externalPort = externalPort\<rparr>))))))"

definition GetAggregators :: "'m mysql \<Rightarrow> ('m S2Connection, AggregatorNode list) act" where
  "GetAggregators my =
     andThen (query my MakeGetAggregatorsQuery) (\<lambda>_.
     andThen (store_result my (throw (S2ClientError S2C_ERROR_UNKNOWN_FAILURE
        ''Failed to get the list of aggregators from information_schema.mv_nodes''))) (\<lambda>res.
     collect (\<lambda>row. lift (aggregator_of_row row)) res))"

definition ExecuteDDL :: "'m mysql \<Rightarrow> string \<Rightarrow> ('m S2Connection, i64) act" where
  "ExecuteDDL my q = andThen (query my q) (\<lambda>_. look (\<lambda>c. mysql_affected_rows my (c_conn c)))"

section \<open>The last fetched row\<close>

text \<open>
  The row is an array of \<open>m_last_columns_num\<close> buffers; freeing the fields of an array that is not
  there is a null dereference.
\<close>

definition FreeLastFetched :: "('m S2Connection, unit) act" where
  "FreeLastFetched c =
     (if c_last_fetched_row c = None \<and> 0 < c_last_columns_num c then (Inl UndefinedBehaviour, c)
      else (Inr (), c\<lparr>c_last_fetched_row := None, c_last_fetched_lengths := None, c_last_columns_num := 0\<rparr>))"

definition CleanupStatement :: "'m mysql \<Rightarrow> bool \<Rightarrow> ('m S2Connection, unit) act" where
  "CleanupStatement my needFreeResult =
     andThen (modify (\<lambda>c. c\<lparr>c_conn := mysql_stmt_close my (c_stmt c) (c_conn c), c_stmt := False\<rparr>)) (\<lambda>_.
     if needFreeResult then FreeLastFetched else give ())"

definition DiscardStmtClose :: "('m S2Connection, unit) act" where
  "DiscardStmtClose = modify (\<lambda>c. c\<lparr>c_need_stmt_close := False\<rparr>)"

text \<open>The destructor.\<close>

definition Disconnect :: "'m mysql \<Rightarrow> ('m S2Connection, unit) act" where
  "Disconnect my =
     andThen FreeLastFetched (\<lambda>_.
     andThen (look (\<lambda>c. c_stmt c \<and> c_need_stmt_close c)) (\<lambda>b.
     andThen (if b then CleanupStatement my False else give ()) (\<lambda>_.
     andThen (modify (\<lambda>c. c\<lparr>c_conn := mysql_close my (c_conn c)\<rparr>)) (\<lambda>_.
     andThen (look c_stmt) (\<lambda>s. if s then CleanupStatement my False else give ())))))"

definition HasNextRow :: "'m S2Connection \<Rightarrow> bool" where
  "HasNextRow c \<longleftrightarrow> c_last_fetched_row c \<noteq> None"

end
