(* ===== verification/RowCursor.thy ===== *)
theory RowCursor
  imports Connection Hdat_Roundtrip
begin

text \<open>
  The rows of a query on a connection (\<^verbatim>\<open>s2_connection.cpp\<close>): starting it by either protocol,
  advancing from row to row, and collecting rows into chunks.
\<close>

section \<open>The text protocol\<close>

definition bytes_of :: "string \<Rightarrow> u8 list" where
  "bytes_of s = map of_char s"

text \<open>\<^verbatim>\<open>sscanf\<close> of a signed integer of \<open>n\<close> bytes into a buffer; a value that does not match leaves it unset.\<close>

definition scan_signed :: "nat \<Rightarrow> string \<Rightarrow> fault + u8 list" where
  "scan_signed n s =
     (case scan_d s of
        None \<Rightarrow> Inl UndefinedBehaviour
      | Some (v, r) \<Rightarrow>
          if - (2 ^ (8 * n - 1)) \<le> v \<and> v < 2 ^ (8 * n - 1) then Inr (to_le n (word_of_int v :: u64))
          else Inl UndefinedBehaviour)"

text \<open>
  The value and length of one field. The dates and times are not filled in: the pointer stays NULL
  and the length as the array was allocated.
\<close>

definition text_cell :: "'m mysql \<Rightarrow> enum_field_types \<Rightarrow> string option \<Rightarrow> fault + (cell option \<times> u64)" where
  "text_cell my t v =
     (case v of
        None \<Rightarrow> Inr (None, 0)
      | Some s \<Rightarrow>
         (let str = Inr (Some (CellBytes (bytes_of s)), of_nat (length s)) in
          case t of
            MYSQL_TYPE_STRING \<Rightarrow> str | MYSQL_TYPE_VAR_STRING \<Rightarrow> str | MYSQL_TYPE_LONG_BLOB \<Rightarrow> str
          | MYSQL_TYPE_MEDIUM_BLOB \<Rightarrow> str | MYSQL_TYPE_BLOB \<Rightarrow> str | MYSQL_TYPE_TINY_BLOB \<Rightarrow> str
          | MYSQL_TYPE_LONG \<Rightarrow> and_then (scan_signed 4 s) (\<lambda>b. Inr (Some (CellBytes b), 4))
          | MYSQL_TYPE_LONGLONG \<Rightarrow> and_then (scan_signed 8 s) (\<lambda>b. Inr (Some (CellBytes b), 8))
          | MYSQL_TYPE_DOUBLE \<Rightarrow>
              (case scan_lf my s of None \<Rightarrow> Inl UndefinedBehaviour
               | Some d \<Rightarrow> Inr (Some (CellBytes (to_le 8 d)), 8))
          | MYSQL_TYPE_DATETIME \<Rightarrow> Inr (None, uninitialised my)
          | MYSQL_TYPE_DATE \<Rightarrow> Inr (None, uninitialised my)
          | MYSQL_TYPE_TIME \<Rightarrow> Inr (None, uninitialised my)
          | MYSQL_TYPE_NEWDATE \<Rightarrow> Inr (None, uninitialised my)
          | MYSQL_TYPE_DATETIME2 \<Rightarrow> Inr (None, uninitialised my)
          | MYSQL_TYPE_other k \<Rightarrow> Inl AssertionFailed))"

fun text_cells :: "'m mysql \<Rightarrow> nat \<Rightarrow> MYSQL_FIELD list \<Rightarrow> text_row \<Rightarrow> fault + (cell option \<times> u64) list" where
  "text_cells my 0 flds row = Inr []"
| "text_cells my (Suc n) (f # flds) (v # row) =
     and_then (text_cell my (fld_type f) v) (\<lambda>x.
     and_then (text_cells my n flds row) (\<lambda>xs. Inr (x # xs)))"
| "text_cells my (Suc n) flds row = Inl UndefinedBehaviour"

definition set_row :: "(cell option \<times> u64) list \<Rightarrow> ('m S2Connection, unit) act" where
  "set_row xs = modify (\<lambda>c. c\<lparr>c_last_fetched_row := Some (map fst xs),
     c_last_fetched_lengths := Some (map snd xs)\<rparr>)"

text \<open>
  The arrays of the row and of its lengths, of as many elements as there are columns: \<^verbatim>\<open>operator new\<close> throws
  \<^verbatim>\<open>std::bad_alloc\<close> when there is no memory for them. (The buffers of the single columns are taken to be there.)
\<close>

definition new_arrays :: "'m mysql \<Rightarrow> ('m S2Connection, unit) act" where
  "new_arrays my = andThen (look (\<lambda>c. new_fails my (c_conn c))) (\<lambda>fails. if fails then throw BadAlloc else give ())"

lemma new_arrays_eq [act_simps]:
  "new_arrays my c = (if new_fails my (c_conn c) then Inl BadAlloc else Inr (), c)"
  by (simp add: new_arrays_def act_simps)

definition AdvanceText :: "'m mysql \<Rightarrow> ('m S2Connection, bool) act" where
  "AdvanceText my =
     andThen FreeLastFetched (\<lambda>_.
     andThen (look c_res) (\<lambda>res. if \<not> res then throw UndefinedBehaviour else
     andThen (modify (\<lambda>c. c\<lparr>c_last_columns_num := mysql_num_fields my (c_conn c)\<rparr>)) (\<lambda>_.
     andThen (look (\<lambda>c. mysql_fetch_fields my (c_conn c))) (\<lambda>flds.
     case flds of
       None \<Rightarrow> andThen FreeLastFetched (\<lambda>_.
         throw (S2ClientError S2C_ERROR_UNKNOWN_FAILURE ''Failed to get text result set fields''))
     | Some fs \<Rightarrow>
         andThen (new_arrays my) (\<lambda>_.
         andThen (look c_last_columns_num) (\<lambda>n.
         andThen (set_row (replicate n (None, uninitialised my))) (\<lambda>_.
         andThen (call (mysql_fetch_row my)) (\<lambda>row.
         case row of
           None \<Rightarrow>
             andThen (look (\<lambda>c. mysql_errno my (c_conn c))) (\<lambda>e.
             if e \<noteq> 0 then conn_error my else andThen FreeLastFetched (\<lambda>_. give False))
         | Some r \<Rightarrow>
             andThen (lift (text_cells my n fs r)) (\<lambda>xs. andThen (set_row xs) (\<lambda>_. give True))))))))))"

section \<open>The binary protocol\<close>

text \<open>What is bound for a field: the length of its buffer, and whether it is fetched again whole.\<close>

definition bind_of :: "'m mysql \<Rightarrow> enum_field_types \<Rightarrow> nat \<times> bool" where
  "bind_of my t =
     (case t of
        MYSQL_TYPE_LONG \<Rightarrow> (4, False)
      | MYSQL_TYPE_LONGLONG \<Rightarrow> (8, False)
      | MYSQL_TYPE_DOUBLE \<Rightarrow> (8, False)
      | MYSQL_TYPE_STRING \<Rightarrow> (8, True)
      | MYSQL_TYPE_VAR_STRING \<Rightarrow> (8, True)
      | MYSQL_TYPE_LONG_BLOB \<Rightarrow> (8, True)
      | MYSQL_TYPE_MEDIUM_BLOB \<Rightarrow> (8, True)
      | MYSQL_TYPE_BLOB \<Rightarrow> (8, True)
      | MYSQL_TYPE_TINY_BLOB \<Rightarrow> (8, True)
      | MYSQL_TYPE_DATETIME \<Rightarrow> (sizeof_MYSQL_TIME my, False)
      | MYSQL_TYPE_DATE \<Rightarrow> (sizeof_MYSQL_TIME my, False)
      | MYSQL_TYPE_TIME \<Rightarrow> (sizeof_MYSQL_TIME my, False)
      | MYSQL_TYPE_NEWDATE \<Rightarrow> (sizeof_MYSQL_TIME my, False)
      | MYSQL_TYPE_DATETIME2 \<Rightarrow> (sizeof_MYSQL_TIME my, False)
      | MYSQL_TYPE_other k \<Rightarrow> (8, True))"

text \<open>The loop over the columns after a row has been fetched, from column \<open>i\<close> on.\<close>

fun binary_cells ::
  "'m mysql \<Rightarrow> nat \<Rightarrow> bool list \<Rightarrow> fetched list \<Rightarrow> ('m S2Connection, (cell option \<times> u64) list) act" where
  "binary_cells my i [] vs = give []"
| "binary_cells my i (r # refetch) [] = throw UndefinedBehaviour"
| "binary_cells my i (r # refetch) (v # vs) =
     andThen
       (case v of
          FetchedNull \<Rightarrow> give (None, 0)
        | Fetched len x \<Rightarrow>
            if \<not> r then give (Some x, len)
            else andThen (call (mysql_stmt_fetch_column my i len)) (\<lambda>y.
              case y of
                None \<Rightarrow> andThen FreeLastFetched (\<lambda>_. stmt_error my)
              | Some z \<Rightarrow> give (Some z, len)))
       (\<lambda>x. andThen (binary_cells my (Suc i) refetch vs) (\<lambda>xs. give (x # xs)))"

definition AdvanceBinary :: "'m mysql \<Rightarrow> ('m S2Connection, bool) act" where
  "AdvanceBinary my =
     andThen FreeLastFetched (\<lambda>_.
     andThen (look c_stmt) (\<lambda>stmt. if \<not> stmt then throw UndefinedBehaviour else
     andThen (modify (\<lambda>c. c\<lparr>c_last_columns_num := mysql_stmt_field_count my (c_conn c)\<rparr>)) (\<lambda>_.
     andThen (look (\<lambda>c. mysql_stmt_result_metadata my (c_conn c))) (\<lambda>metadata.
     case metadata of
       None \<Rightarrow> andThen FreeLastFetched (\<lambda>_.
         throw (S2ClientError S2C_ERROR_UNKNOWN_FAILURE ''Failed to get binary result set metadata''))
     | Some None \<Rightarrow> andThen FreeLastFetched (\<lambda>_.
         throw (S2ClientError S2C_ERROR_UNKNOWN_FAILURE ''Failed to get binary result set fields''))
     | Some (Some flds) \<Rightarrow>
         andThen (new_arrays my) (\<lambda>_.
         andThen (look c_last_columns_num) (\<lambda>n.
         if length flds < n then throw UndefinedBehaviour else
         let types = map fld_type (take n flds) in
         andThen (set_row (replicate n (Some (CellBytes []), uninitialised my))) (\<lambda>_.
         andThen (call (mysql_stmt_bind_result my (map (\<lambda>t. (t, fst (bind_of my t))) types))) (\<lambda>err.
         if err then andThen FreeLastFetched (\<lambda>_. stmt_error my) else
         andThen (call (mysql_stmt_fetch my)) (\<lambda>(status, vs).
         if status = MYSQL_NO_DATA then andThen (CleanupStatement my True) (\<lambda>_. give False)
         else if status \<noteq> MYSQL_DATA_TRUNCATED \<and> status \<noteq> 0 then
           andThen FreeLastFetched (\<lambda>_.
           andThen (look (\<lambda>c. mysql_stmt_errno my (c_conn c))) (\<lambda>e.
           if e \<noteq> 0 then stmt_error my else conn_error my))
         else
           andThen (binary_cells my 0 (map (\<lambda>t. snd (bind_of my t)) types) vs) (\<lambda>xs.
           andThen (set_row xs) (\<lambda>_. give True)))))))))))"

section \<open>Starting a query\<close>

definition Advance :: "'m mysql \<Rightarrow> ('m S2Connection, bool) act" where
  "Advance my = andThen (look c_use_binary_protocol) (\<lambda>b. if b then AdvanceBinary my else AdvanceText my)"

text \<open>\<^verbatim>\<open>Execute\<close> does not use its parameter \<^verbatim>\<open>prefetch\<close>.\<close>

definition Execute :: "'m mysql \<Rightarrow> string \<Rightarrow> bool \<Rightarrow> ('m S2Connection, bool) act" where
  "Execute my q prefetch =
     andThen (modify (\<lambda>c. c\<lparr>c_use_binary_protocol := False\<rparr>)) (\<lambda>_.
     andThen (query my q) (\<lambda>_.
     andThen (call (mysql_use_result my)) (\<lambda>ok.
     andThen (modify (\<lambda>c. c\<lparr>c_res := ok\<rparr>)) (\<lambda>_.
     if \<not> ok then conn_error my else
     andThen (look (\<lambda>c. mysql_num_fields my (c_conn c))) (\<lambda>n.
     if n \<noteq> 0 then andThen (Advance my) (\<lambda>_. give True) else give False)))))"

definition Prepare :: "'m mysql \<Rightarrow> string \<Rightarrow> bool \<Rightarrow> bool \<Rightarrow> ('m S2Connection, bool) act" where
  "Prepare my q execute prefetch =
     andThen (CleanupStatement my True) (\<lambda>_.
     andThen (modify (\<lambda>c. c\<lparr>c_use_binary_protocol := True\<rparr>)) (\<lambda>_.
     andThen (call (mysql_stmt_init my)) (\<lambda>ok.
     andThen (modify (\<lambda>c. c\<lparr>c_stmt := ok\<rparr>)) (\<lambda>_.
     if \<not> ok then conn_error my else
     andThen (call (mysql_stmt_prepare my (cstr q))) (\<lambda>err.
     if err then stmt_error my else
     if \<not> execute then give False else
     andThen (call (mysql_stmt_execute my)) (\<lambda>err'.
     if err' then stmt_error my else
     andThen (look (\<lambda>c. mysql_stmt_field_count my (c_conn c))) (\<lambda>n.
     if n = 0 then give False else
     andThen (if prefetch then Advance my else give False) (\<lambda>_. give True))))))))"

text \<open>
  \<^verbatim>\<open>memset\<close> zeroes the columns first. The statement or result that is asked for its fields must
  be there.
\<close>

definition GetRowSchema :: "'m mysql \<Rightarrow> bool \<Rightarrow> ('m S2Connection, RowSchema) act" where
  "GetRowSchema my useOriginalName =
     andThen (look c_use_binary_protocol) (\<lambda>binary.
     andThen
       (if binary then
          andThen (look c_stmt) (\<lambda>stmt. if \<not> stmt then throw UndefinedBehaviour else
          andThen (look (\<lambda>c. mysql_stmt_result_metadata my (c_conn c))) (\<lambda>metadata.
          case metadata of
            None \<Rightarrow> stmt_error my
          | Some flds \<Rightarrow> give (case flds of None \<Rightarrow> 0 | Some fs \<Rightarrow> length fs, flds)))
        else
          andThen (look c_res) (\<lambda>res. if \<not> res then throw UndefinedBehaviour else
          look (\<lambda>c. (mysql_num_fields my (c_conn c), mysql_fetch_fields my (c_conn c)))))
       (\<lambda>(num_fields, flds).
         let zero = replicate num_fields \<lparr>col_type = Int64, col_size = 0, col_name = ''''\<rparr> in
         case flds of
           None \<Rightarrow> if num_fields = 0 then give [] else throw UndefinedBehaviour
         | Some fs \<Rightarrow>
             if length fs < num_fields then throw UndefinedBehaviour
             else lift (FieldsToRowSchema (take num_fields fs) useOriginalName zero)))"

section \<open>Chunks of rows\<close>

datatype ParallelReadType =
    ReadTypeResultTable | ReadTypeOriginalTable | ReadTypeColumnStoreTable | ReadTypeUnknown

text \<open>
  The loop of \<^verbatim>\<open>NextChunk\<close> and of \<^verbatim>\<open>GetMultipleRows\<close>. A server may send rows for ever, and rows of
  an empty schema fill no chunk, so the loop is a partial function: \<open>None\<close> when it does not return.
  With an exception the chunk is lost to its callers, so what a row that throws left in it is not returned.
\<close>

partial_function (option) fill ::
  "'m mysql \<Rightarrow> u64 \<Rightarrow> Writer \<Rightarrow> 'm S2Connection \<Rightarrow> ((fault + u64 \<times> Writer) \<times> 'm S2Connection) option" where
  "fill my row_cnt w c =
     (case c_last_fetched_row c of
        None \<Rightarrow> Some (Inr (row_cnt, w), c)
      | Some row \<Rightarrow>
         (case c_last_fetched_lengths c of
            None \<Rightarrow> Some (Inl UndefinedBehaviour, c)
          | Some lengths \<Rightarrow>
             (case WriteRow row lengths w of
                (Inl e, w') \<Rightarrow> Some (Inl e, c)
              | (Inr was_row_written, w') \<Rightarrow>
                  if was_row_written then
                    (case Advance my c of
                       (Inl e, c') \<Rightarrow> Some (Inl e, c')
                     | (Inr b, c') \<Rightarrow> fill my (row_cnt + 1) w' c')
                  else Some (Inr (row_cnt, w'), c))))"

definition chunk_of_fill ::
  "((fault + u64 \<times> Writer) \<times> 'm S2Connection) option \<Rightarrow> ((fault + Chunk) \<times> 'm S2Connection) option" where
  "chunk_of_fill r =
     map_option (\<lambda>(x, c). (case x of Inl e \<Rightarrow> Inl e
       | Inr (row_cnt, w) \<Rightarrow> Inr (sc_chunk (w_sc w)\<lparr>row_count := row_cnt\<rparr>), c)) r"

definition NextChunk ::
  "'m mysql \<Rightarrow> Chunk \<Rightarrow> RowSchema \<Rightarrow> 'm S2Connection \<Rightarrow> ((fault + Chunk) \<times> 'm S2Connection) option" where
  "NextChunk my chunk rowSchema c = chunk_of_fill (fill my 0 (Reset chunk rowSchema) c)"

definition GetMultipleRows ::
  "'m mysql \<Rightarrow> Chunk \<Rightarrow> RowSchema \<Rightarrow> string \<Rightarrow> string \<Rightarrow> string \<Rightarrow> u32 \<Rightarrow> i64 list \<Rightarrow> ParallelReadType \<Rightarrow>
   'm S2Connection \<Rightarrow> ((fault + Chunk) \<times> 'm S2Connection) option" where
  "GetMultipleRows my chunk schema resultTable selectQuery keyColumnName partitionId rowIds readType c =
     (let queryParam = (if readType = ReadTypeOriginalTable then selectQuery else '''');
          q = MakeRowIdFilterQuery resultTable queryParam keyColumnName partitionId rowIds
      in case Prepare my q True True c of
           (Inl e, c') \<Rightarrow> Some (Inl e, c')
         | (Inr result, c') \<Rightarrow>
             if \<not> result \<or> c_last_fetched_lengths c' = None \<or> c_last_fetched_row c' = None then
               Some (Inl (S2ClientError S2C_ERROR_INV_ARG
                 (''Failed to get the row with '' @ nat_to_string (length rowIds) @ '' rows from table '' @ resultTable)), c')
             else chunk_of_fill (fill my 0 (Reset chunk schema) c'))"

text \<open>\<open>alloc\<close> is \<^verbatim>\<open>malloc\<close>: the memory it returns holds arbitrary bytes, \<open>None\<close> is NULL.\<close>

definition GetSingleRow ::
  "'m mysql \<Rightarrow> (u64 \<Rightarrow> u8 list option) \<Rightarrow> RowSchema \<Rightarrow> string \<Rightarrow> string \<Rightarrow> string \<Rightarrow> u32 \<Rightarrow> i64 \<Rightarrow>
   ParallelReadType \<Rightarrow> string \<Rightarrow> ('m S2Connection, Chunk) act" where
  "GetSingleRow my alloc schema resultTable selectQuery keyColumnName partitionId partitionRowId readType serverVersion =
     (let queryParam = (if readType = ReadTypeOriginalTable then selectQuery else '''') in
      andThen (lift (MakePointInTimeQuery resultTable queryParam keyColumnName partitionId partitionRowId
                 (readType = ReadTypeResultTable) serverVersion)) (\<lambda>q.
      andThen (Prepare my q True True) (\<lambda>result.
      andThen (look (\<lambda>c. (c_last_fetched_row c, c_last_fetched_lengths c))) (\<lambda>fetched.
      case (result, fetched) of
        (True, Some row, Some lengths) \<Rightarrow>
          andThen (lift (rowSize schema lengths)) (\<lambda>chunkSize.
          case alloc chunkSize of
            None \<Rightarrow> throw (S2ClientError S2C_ERROR_MEMORY_ALLOCATION
                      (''GetSingleRow cannot allocate chunk size: '' @ int_to_string (uint chunkSize)))
          | Some ptr \<Rightarrow>
              (case WriteRow row lengths (Reset (NewChunk ptr chunkSize 0 partitionId) schema) of
                 (Inl e, w) \<Rightarrow> throw e
               | (Inr b, w) \<Rightarrow> andThen (CleanupStatement my True) (\<lambda>_. give (sc_chunk (w_sc w)))))
      | _ \<Rightarrow> throw (S2ClientError S2C_ERROR_INV_ARG
               (''Failed to get the row with id '' @ int_to_string (sint partitionRowId) @ '' from table '' @ resultTable))))))"

end
