(* ===== verification/RowStream.thy ===== *)
theory RowStream
  imports RowCursor
begin

text \<open>
  What a connection delivers: the rows that repeated \<^verbatim>\<open>Advance\<close> yields, followed by the end of
  the result or by a fault, and what \<^verbatim>\<open>NextChunk\<close>, \<^verbatim>\<open>GetMultipleRows\<close> and \<^verbatim>\<open>GetSingleRow\<close> make
  of them.
\<close>

section \<open>Streams of rows\<close>

inductive delivers :: "'m mysql \<Rightarrow> row list \<Rightarrow> fault option \<Rightarrow> 'm S2Connection \<Rightarrow> bool"
  for my where
  no_row: "c_last_fetched_row c = None \<Longrightarrow> delivers my [] None c"
| last_row: "c_last_fetched_row c = Some vs \<Longrightarrow> c_last_fetched_lengths c = Some ls \<Longrightarrow>
    Advance my c = (Inl e, c') \<Longrightarrow> delivers my [(vs, ls)] (Some e) c"
| more_rows: "c_last_fetched_row c = Some vs \<Longrightarrow> c_last_fetched_lengths c = Some ls \<Longrightarrow>
    Advance my c = (Inr b, c') \<Longrightarrow> delivers my rs out c' \<Longrightarrow> delivers my ((vs, ls) # rs) out c"

inductive_cases delivers_ConsE: "delivers my (r # rs) out c"
inductive_cases delivers_NilE: "delivers my [] out c"

lemma delivers_Nil_iff: "delivers my [] out c \<longleftrightarrow> out = None \<and> c_last_fetched_row c = None"
  by (auto intro: no_row elim: delivers_NilE)

lemma delivers_has_row: "delivers my (r # rs) out c \<Longrightarrow> HasNextRow c"
  by (auto simp: HasNextRow_def elim: delivers_ConsE)

lemma delivers_HasNextRow: "delivers my rs out c \<Longrightarrow> HasNextRow c \<longleftrightarrow> rs \<noteq> []"
  by (cases rs) (auto simp: HasNextRow_def elim: delivers_ConsE delivers_NilE)

section \<open>Filling a chunk\<close>

text \<open>
  \<open>fill\<close> does on a connection what \<open>write_rows\<close> does on a list: it takes the rows that fit and
  leaves the others to be delivered.
\<close>

lemma write_rows_Cons_iff:
  "write_rows ((vs, ls) # rs) w = Inr (n, w') \<longleftrightarrow>
     (\<exists>w1. WriteRow vs ls w = (Inr False, w1) \<and> n = 0 \<and> w' = w1) \<or>
     (\<exists>w1 m. WriteRow vs ls w = (Inr True, w1) \<and> write_rows rs w1 = Inr (m, w') \<and> n = Suc m)"
  by (auto simp: and_then_Inr_iff split: prod.splits sum.splits if_splits)

lemma fill_delivered:
  assumes "delivers my rs out c" "write_rows rs w = Inr (n, w')" "out = None \<or> n < length rs"
  shows "\<exists>c'. fill my k w c = Some (Inr (k + of_nat n, w'), c') \<and> delivers my (drop n rs) out c'"
  using assms
proof (induction arbitrary: w n k rule: delivers.induct)
  case (no_row c)
  then show ?case
    by (intro exI [of _ c]) (auto simp: fill.simps [of my k w' c] delivers_Nil_iff)
next
  case (last_row c vs ls e c')
  then obtain w1 where "WriteRow vs ls w = (Inr False, w1)" "n = 0" "w' = w1"
    by (auto simp: write_rows_Cons_iff simp del: write_rows.simps(2))
  with last_row show ?case
    by (intro exI [of _ c]) (auto simp: fill.simps [of my k w c] intro: delivers.last_row)
next
  case (more_rows c vs ls b c' rs out)
  from more_rows.prems(1) [unfolded write_rows_Cons_iff] show ?case
  proof (elim disjE exE conjE)
    fix w1 m
    assume w1: "WriteRow vs ls w = (Inr True, w1)" and m: "write_rows rs w1 = Inr (m, w')" "n = Suc m"
    from more_rows.IH [OF m(1), of "k + 1"] more_rows.prems(2) m(2)
    obtain d where "fill my (k + 1) w1 c' = Some (Inr (k + 1 + of_nat m, w'), d)"
      "delivers my (drop m rs) out d" by auto
    with more_rows.hyps w1 m(2) show ?case
      by (auto simp: fill.simps [of my k w c] add.assoc)
  next
    fix w1
    assume "WriteRow vs ls w = (Inr False, w1)" "n = 0" "w' = w1"
    with more_rows.hyps show ?case
      by (intro exI [of _ c]) (auto simp: fill.simps [of my k w c] intro: delivers.more_rows)
  qed
qed

lemma fill_server_fault:
  assumes "delivers my rs (Some e) c" "write_rows rs w = Inr (length rs, w')"
  shows "\<exists>c'. fill my k w c = Some (Inl e, c')"
  using assms
proof (induction rs "Some e" c arbitrary: w k rule: delivers.induct)
  case (last_row c vs ls c')
  then show ?case
    by (auto simp: write_rows_Cons_iff fill.simps [of my k w c] simp del: write_rows.simps(2))
next
  case (more_rows c vs ls b c' rs)
  then obtain w1 where w1: "WriteRow vs ls w = (Inr True, w1)" "write_rows rs w1 = Inr (length rs, w')"
    by (auto simp: write_rows_Cons_iff simp del: write_rows.simps(2))
  from more_rows.hyps(5) [OF w1(2), of "k + 1"] more_rows.hyps w1(1) show ?case
    by (auto simp: fill.simps [of my k w c])
qed

section \<open>Chunks of a stream\<close>

lemma row_count_nonzero:
  assumes "holds rows w" "rows \<noteq> []" "length rows < 2 ^ 64"
  shows "row_count (sc_chunk (w_sc w)) \<noteq> 0"
proof -
  have "unat (of_nat (length rows) :: u64) = length rows"
    using assms(3) by (simp add: unat_of_nat64)
  moreover have "row_count (sc_chunk (w_sc w)) = of_nat (length rows)"
    using assms(1) by (simp add: holds_def)
  ultimately show ?thesis using assms(2) by (metis length_0_conv unat_0)
qed

lemma write_rows_total:
  assumes "holds rows w" "rows_ok (w_schema w) rs" "length rows + length rs < 2 ^ 64"
    and "rows = [] \<Longrightarrow> rs \<noteq> [] \<Longrightarrow> row_reserve (w_schema w) (snd (hd rs)) \<le> free_of w"
  shows "\<exists>n w'. write_rows rs w = Inr (n, w') \<and> (rows = [] \<longrightarrow> rs \<noteq> [] \<longrightarrow> 0 < n)"
  using assms
proof (induction rs arbitrary: rows w)
  case (Cons r rs)
  obtain vs ls where r: "r = (vs, ls)" by (cases r)
  have rok: "row_ok (w_schema w) vs ls" "row_reserve (w_schema w) ls < 2 ^ 64" "rows_ok (w_schema w) rs"
    using Cons.prems(2) r by (simp_all add: rows_ok_def)
  show ?case
  proof (cases "row_reserve (w_schema w) ls \<le> free_of w")
    case True
    from WriteRow_written [OF Cons.prems(1) rok(1) True]
    obtain w1 where w1: "WriteRow vs ls w = (Inr True, w1)" by blast
    have h: "holds (rows @ [row_fields (w_schema w) vs ls]) w1" "w_schema w1 = w_schema w"
      using WriteRow_cases [OF Cons.prems(1) rok(1,2) w1] by simp_all
    have "\<exists>n w'. write_rows rs w1 = Inr (n, w')"
      using Cons.IH [OF h(1)] h(2) rok(3) Cons.prems(3) by auto
    with w1 r show ?thesis by auto
  next
    case False
    then have "rows \<noteq> []" using Cons.prems(4) r by auto
    moreover have "writer_ok w" using Cons.prems(1) by (simp add: holds_def)
    ultimately show ?thesis
      using WriteRow_full [OF _ row_ok_sizes [OF rok(1)] rok(2) False] row_count_nonzero [OF Cons.prems(1)] Cons.prems(3) r
      by auto
  qed
qed simp

lemma free_of_Reset: "fresh chunk \<Longrightarrow> free_of (Reset chunk cs) = unat (m_size chunk)"
  by (simp add: fresh_def free_of_def Reset_def SuperChunk_def mem_of_def off_of_def var_of_def)

lemma Reset_schema [simp]: "w_schema (Reset chunk cs) = cs"
  by (simp add: Reset_def)

lemma fresh_holds: "fresh chunk \<Longrightarrow> holds [] (Reset chunk cs)"
  by (intro Reset_holds) (simp_all add: fresh_def)

text \<open>
  What a chunk holds: the rows, each in the layout of its schema, and, if the first variable-length value is
  not empty, that is what a reader gets from it.
\<close>

definition chunk_holds :: "RowSchema \<Rightarrow> row list \<Rightarrow> Chunk \<Rightarrow> bool" where
  "chunk_holds cs rs chunk \<longleftrightarrow> row_count chunk = of_nat (length rs) \<and>
     (\<exists>w. holds (fields_of_rows cs rs) w \<and> sc_chunk (w_sc w) = chunk) \<and>
     (first_text cs rs \<longrightarrow>
       (\<exists>r'. read_rows (length rs) cs (SuperChunkReader chunk cs) =
          Inr (map (\<lambda>(vs, ls). row_values cs vs ls) rs, r')))"

lemma chunk_holds_count: "chunk_holds cs rs chunk \<Longrightarrow> row_count chunk = of_nat (length rs)"
  by (simp add: chunk_holds_def)

lemma written_chunk_holds:
  assumes "fresh chunk" "rows_ok cs rs" "write_rows rs (Reset chunk cs) = Inr (n, w)"
  shows "n \<le> length rs \<and> chunk_holds cs (take n rs) (sc_chunk (w_sc w)) \<and>
    chunk_id (sc_chunk (w_sc w)) = chunk_id chunk \<and> partition_id (sc_chunk (w_sc w)) = partition_id chunk \<and>
    m_size (sc_chunk (w_sc w)) = m_size chunk"
proof -
  from write_rows_holds [OF fresh_holds [OF assms(1), of cs] _ assms(3)] assms(2)
  have w: "n \<le> length rs" "holds (fields_of_rows cs (take n rs)) w" "chunk_key w = chunk_key (Reset chunk cs)"
    by simp_all
  have "row_count (sc_chunk (w_sc w)) = of_nat n" "m_size (sc_chunk (w_sc w)) = w_chunk_size w"
    using w(1,2) by (simp_all add: holds_def fields_of_rows_def writer_ok_def)
  moreover have "\<exists>r'. read_rows (length (take n rs)) cs (SuperChunkReader (sc_chunk (w_sc w)) cs) =
      Inr (map (\<lambda>(vs, ls). row_values cs vs ls) (take n rs), r')" if "first_text cs (take n rs)"
    by (rule holding_read_back [OF w(2) rows_ok_take [OF assms(2)] that])
  ultimately show ?thesis
    using w by (auto simp: chunk_holds_def chunk_key_def Reset_def SuperChunk_def)
qed

text \<open>A row that is larger than the chunks.\<close>

definition too_large :: "u64 \<Rightarrow> RowSchema \<Rightarrow> row \<Rightarrow> bool" where
  "too_large sz cs r \<longleftrightarrow> unat sz < row_reserve cs (snd r)"

text \<open>The room a chunk has left, and what a full one could not take.\<close>

definition no_room :: "RowSchema \<Rightarrow> row \<Rightarrow> Chunk \<Rightarrow> bool" where
  "no_room cs r chunk \<longleftrightarrow> unat (m_size chunk) < unat (consumed_size chunk) + row_reserve cs (snd r)"

lemma consumed_free: "writer_ok w \<Longrightarrow> unat (consumed_size (sc_chunk (w_sc w))) + free_of w = unat (m_size (sc_chunk (w_sc w)))"
  using writer_ok_bounds(1) [of w] unat_add_le_word [of "sc_offset (w_sc w)" "variable_offset (sc_chunk (w_sc w))"
      "m_size (sc_chunk (w_sc w))"]
  by (simp add: writer_ok_def sc_ok_def off_of_def var_of_def mem_of_def)

lemma written_chunk_full:
  assumes "fresh chunk" "rows_ok cs rs" "write_rows rs (Reset chunk cs) = Inr (n, w)" "n < length rs"
  shows "no_room cs (rs ! n) (sc_chunk (w_sc w))"
proof -
  have "writer_ok w"
    using write_rows_holds [OF fresh_holds [OF assms(1), of cs] _ assms(3)] assms(2) by (simp add: holds_def)
  moreover have "free_of w < row_reserve cs (snd (rs ! n))"
    using write_rows_stops [OF fresh_holds [OF assms(1), of cs] _ assms(3,4)] assms(2) by simp
  ultimately show ?thesis using consumed_free [of w] by (simp add: no_room_def)
qed

lemma write_rows_fresh:
  assumes "fresh chunk" "rows_ok cs rs" "length rs < 2 ^ 64" "rs \<noteq> [] \<longrightarrow> \<not> too_large (m_size chunk) cs (hd rs)"
  obtains n w where "write_rows rs (Reset chunk cs) = Inr (n, w)" "rs \<noteq> [] \<longrightarrow> 0 < n"
proof -
  have "\<exists>n w. write_rows rs (Reset chunk cs) = Inr (n, w) \<and> (rs \<noteq> [] \<longrightarrow> 0 < n)"
    using write_rows_total [OF fresh_holds [OF assms(1), of cs], of rs] assms
    by (simp add: free_of_Reset too_large_def not_less)
  with that show thesis by blast
qed

lemma WriteRow_too_large:
  assumes "fresh chunk" "row_ok cs vs ls" "row_reserve cs ls < 2 ^ 64" "too_large (m_size chunk) cs (vs, ls)"
  shows "WriteRow vs ls (Reset chunk cs) =
    (Inl (InvalidArgument (too_small_message (m_size chunk) (of_nat (row_reserve cs ls)))), Reset chunk cs)"
proof -
  have "writer_ok (Reset chunk cs)" using fresh_holds [OF assms(1), of cs] by (simp add: holds_def)
  from WriteRow_full [OF this, of ls vs] row_ok_sizes [OF assms(2)] assms show ?thesis
    by (simp add: free_of_Reset too_large_def) (simp add: fresh_def Reset_def SuperChunk_def)
qed

text \<open>
  \<^verbatim>\<open>NextChunk\<close> on any stream: that the next row is too large, or the stream's fault, or a chunk of the
  next rows.
\<close>

lemma NextChunk_large:
  assumes "delivers my rs out c" "fresh chunk" "rows_ok cs rs" "rs \<noteq> []" "too_large (m_size chunk) cs (hd rs)"
  shows "NextChunk my chunk cs c =
    Some (Inl (InvalidArgument (too_small_message (m_size chunk) (of_nat (row_reserve cs (snd (hd rs)))))), c)"
proof -
  obtain vs ls rs' where rs: "rs = (vs, ls) # rs'" using assms(4) by (metis neq_Nil_conv surj_pair)
  have "c_last_fetched_row c = Some vs" "c_last_fetched_lengths c = Some ls"
    using assms(1) rs by (auto elim: delivers_ConsE)
  moreover have "row_ok cs vs ls" "row_reserve cs ls < 2 ^ 64" using assms(3) rs by (simp_all add: rows_ok_def)
  ultimately show ?thesis
    using WriteRow_too_large [OF assms(2), of cs vs ls] assms(5) rs
    by (simp add: NextChunk_def chunk_of_fill_def fill.simps [of my 0 "Reset chunk cs" c])
qed

lemma NextChunk_fits:
  assumes "delivers my rs out c" "fresh chunk" "rows_ok cs rs" "length rs < 2 ^ 64"
    and "rs \<noteq> [] \<longrightarrow> \<not> too_large (m_size chunk) cs (hd rs)"
  obtains n ch c' where "n \<le> length rs" "rs \<noteq> [] \<longrightarrow> 0 < n" "chunk_holds cs (take n rs) ch"
    "n < length rs \<longrightarrow> no_room cs (rs ! n) ch"
    "chunk_id ch = chunk_id chunk" "partition_id ch = partition_id chunk" "m_size ch = m_size chunk"
    "if n = length rs \<and> out \<noteq> None then NextChunk my chunk cs c = Some (Inl (the out), c')
     else NextChunk my chunk cs c = Some (Inr ch, c') \<and> delivers my (drop n rs) out c'"
proof -
  obtain n w where w: "write_rows rs (Reset chunk cs) = Inr (n, w)" "rs \<noteq> [] \<longrightarrow> 0 < n"
    by (rule write_rows_fresh [OF assms(2-5)])
  note h = written_chunk_holds [OF assms(2,3) w(1)]
  have "\<exists>c'. if n = length rs \<and> out \<noteq> None then NextChunk my chunk cs c = Some (Inl (the out), c')
     else NextChunk my chunk cs c = Some (Inr (sc_chunk (w_sc w)), c') \<and> delivers my (drop n rs) out c'"
  proof (cases "n = length rs \<and> out \<noteq> None")
    case True
    then obtain e where "out = Some e" by auto
    with fill_server_fault [of my rs e c "Reset chunk cs" w 0] assms(1) w(1) True show ?thesis
      by (auto simp: NextChunk_def chunk_of_fill_def)
  next
    case False
    then have "out = None \<or> n < length rs" using h by auto
    from fill_delivered [OF assms(1) w(1) this, of 0]
    obtain c' where c': "fill my 0 (Reset chunk cs) c = Some (Inr (of_nat n, w), c')" "delivers my (drop n rs) out c'"
      by auto
    have "row_count (sc_chunk (w_sc w)) = of_nat n" using h by (simp add: chunk_holds_def min_absorb2)
    then have "sc_chunk (w_sc w)\<lparr>row_count := of_nat n\<rparr> = sc_chunk (w_sc w)" by simp
    with False c' show ?thesis by (auto simp: NextChunk_def chunk_of_fill_def)
  qed
  with that w(2) h written_chunk_full [OF assms(2,3) w(1)] show thesis by blast
qed

lemma NextChunk_stream:
  assumes "delivers my rs out c" "fresh chunk" "rows_ok cs rs" "length rs < 2 ^ 64"
  obtains (chunk) n ch c' where "NextChunk my chunk cs c = Some (Inr ch, c')" "n \<le> length rs"
      "rs \<noteq> [] \<longrightarrow> 0 < n" "chunk_holds cs (take n rs) ch" "delivers my (drop n rs) out c'"
      "chunk_id ch = chunk_id chunk" "partition_id ch = partition_id chunk"
    | (fault) e c' where "NextChunk my chunk cs c = Some (Inl e, c')"
      "out = Some e \<or> (\<exists>msg. e = InvalidArgument msg) \<and> (\<exists>r \<in> set rs. too_large (m_size chunk) cs r)"
proof (cases "rs \<noteq> [] \<and> too_large (m_size chunk) cs (hd rs)")
  case True
  with NextChunk_large [OF assms(1-3)] fault hd_in_set [of rs] show thesis by blast
next
  case False
  then have easy: "rs \<noteq> [] \<longrightarrow> \<not> too_large (m_size chunk) cs (hd rs)" by blast
  obtain n ch c' where n: "n \<le> length rs" "rs \<noteq> [] \<longrightarrow> 0 < n" "chunk_holds cs (take n rs) ch"
    "chunk_id ch = chunk_id chunk" "partition_id ch = partition_id chunk"
    "if n = length rs \<and> out \<noteq> None then NextChunk my chunk cs c = Some (Inl (the out), c')
     else NextChunk my chunk cs c = Some (Inr ch, c') \<and> delivers my (drop n rs) out c'"
    using NextChunk_fits [OF assms easy] .
  show thesis
  proof (cases "n = length rs \<and> out \<noteq> None")
    case True
    with n(6) fault [of "the out" c'] show thesis by auto
  next
    case False
    with n chunk show thesis by auto
  qed
qed

section \<open>The contract\<close>

text \<open>C11. \<^verbatim>\<open>NextChunk\<close> on a fresh chunk, for any stream of rows a connection delivers (rows with values of
  their columns' types, sizes below \<open>2 ^ 64\<close>), whatever ends it. When the next row is larger than the chunk, an
  \<open>InvalidArgument\<close> error naming the sizes is thrown, and the connection still has that row. Otherwise the first
  \<open>n\<close> rows are moved to the chunk, at least one when there is one, as many as fit (the next row finds too
  little room); the chunk holds them, and the connection delivers the others, and the same end, from then on.
  Only when all the rows fit and the stream ends with a fault, that fault is thrown instead. A chunk whose first
  variable-length value is null or empty holds its rows, but a reader with assertions does not get through it.\<close>

theorem next_chunk_takes_rows:
  assumes "delivers my rs out c" "fresh chunk" "rows_ok cs rs" "length rs < 2 ^ 64"
  shows "if rs \<noteq> [] \<and> too_large (m_size chunk) cs (hd rs)
    then NextChunk my chunk cs c =
      Some (Inl (InvalidArgument (too_small_message (m_size chunk) (of_nat (row_reserve cs (snd (hd rs)))))), c)
    else (\<exists>n ch c'. n \<le> length rs \<and> (rs \<noteq> [] \<longrightarrow> 0 < n) \<and> chunk_holds cs (take n rs) ch \<and>
      (n < length rs \<longrightarrow> no_room cs (rs ! n) ch) \<and>
      (if n = length rs \<and> out \<noteq> None then NextChunk my chunk cs c = Some (Inl (the out), c')
       else NextChunk my chunk cs c = Some (Inr ch, c') \<and> delivers my (drop n rs) out c'))"
proof (cases "rs \<noteq> [] \<and> too_large (m_size chunk) cs (hd rs)")
  case True
  with NextChunk_large [OF assms(1-3)] show ?thesis by simp
next
  case False
  then have "rs \<noteq> [] \<longrightarrow> \<not> too_large (m_size chunk) cs (hd rs)" by blast
  from NextChunk_fits [OF assms this] False show ?thesis by (smt (verit))
qed

text \<open>C38. A row fetched singly: when the query has delivered a row, \<^verbatim>\<open>GetSingleRow\<close> allocates a chunk of
  exactly the size \<open>rowSize\<close> computes for the row and returns it with that one row, and the statement is closed.\<close>

theorem single_row_exact:
  assumes "Prepare my q True True c = (Inr True, c1)"
    and "c_last_fetched_row c1 = Some vs" "c_last_fetched_lengths c1 = Some ls"
    and "MakePointInTimeQuery table (if rt = ReadTypeOriginalTable then sel else '''') key p rowid
           (rt = ReadTypeResultTable) version = Inr q"
    and "row_ok cs vs ls" "row_reserve cs ls < 2 ^ 64"
    and "\<And>n. \<exists>bs. alloc n = Some bs \<and> length bs = unat n"
  shows "\<exists>ch c'. GetSingleRow my alloc cs table sel key p rowid rt version c = (Inr ch, c') \<and>
    chunk_holds cs [(vs, ls)] ch \<and> unat (m_size ch) = row_reserve cs ls \<and> length (m_ptr ch) = row_reserve cs ls \<and>
    partition_id ch = p \<and> \<not> HasNextRow c' \<and> \<not> c_stmt c'"
proof -
  obtain t where t: "rowSize cs ls = Inr t" "unat t = row_reserve cs ls"
    using rowSize_eq [OF row_ok_sizes [OF assms(5)] assms(6)] .
  obtain bs where bs: "alloc t = Some bs" "length bs = unat t" using assms(7) by blast
  define chunk where "chunk = NewChunk bs t 0 p"
  have f: "fresh chunk" using bs by (simp add: fresh_def chunk_def NewChunk_def)
  have ok: "rows_ok cs [(vs, ls)]" using assms(5,6) by (simp add: rows_ok_def)
  have "row_reserve (w_schema (Reset chunk cs)) ls \<le> free_of (Reset chunk cs)"
    using t(2) by (simp add: free_of_Reset [OF f]) (simp add: chunk_def NewChunk_def)
  with WriteRow_written [OF fresh_holds [OF f, of cs], of vs ls] assms(5)
  obtain w where w: "WriteRow vs ls (Reset chunk cs) = (Inr True, w)" by auto
  then have "write_rows [(vs, ls)] (Reset chunk cs) = Inr (1, w)" by simp
  from written_chunk_holds [OF f ok this]
  have h: "chunk_holds cs [(vs, ls)] (sc_chunk (w_sc w))" "partition_id (sc_chunk (w_sc w)) = p"
    "m_size (sc_chunk (w_sc w)) = t"
    by (simp_all add: chunk_def NewChunk_def)
  have "length (m_ptr (sc_chunk (w_sc w))) = unat t"
    using h(1,3) by (auto simp: chunk_holds_def holds_def writer_ok_def sc_ok_def)
  moreover have "\<exists>c'. CleanupStatement my True c1 = (Inr (), c') \<and> \<not> HasNextRow c' \<and> \<not> c_stmt c'"
    using assms(2) by (simp add: CleanupStatement_def FreeLastFetched_def act_simps HasNextRow_def)
  then obtain c' where c': "CleanupStatement my True c1 = (Inr (), c')" "\<not> HasNextRow c'" "\<not> c_stmt c'" by blast
  have "GetSingleRow my alloc cs table sel key p rowid rt version c = (Inr (sc_chunk (w_sc w)), c')"
    using assms(1-4) t(1) bs(1) w c'(1)
    by (simp add: GetSingleRow_def Let_def act_simps flip: chunk_def)
  ultimately show ?thesis using h c'(2,3) t(2) by metis
qed

text \<open>When the client library cannot describe the result, \<^verbatim>\<open>AdvanceText\<close> and \<^verbatim>\<open>AdvanceBinary\<close> do not
  get to throw their error: the row they free was freed before, while the number of its columns is
  already the new one, so \<^verbatim>\<open>FreeLastFetched\<close> dereferences NULL.\<close>

theorem advance_without_metadata_crashes:
  assumes "c_last_columns_num c = 0 \<or> c_last_fetched_row c \<noteq> None"
  shows "(c_res c \<and> 0 < mysql_num_fields my (c_conn c) \<and> mysql_fetch_fields my (c_conn c) = None \<longrightarrow>
      fst (AdvanceText my c) = Inl UndefinedBehaviour) \<and>
    (c_stmt c \<and> 0 < mysql_stmt_field_count my (c_conn c) \<and> mysql_stmt_result_metadata my (c_conn c) = None \<longrightarrow>
      fst (AdvanceBinary my c) = Inl UndefinedBehaviour)"
  using assms
  by (auto simp: AdvanceText_def AdvanceBinary_def FreeLastFetched_def act_simps)

text \<open>When there is no memory for the arrays of a row, the exception leaves the connection with a number of
  columns and no row, so freeing it (by the destructor, or by whatever is called next) dereferences NULL.\<close>

theorem advance_without_memory_unfreeable:
  assumes "c_last_columns_num c = 0 \<or> c_last_fetched_row c \<noteq> None" "new_fails my (c_conn c)"
  shows "(c_res c \<and> 0 < mysql_num_fields my (c_conn c) \<and> mysql_fetch_fields my (c_conn c) \<noteq> None \<longrightarrow>
      (\<exists>c'. AdvanceText my c = (Inl BadAlloc, c') \<and> fst (FreeLastFetched c') = Inl UndefinedBehaviour)) \<and>
    (c_stmt c \<and> 0 < mysql_stmt_field_count my (c_conn c) \<and>
      (\<exists>fs. mysql_stmt_result_metadata my (c_conn c) = Some (Some fs)) \<longrightarrow>
      (\<exists>c'. AdvanceBinary my c = (Inl BadAlloc, c') \<and> fst (FreeLastFetched c') = Inl UndefinedBehaviour))"
  using assms
  by (auto simp: AdvanceText_def AdvanceBinary_def FreeLastFetched_def act_simps)

section \<open>A scripted server\<close>

text \<open>
  A concrete client library for the examples: every query is accepted, and its result has one
  \<open>BIGINT\<close> column and, as rows, the numbers the state holds.
\<close>

definition demo_field :: MYSQL_FIELD where
  "demo_field = \<lparr>fld_name = ''a'', fld_org_name = ''b'', fld_length = 20, fld_type = MYSQL_TYPE_LONGLONG\<rparr>"

definition demo_mysql :: "int list mysql" where
  "demo_mysql =
     \<lparr>mysql_query = (\<lambda>q m. (False, m)), mysql_errno = (\<lambda>m. 0), mysql_error = (\<lambda>m. ''''),
      mysql_affected_rows = (\<lambda>m. 0),
      mysql_store_result = (\<lambda>m. (Some (map (\<lambda>v. [Some (int_to_string v)]) m), [])),
      mysql_use_result = (\<lambda>m. (True, m)), mysql_num_fields = (\<lambda>m. 1),
      mysql_fetch_fields = (\<lambda>m. Some [demo_field]),
      mysql_fetch_row = (\<lambda>m. case m of [] \<Rightarrow> (None, []) | v # vs \<Rightarrow> (Some [Some (int_to_string v)], vs)),
      mysql_stmt_init = (\<lambda>m. (True, m)), mysql_stmt_prepare = (\<lambda>q m. (False, m)),
      mysql_stmt_execute = (\<lambda>m. (False, m)), mysql_stmt_errno = (\<lambda>m. 0), mysql_stmt_error = (\<lambda>m. ''''),
      mysql_stmt_field_count = (\<lambda>m. 1), mysql_stmt_result_metadata = (\<lambda>m. Some (Some [demo_field])),
      mysql_stmt_bind_result = (\<lambda>bs m. (False, m)),
      mysql_stmt_fetch = (\<lambda>m. case m of [] \<Rightarrow> ((100, []), [])
        | v # vs \<Rightarrow> ((0, [Fetched 8 (CellBytes (to_le 8 (word_of_int v :: u64)))]), vs)),
      mysql_stmt_fetch_column = (\<lambda>i n m. (None, m)), mysql_stmt_close = (\<lambda>b m. m),
      mysql_set_ssl = (\<lambda>ca m. m), mysql_real_connect = (\<lambda>h u p d port m. (True, m)),
      mysql_get_local_infile = (\<lambda>m. Some 1), mysql_infile_buffer = (\<lambda>k m. 2),
      mysql_query_infile = (\<lambda>q bs m. (False, m)), mysql_close = (\<lambda>m. m),
      sizeof_MYSQL_TIME = 40, uninitialised = 0, scan_lf = (\<lambda>s. None),
      new_fails = (\<lambda>m. False)\<rparr>"

lemma demo_api [simp]:
  "mysql_query demo_mysql q m = (False, m)" "mysql_store_result demo_mysql m = (Some (map (\<lambda>v. [Some (int_to_string v)]) m), [])"
  "mysql_use_result demo_mysql m = (True, m)" "mysql_num_fields demo_mysql m = 1"
  "mysql_stmt_init demo_mysql m = (True, m)" "mysql_stmt_prepare demo_mysql q m = (False, m)"
  "mysql_stmt_execute demo_mysql m = (False, m)" "mysql_stmt_field_count demo_mysql m = 1"
  "mysql_stmt_result_metadata demo_mysql m = Some (Some [demo_field])"
  "mysql_stmt_bind_result demo_mysql bs m = (False, m)"
  "mysql_stmt_fetch demo_mysql [] = ((100, []), [])"
  "mysql_stmt_fetch demo_mysql (v # vs) = ((0, [Fetched 8 (CellBytes (to_le 8 (word_of_int v :: u64)))]), vs)"
  "mysql_stmt_close demo_mysql b m = m" "mysql_set_ssl demo_mysql ca m = m"
  "mysql_real_connect demo_mysql h u p d port m = (True, m)" "uninitialised demo_mysql = 0"
  "new_fails demo_mysql m = False"
  by (simp_all add: demo_mysql_def)

definition demo_connection :: "int list \<Rightarrow> int list S2Connection" where
  "demo_connection m =
     new_S2Connection ''h'' 3306 ''d'' (Some ''u'') ''p'' None m\<lparr>c_stmt := True\<rparr>"

definition demo_row :: "int \<Rightarrow> row" where
  "demo_row v = ([Some (CellBytes (to_le 8 (word_of_int v :: u64)))], [8])"

definition demo_schema :: RowSchema where
  "demo_schema = [\<lparr>col_type = Int64, col_size = 8, col_name = ''a''\<rparr>]"

text \<open>The connection with the first of its rows fetched.\<close>

definition demo_at :: "int list \<Rightarrow> int list S2Connection" where
  "demo_at vs = (case vs of
     [] \<Rightarrow> demo_connection []\<lparr>c_stmt := False\<rparr>
   | v # vs' \<Rightarrow> demo_connection vs'\<lparr>c_last_fetched_row := Some (fst (demo_row v)),
       c_last_fetched_lengths := Some (snd (demo_row v)), c_last_columns_num := 1\<rparr>)"

lemma demo_Advance:
  assumes "c = demo_connection vs \<or> (\<exists>v. c = demo_at (v # vs))"
  shows "Advance demo_mysql c = (Inr (vs \<noteq> []), demo_at vs)"
  using assms
  by (elim disjE exE; cases vs)
     (simp_all add: Advance_def AdvanceBinary_def FreeLastFetched_def demo_at_def
       demo_connection_def new_S2Connection_def act_simps set_row_def call_def demo_field_def bind_of_def
       MYSQL_NO_DATA_def CleanupStatement_def demo_row_def)

lemma demo_delivers: "delivers demo_mysql (map demo_row vs) None (demo_at vs)"
proof (induction vs)
  case Nil
  show ?case
    by (simp add: delivers_Nil_iff demo_at_def demo_connection_def new_S2Connection_def)
next
  case (Cons v vs)
  have "Advance demo_mysql (demo_at (v # vs)) = (Inr (vs \<noteq> []), demo_at vs)"
    by (rule demo_Advance) blast
  with Cons show ?case
    using delivers.more_rows [of "demo_at (v # vs)" "fst (demo_row v)" "snd (demo_row v)" demo_mysql
        "vs \<noteq> []" "demo_at vs" "map demo_row vs" None]
    by (simp add: demo_at_def)
qed

lemma demo_rows_ok: "rows_ok demo_schema (map demo_row vs)"
  by (auto simp: rows_ok_def demo_schema_def demo_row_def reserve_def)

theorem next_chunk_takes_rows_witness:
  "\<exists>n ch c'. NextChunk demo_mysql example_chunk demo_schema (demo_at [5, 7]) = Some (Inr ch, c') \<and> 0 < n \<and>
    chunk_holds demo_schema (take n [demo_row 5, demo_row 7]) ch"
proof -
  have "\<not> too_large (m_size example_chunk) demo_schema (demo_row 5)"
    by (simp add: too_large_def example_chunk_def NewChunk_def demo_row_def demo_schema_def reserve_def)
  with next_chunk_takes_rows [OF demo_delivers [of "[5, 7]"] example_facts(1) demo_rows_ok] show ?thesis by auto
qed

lemma demo_Prepare: "Prepare demo_mysql q True True (demo_connection (v # vs)) = (Inr True, demo_at (v # vs))"
proof -
  have "Advance demo_mysql (demo_connection (v # vs)) = (Inr True, demo_at (v # vs))"
    using demo_Advance [of "demo_connection (v # vs)" "v # vs"] by simp
  then show ?thesis
    by (simp add: Prepare_def FreeLastFetched_def
       demo_connection_def new_S2Connection_def act_simps call_def CleanupStatement_def)
qed

theorem single_row_exact_witness:
  "\<exists>ch c'. GetSingleRow demo_mysql (\<lambda>n. Some (replicate (unat n) 0)) demo_schema ''t'' '''' ''k'' 3 1
      ReadTypeColumnStoreTable ''7.8'' (demo_connection [5]) = (Inr ch, c') \<and>
    chunk_holds demo_schema [demo_row 5] ch \<and> partition_id ch = 3"
proof -
  have ok: "rows_ok demo_schema [demo_row 5]" using demo_rows_ok [of "[5]"] by simp
  obtain q where q: "MakePointInTimeQuery ''t''
      (if ReadTypeColumnStoreTable = ReadTypeOriginalTable then '''' else '''') ''k'' 3 1
      (ReadTypeColumnStoreTable = ReadTypeResultTable) ''7.8'' = Inr q"
    by (simp add: MakePointInTimeQuery_def)
  from single_row_exact [OF demo_Prepare [where v = 5 and vs = "[]"] _ _ q, of "fst (demo_row 5)" "snd (demo_row 5)"
      demo_schema "\<lambda>n. Some (replicate (unat n) 0)"] ok
  show ?thesis by (force simp: demo_at_def rows_ok_def split_beta)
qed

theorem advance_without_metadata_crashes_witness:
  "fst (AdvanceBinary (demo_mysql\<lparr>mysql_stmt_result_metadata := \<lambda>m. None\<rparr>) (demo_connection [5])) =
    Inl UndefinedBehaviour"
  using advance_without_metadata_crashes [of "demo_connection [5]"
      "demo_mysql\<lparr>mysql_stmt_result_metadata := \<lambda>m. None\<rparr>"]
  by (simp add: demo_connection_def new_S2Connection_def)

theorem advance_without_memory_unfreeable_witness:
  "\<exists>c'. AdvanceBinary (demo_mysql\<lparr>new_fails := \<lambda>m. True\<rparr>) (demo_connection [5]) = (Inl BadAlloc, c') \<and>
    fst (FreeLastFetched c') = Inl UndefinedBehaviour"
  using advance_without_memory_unfreeable [of "demo_connection [5]" "demo_mysql\<lparr>new_fails := \<lambda>m. True\<rparr>"]
  by (simp add: demo_connection_def new_S2Connection_def)

end
