(* ===== verification/LoadData.thy ===== *)
theory LoadData
  imports TsvWriter RowStream
begin

text \<open>
  Loading data: the handlers of \<^verbatim>\<open>LOAD DATA LOCAL INFILE\<close> (\<^verbatim>\<open>tsv_table_writer.cpp\<close>,
  \<^verbatim>\<open>avro_table_writer.cpp\<close>) and the operations \<^verbatim>\<open>WriteChunk\<close> and \<^verbatim>\<open>WriteAvro\<close> of a connection.
\<close>

section \<open>The interface of a handler\<close>

text \<open>
  The client library asks the handler for one buffer after another, until it gets nothing (the end)
  or a negative number (an error): the bytes it sends. It may choose buffers that never get
  anything done, so the exchange is a partial function.
\<close>

partial_function (option) send_infile ::
  "(nat \<Rightarrow> 's \<Rightarrow> fault + int \<times> u8 list \<times> 's) \<Rightarrow> (nat \<Rightarrow> nat) \<Rightarrow> nat \<Rightarrow> u8 list \<Rightarrow> 's \<Rightarrow> (fault + u8 list option) option" where
  "send_infile rd bufs k sent s =
     (case rd (bufs k) s of
        Inl e \<Rightarrow> Some (Inl e)
      | Inr (n, bs, s') \<Rightarrow>
          if n < 0 then Some (Inr None)
          else if n = 0 then Some (Inr (Some sent))
          else send_infile rd bufs (Suc k) (sent @ bs) s')"

text \<open>What a handler promises: each read delivers the next bytes, as many as fit and are left.\<close>

locale infile_source =
  fixes rd :: "nat \<Rightarrow> 's \<Rightarrow> fault + int \<times> u8 list \<times> 's"
    and rest :: "'s \<Rightarrow> u8 list"
    and valid :: "'s \<Rightarrow> bool"
  assumes reads: "valid s \<Longrightarrow> n < 2 ^ 31 \<Longrightarrow>
    \<exists>s'. rd n s = Inr (int (length (take n (rest s))), take n (rest s), s') \<and> valid s' \<and> rest s' = drop n (rest s)"
begin

lemma sends_rest:
  assumes "valid s" "\<forall>k. 0 < bufs k \<and> bufs k < 2 ^ 31"
  shows "send_infile rd bufs k sent s = Some (Inr (Some (sent @ rest s)))"
  using assms(1)
proof (induction "length (rest s)" arbitrary: k sent s rule: less_induct)
  case less
  have b: "0 < bufs k" "bufs k < 2 ^ 31" using assms(2) by blast+
  obtain s' where s': "rd (bufs k) s = Inr (int (length (take (bufs k) (rest s))), take (bufs k) (rest s), s')"
    "valid s'" "rest s' = drop (bufs k) (rest s)"
    using reads [OF less.prems b(2)] by blast
  show ?case
  proof (cases "rest s = []")
    case True
    with s'(1) show ?thesis by (simp add: send_infile.simps [of rd bufs k])
  next
    case False
    then have "length (rest s') < length (rest s)" using s'(3) b(1) by simp
    from less.hyps [OF this s'(2)] s' False b(1) show ?thesis
      by (simp add: send_infile.simps [of rd bufs k sent s])
  qed
qed

end

section \<open>Strings and buffers as sources\<close>

text \<open>
  \<^verbatim>\<open>std::stringstream::read\<close> sets the fail bit when it gets fewer characters than asked for, and a
  failed stream reads nothing; a string stream never goes bad, so the error branch is not taken.
\<close>

record stringstream =
  ss_left :: string
  ss_fail :: bool

definition tsv_infile_read :: "nat \<Rightarrow> stringstream \<Rightarrow> fault + int \<times> u8 list \<times> stringstream" where
  "tsv_infile_read buf_len ss =
     (if ss_fail ss then Inr (0, [], ss)
      else let got = take buf_len (ss_left ss) in
        Inr (int (length got), bytes_of got,
          ss\<lparr>ss_left := drop buf_len (ss_left ss), ss_fail := length (ss_left ss) < buf_len\<rparr>))"

interpretation tsv_source: infile_source tsv_infile_read "\<lambda>ss. bytes_of (ss_left ss)"
  "\<lambda>ss. ss_fail ss \<longrightarrow> ss_left ss = ''''"
  by unfold_locales (auto simp: tsv_infile_read_def Let_def bytes_of_def take_map drop_map)

record AvroBuffer =
  av_ptr :: "u8 list"
  av_size :: i64
  av_current_pos :: i64

text \<open>\<open>n_bytes\<close> is an \<open>int\<close>; a negative one is a huge count for \<^verbatim>\<open>memcpy\<close>.\<close>

definition avro_infile_read :: "nat \<Rightarrow> AvroBuffer \<Rightarrow> fault + int \<times> u8 list \<times> AvroBuffer" where
  "avro_infile_read buf_len b =
     (let left = sint (av_size b - av_current_pos b);
          n_bytes = sint (word_of_int (if int buf_len \<le> left then int buf_len else left) :: i32)
      in if n_bytes < 0 \<or> sint (av_current_pos b) < 0 \<or>
            int (length (av_ptr b)) < sint (av_current_pos b) + n_bytes then Inl UndefinedBehaviour
         else Inr (n_bytes, peek (nat (sint (av_current_pos b))) (nat n_bytes) (av_ptr b),
                b\<lparr>av_current_pos := av_current_pos b + word_of_int n_bytes\<rparr>))"

text \<open>
  The caller fills such a buffer with the functions of \<^verbatim>\<open>avro_write_extern.h\<close>. \<^verbatim>\<open>avro_binary_encoding\<close>, the
  table of functions of libavro, is a parameter; \<open>'w\<close> is its writer, a double is its 64 bits.
\<close>

record 'w avro_encoding =
  write_int :: "'w \<Rightarrow> i32 \<Rightarrow> int \<times> 'w"
  write_long :: "'w \<Rightarrow> i64 \<Rightarrow> int \<times> 'w"
  write_double :: "'w \<Rightarrow> u64 \<Rightarrow> int \<times> 'w"
  write_bytes :: "'w \<Rightarrow> u8 list \<Rightarrow> i64 \<Rightarrow> int \<times> 'w"

definition WriteInt64Avro :: "'w avro_encoding \<Rightarrow> 'w \<Rightarrow> i64 \<Rightarrow> int \<times> 'w" where
  "WriteInt64Avro enc w val = write_long enc w val"

definition WriteInt32Avro :: "'w avro_encoding \<Rightarrow> 'w \<Rightarrow> i32 \<Rightarrow> int \<times> 'w" where
  "WriteInt32Avro enc w val = write_int enc w val"

definition WriteDoubleAvro :: "'w avro_encoding \<Rightarrow> 'w \<Rightarrow> u64 \<Rightarrow> int \<times> 'w" where
  "WriteDoubleAvro enc w val = write_double enc w val"

definition WriteBytesAvro :: "'w avro_encoding \<Rightarrow> 'w \<Rightarrow> u8 list \<Rightarrow> i64 \<Rightarrow> int \<times> 'w" where
  "WriteBytesAvro enc w val len = write_bytes enc w val len"

text \<open>A buffer as the library makes it: the size is that of the memory, the position inside.\<close>

definition avro_ok :: "AvroBuffer \<Rightarrow> bool" where
  "avro_ok b \<longleftrightarrow> int (length (av_ptr b)) = sint (av_size b) \<and> 0 \<le> sint (av_current_pos b) \<and>
     sint (av_current_pos b) \<le> sint (av_size b)"

definition avro_rest :: "AvroBuffer \<Rightarrow> u8 list" where
  "avro_rest b = drop (nat (sint (av_current_pos b))) (av_ptr b)"

lemma sint64_bounds: "- (2 ^ 63) \<le> sint (x :: i64)" "sint x < 2 ^ 63"
  using sint_ge [of x] sint_lt [of x] by simp_all

lemma sint_sub64: 
  assumes "0 \<le> sint (a :: i64)" "sint a \<le> sint b"
  shows "sint (b - a) = sint b - sint a"
proof -
  have "b - a = word_of_int (sint b - sint a)"
    by (simp add: wi_hom_sub [symmetric])
  moreover have "sint (word_of_int (sint b - sint a) :: i64) = sint b - sint a"
    using assms sint64_bounds [of b] by (intro sint_word_of_int_id) simp_all
  ultimately show ?thesis by simp
qed

lemma avro_read:
  assumes "avro_ok b" "n < 2 ^ 31"
  shows "\<exists>b'. avro_infile_read n b = Inr (int (length (take n (avro_rest b))), take n (avro_rest b), b') \<and>
    avro_ok b' \<and> avro_rest b' = drop n (avro_rest b)"
proof -
  define p where "p = nat (sint (av_current_pos b))"
  have p: "sint (av_current_pos b) = int p" "p \<le> length (av_ptr b)"
    using assms(1) unfolding avro_ok_def p_def by linarith+
  define m where "m = length (take n (avro_rest b))"
  have m: "m = min n (length (av_ptr b) - p)" "m \<le> n"
    unfolding m_def avro_rest_def p_def [symmetric] by simp_all
  have left: "sint (av_size b - av_current_pos b) = int (length (av_ptr b) - p)"
    using sint_sub64 [of "av_current_pos b" "av_size b"] assms(1) p unfolding avro_ok_def by linarith
  have "(if int n \<le> int (length (av_ptr b) - p) then int n else int (length (av_ptr b) - p)) = int m"
    unfolding m(1) min_def of_nat_le_iff by simp
  moreover have "sint (word_of_int (int m) :: i32) = int m"
    using m(2) assms(2) by (intro sint_word_of_int_id) simp_all
  ultimately have k: "sint (word_of_int (if int n \<le> sint (av_size b - av_current_pos b) then int n
      else sint (av_size b - av_current_pos b)) :: i32) = int m"
    unfolding left by presburger
  let ?b = "b\<lparr>av_current_pos := av_current_pos b + word_of_int (int m)\<rparr>"
  have "av_current_pos b + word_of_int (int m) = word_of_int (int p + int m)"
    by (simp add: wi_hom_add [symmetric] flip: p(1))
  moreover have "sint (word_of_int (int p + int m) :: i64) = int p + int m"
  proof (rule sint_word_of_int_id)
    have "m \<le> length (av_ptr b) - p" unfolding m(1) by simp
    then have "int p + int m < 2 ^ 63"
      using p(2) assms(1) sint64_bounds [of "av_size b"] unfolding avro_ok_def by linarith
    then show "int p + int m < 2 ^ (LENGTH(64) - 1)" by simp
  qed simp
  ultimately have pos: "sint (av_current_pos ?b) = int (p + m)" by simp
  have "avro_infile_read n b = Inr (int m, peek p m (av_ptr b), ?b)"
    unfolding avro_infile_read_def Let_def k p(1) using m p(2) by simp
  moreover have "peek p m (av_ptr b) = take n (avro_rest b)"
    unfolding peek_def avro_rest_def p_def [symmetric] m(1) by (simp add: min_def)
  moreover have "avro_ok ?b"
    using assms(1) pos m(1) p(2) unfolding avro_ok_def by auto
  moreover have "avro_rest ?b = drop n (avro_rest b)"
  proof -
    have np: "nat (sint (av_current_pos ?b)) = p + m" unfolding pos by (rule nat_int)
    have "drop (p + m) (av_ptr b) = drop n (drop p (av_ptr b))"
      unfolding m(1) by (simp add: min_def add.commute)
    then show ?thesis unfolding avro_rest_def np p_def [symmetric] by simp
  qed
  ultimately show ?thesis unfolding m_def by metis
qed

interpretation avro_source: infile_source avro_infile_read avro_rest avro_ok
  by unfold_locales (rule avro_read)

section \<open>Messages for a failed load\<close>

text \<open>
  \<^verbatim>\<open>ss_local_infile_error\<close>: the code, and the buffer \<^verbatim>\<open>strncpy\<close> leaves, padded with zeros and not
  terminated when the message is too long. The first argument is the handler's pointer.
\<close>

definition strncpy :: "string \<Rightarrow> nat \<Rightarrow> string" where
  "strncpy src n = take n (src @ replicate n (CHR 0x00))"

definition tsv_infile_error :: "stringstream option \<Rightarrow> bool \<Rightarrow> nat \<Rightarrow> nat \<times> string" where
  "tsv_infile_error p bad n =
     (case p of
        None \<Rightarrow> (S2C_ERROR_INV_ARG, strncpy ''invalid *caller_data pointer'' n)
      | Some ss \<Rightarrow>
          if bad then (S2C_IO_ERROR, strncpy ''Read/write error on i/o operation'' n)
          else (S2C_ERROR_UNKNOWN_FAILURE, strncpy ''Unknown error in LOAD DATA LOCAL INFILE'' n))"

definition avro_infile_error :: "AvroBuffer option \<Rightarrow> nat \<Rightarrow> nat \<times> string" where
  "avro_infile_error p n =
     (case p of
        None \<Rightarrow> (S2C_ERROR_INV_ARG, strncpy ''Invalid *caller_data pointer'' n)
      | Some b \<Rightarrow>
          if sint (av_size b) < sint (av_current_pos b)
          then (S2C_IO_ERROR, strncpy ''Invalid operation on source buffer'' n)
          else (S2C_ERROR_UNKNOWN_FAILURE, strncpy ''Unknown error in LOAD DATA LOCAL INFILE'' n))"

section \<open>The operations of the connection\<close>

definition check_infile :: "'m mysql \<Rightarrow> ('m S2Connection, unit) act" where
  "check_infile my =
     andThen (look (\<lambda>c. mysql_get_local_infile my (c_conn c))) (\<lambda>is_infile_enabled.
     case is_infile_enabled of
       None \<Rightarrow> andThen FreeLastFetched (\<lambda>_. conn_error my)
     | Some e \<Rightarrow>
         if e = 0 then andThen FreeLastFetched (\<lambda>_.
           throw (S2ClientError S2C_ERROR_BAD_CONNECTION ''LOAD DATA INFILE LOCAL is disabled on the server side''))
         else give ())"

text \<open>The query, with the bytes its handler delivered.\<close>

definition finish_load :: "'m mysql \<Rightarrow> string \<Rightarrow> u8 list option \<Rightarrow> ('m S2Connection, unit) act" where
  "finish_load my q data =
     andThen (call (mysql_query_infile my (cstr q) data)) (\<lambda>err. if err then conn_error my else give ())"

definition load_infile ::
  "'m mysql \<Rightarrow> (nat \<Rightarrow> 's \<Rightarrow> fault + int \<times> u8 list \<times> 's) \<Rightarrow> 's \<Rightarrow> string \<Rightarrow> 'm S2Connection \<Rightarrow>
   ((fault + unit) \<times> 'm S2Connection) option" where
  "load_infile my rd s q c =
     (case send_infile rd (\<lambda>k. mysql_infile_buffer my k (c_conn c)) 0 [] s of
        None \<Rightarrow> None
      | Some (Inl e) \<Rightarrow> Some (Inl e, c)
      | Some (Inr data) \<Rightarrow> Some (finish_load my q data c))"

text \<open>The reader keeps its error text from one chunk to the next, so it is returned as well.\<close>

definition WriteChunk ::
  "'m mysql \<Rightarrow> (u64 \<Rightarrow> string) \<Rightarrow> (json \<Rightarrow> string) \<Rightarrow> Reader \<Rightarrow> Chunk \<Rightarrow> RowSchema \<Rightarrow> string \<Rightarrow> 'm S2Connection \<Rightarrow>
   (((fault + unit) \<times> 'm S2Connection) \<times> Reader) option" where
  "WriteChunk my print_e json_dumps reader chunk schema table c =
     (case check_infile my c of
        (Inl e, c1) \<Rightarrow> Some ((Inl e, c1), reader)
      | (Inr _, c1) \<Rightarrow>
          let r = ResetReader chunk schema reader in
          case ChunkToTSV print_e (row_count chunk) r of
            Inl e \<Rightarrow> Some ((Inl e, c1), r)
          | Inr (None, r') \<Rightarrow> Some ((Inl (S2ClientError S2C_ERROR_BAD_CHUNK (r_error r')), c1), r')
          | Inr (Some tsv_output, r') \<Rightarrow>
             (case MakeLoadDataQuery json_dumps table schema TSV True of
                Inl e \<Rightarrow> Some ((Inl e, c1), r')
              | Inr q \<Rightarrow>
                  map_option (\<lambda>x. (x, r'))
                    (load_infile my tsv_infile_read \<lparr>ss_left = tsv_output, ss_fail = False\<rparr> q c1)))"

definition WriteAvro ::
  "'m mysql \<Rightarrow> (json \<Rightarrow> string) \<Rightarrow> AvroBuffer \<Rightarrow> RowSchema \<Rightarrow> string \<Rightarrow> bool \<Rightarrow> 'm S2Connection \<Rightarrow>
   ((fault + unit) \<times> 'm S2Connection) option" where
  "WriteAvro my json_dumps sourceData schema table treatZeroLenAsNull c =
     (case check_infile my c of
        (Inl e, c1) \<Rightarrow> Some (Inl e, c1)
      | (Inr _, c1) \<Rightarrow>
         (case MakeLoadDataQuery json_dumps table schema AVRO treatZeroLenAsNull of
            Inl e \<Rightarrow> Some (Inl e, c1)
          | Inr q \<Rightarrow> load_infile my avro_infile_read sourceData q c1))"

section \<open>The contract\<close>

definition buffers_ok :: "'m mysql \<Rightarrow> 'm \<Rightarrow> bool" where
  "buffers_ok my m \<longleftrightarrow> (\<forall>k. 0 < mysql_infile_buffer my k m \<and> mysql_infile_buffer my k m < 2 ^ 31)"

lemma load_tsv:
  "buffers_ok my (c_conn c) \<Longrightarrow>
   load_infile my tsv_infile_read \<lparr>ss_left = text, ss_fail = False\<rparr> q c = Some (finish_load my q (Some (bytes_of text)) c)"
  by (simp add: load_infile_def tsv_source.sends_rest buffers_ok_def)

lemma load_avro:
  "buffers_ok my (c_conn c) \<Longrightarrow> avro_ok b \<Longrightarrow>
   load_infile my avro_infile_read b q c = Some (finish_load my q (Some (avro_rest b)) c)"
  by (simp add: load_infile_def avro_source.sends_rest buffers_ok_def)

lemma check_infile_ok:
  "mysql_get_local_infile my (c_conn c) = Some e \<Longrightarrow> e \<noteq> 0 \<Longrightarrow> check_infile my c = (Inr (), c)"
  by (simp add: check_infile_def act_simps)

text \<open>C23. \<^verbatim>\<open>WriteAvro\<close> sends the server the caller's buffer, all of it and nothing else, whatever
  sizes of pieces the client library asks for, with the statement for the table.\<close>

theorem avro_load_sends_buffer:
  assumes "mysql_get_local_infile my (c_conn c) = Some e" "e \<noteq> 0" "buffers_ok my (c_conn c)"
    and "int (length bs) < 2 ^ 63" "MakeLoadDataQuery jd table schema AVRO z = Inr q"
  shows "WriteAvro my jd \<lparr>av_ptr = bs, av_size = of_nat (length bs), av_current_pos = 0\<rparr> schema table z c =
    Some (finish_load my q (Some bs) c)"
proof -
  let ?b = "\<lparr>av_ptr = bs, av_size = of_nat (length bs), av_current_pos = 0\<rparr>"
  have "sint (word_of_int (int (length bs)) :: i64) = int (length bs)"
    using assms(4) by (intro sint_word_of_int_id) simp_all
  then have "avro_ok ?b" by (simp add: avro_ok_def)
  with load_avro [OF assms(3) this] assms(5) check_infile_ok [OF assms(1,2)] show ?thesis
    by (simp add: WriteAvro_def avro_rest_def)
qed

text \<open>C21. \<^verbatim>\<open>WriteChunk\<close> sends the server exactly the rows of the chunk: the bytes its handler delivers, in
  pieces of whatever sizes the client library asks for, are the text \<^verbatim>\<open>LOAD DATA\<close> reads as the values of these
  rows. The chunk is one a client wrote, with at least one row and one column; the first variable-length value
  in it, if there is any, is not null or empty, later ones may be, and are sent as nulls. Local infile is
  enabled, and the values have texts (doubles in less than 30 characters without special ones, dates in range).\<close>

theorem chunk_load_sends_rows:
  assumes "mysql_get_local_infile my (c_conn c) = Some e" "e \<noteq> 0" "buffers_ok my (c_conn c)"
    and "fresh chunk" "rows_ok cs rs" "first_text cs rs"
    and "write_rows rs (Reset chunk cs) = Inr (n, w)" "cs \<noteq> []" "0 < n" "n < 2 ^ 63" "\<forall>d. plain (pr d)"
    and "list_all2 (\<lambda>(vs, ls) ts. row_texts pr cs (row_values cs vs ls) ts) (take n rs) texts"
  shows "\<exists>text q r'. MakeLoadDataQuery jd table cs TSV True = Inr q \<and> lex_table (n * length cs) text = Some texts \<and>
    WriteChunk my pr jd (SuperChunkReader chunk0 cs0) (sc_chunk (w_sc w)) cs table c =
      Some (finish_load my q (Some (bytes_of text)) c, r')"
proof -
  have "ResetReader (sc_chunk (w_sc w)) cs (SuperChunkReader chunk0 cs0) = SuperChunkReader (sc_chunk (w_sc w)) cs"
    by (simp add: ResetReader_def SuperChunkReader_def)
  moreover obtain out r' where "ChunkToTSV pr (row_count (sc_chunk (w_sc w))) (SuperChunkReader (sc_chunk (w_sc w)) cs) =
      Inr (Some out, r')" "lex_table (n * length cs) out = Some texts"
    using tsv_written_rows [OF assms(4-12)] by blast
  moreover obtain q where "MakeLoadDataQuery jd table cs TSV True = Inr q"
    using assms(8) by (cases cs) (simp_all add: MakeLoadDataQuery_def Let_def)
  ultimately show ?thesis
    using load_tsv [OF assms(3)] check_infile_ok [OF assms(1,2)]
    by (simp add: WriteChunk_def Let_def) blast
qed

theorem avro_load_sends_buffer_witness:
  "\<exists>q. MakeLoadDataQuery (\<lambda>j. ''{}'') ''t'' demo_schema AVRO False = Inr q \<and>
    WriteAvro demo_mysql (\<lambda>j. ''{}'') \<lparr>av_ptr = [1, 2, 3], av_size = 3, av_current_pos = 0\<rparr> demo_schema ''t'' False
      (demo_connection []) = Some (finish_load demo_mysql q (Some [1, 2, 3]) (demo_connection []))"
proof -
  obtain q where q: "MakeLoadDataQuery (\<lambda>j. ''{}'') ''t'' demo_schema AVRO False = Inr q"
    by (simp add: MakeLoadDataQuery_def MakeAvroJsonSchema_def demo_schema_def avro_type_def Let_def split_beta)
  have "mysql_get_local_infile demo_mysql (c_conn (demo_connection [])) = Some 1"
    "buffers_ok demo_mysql (c_conn (demo_connection []))"
    by (simp_all add: demo_mysql_def buffers_ok_def)
  with avro_load_sends_buffer [OF this(1) _ this(2), of "[1, 2, 3]", OF _ _ q] q show ?thesis by simp
qed

theorem chunk_load_sends_rows_witness:
  "\<exists>w text q r'. write_rows [example_row, example_row] (Reset example_chunk example_schema) = Inr (1, w) \<and>
    lex_table 3 text = Some [[Some ''578437695752307201'', Some ''ABC'', Some ''X  '']] \<and>
    WriteChunk demo_mysql example_print (\<lambda>j. ''{}'') (SuperChunkReader example_chunk []) (sc_chunk (w_sc w))
      example_schema ''t'' (demo_connection []) =
      Some (finish_load demo_mysql q (Some (bytes_of text)) (demo_connection []), r')"
proof -
  obtain w where w: "write_rows [example_row, example_row] (Reset example_chunk example_schema) = Inr (1, w)"
    using example_written by blast
  have "mysql_get_local_infile demo_mysql (c_conn (demo_connection [])) = Some 1"
    "buffers_ok demo_mysql (c_conn (demo_connection []))"
    by (simp_all add: demo_mysql_def buffers_ok_def)
  with chunk_load_sends_rows [OF this(1) _ this(2) example_facts(1,3) example_first w _ _ _ example_plain example_texts]
  show ?thesis using w example_length by fastforce
qed

end
