(* ===== verification/ExplainText.thy ===== *)
theory ExplainText
  imports RowSchemas SqlText "HOL-Library.Sublist"
begin

text \<open>
  What \<^verbatim>\<open>ExplainToRowSchema\<close> makes of a plan the server prints: the columns it lists after
  \<open>show_columns\<close> are recovered, in order, with their types and sizes.
\<close>

section \<open>Positions\<close>

lemma unat_of_nat_small: "n < 2 ^ 64 \<Longrightarrow> unat (of_nat n :: u64) = n"
  by (simp add: unat_of_nat64)

lemma uint_of_nat_small: "n < 2 ^ 64 \<Longrightarrow> uint (of_nat n :: u64) = int n"
  using unat_of_nat_small [of n] unfolding uint_nat by simp

lemma find_from_skip:
  "(\<And>k. k < length b \<Longrightarrow> \<not> P (drop k b @ r)) \<Longrightarrow> find_from P i (b @ r) = find_from P (i + length b) r"
proof (induction b arbitrary: i)
  case (Cons x b)
  have "\<not> P (x # b @ r)" using Cons.prems [of 0] by simp
  moreover have "find_from P (Suc i) (b @ r) = find_from P (Suc i + length b) r"
    using Cons.prems [of "Suc _"] by (intro Cons.IH) auto
  ultimately show ?case by simp
qed simp

lemma find_from_hit: "P r \<Longrightarrow> find_from P i r = Some i"
  by (cases r) simp_all

lemma find_string_at:
  assumes "s = a @ b @ x @ r" "length s < 2 ^ 63"
    and "\<And>k. k < length b \<Longrightarrow> take (length x) (drop k b @ x @ r) \<noteq> x"
  shows "find_string x (of_nat (length a)) s = of_nat (length a + length b)"
proof -
  have la: "unat (of_nat (length a) :: u64) = length a" "uint (of_nat (length a) :: u64) = int (length a)"
    using assms(1,2) by (auto intro!: unat_of_nat_small uint_of_nat_small)
  have "find_from (\<lambda>r. take (length x) r = x) (length a) (b @ x @ r) = Some (length a + length b)"
    using assms(3) by (subst find_from_skip) (simp_all add: find_from_hit)
  with assms(1) la show ?thesis by (simp add: find_string_def)
qed

lemma find_char_at:
  assumes "s = a @ b @ c # r" "length s < 2 ^ 63" "c \<notin> set b"
  shows "find_char c (of_nat (length a)) s = of_nat (length a + length b)"
proof -
  have "take (length [c]) (drop k b @ [c] @ r) \<noteq> [c]" if "k < length b" for k
    using that assms(3) by (auto simp: Cons_nth_drop_Suc [symmetric])
  from find_string_at [of s a b "[c]" r, OF _ assms(2) this] assms(1) show ?thesis
    by (simp add: find_char_def)
qed

lemma find_char_none:
  assumes "s = a @ b" "length s < 2 ^ 63" "c \<notin> set b"
  shows "find_char c (of_nat (length a)) s = npos"
proof -
  have la: "unat (of_nat (length a) :: u64) = length a" "uint (of_nat (length a) :: u64) = int (length a)"
    using assms(1,2) by (auto intro!: unat_of_nat_small uint_of_nat_small)
  have "take (length [c]) (drop k b @ []) \<noteq> [c]" if "k < length b" for k
    using that assms(3) by (auto simp: Cons_nth_drop_Suc [symmetric])
  then have "find_from (\<lambda>r. take (length [c]) r = [c]) (length a) (b @ []) = None"
    by (subst find_from_skip) simp_all
  with assms(1) la show ?thesis by (simp add: find_char_def find_string_def)
qed

lemma char_at_pos:
  assumes "s = a @ c # r" "length s < 2 ^ 63"
  shows "char_at s (of_nat (length a)) = Inr c"
  using assms unat_of_nat_small [of "length a"] uint_of_nat_small [of "length a"]
  by (simp add: char_at_def nth_append)

lemma substr_at:
  assumes "s = a @ x @ r" "length s < 2 ^ 63"
  shows "substr s (of_nat (length a)) (of_nat (length x)) = Inr x"
  using assms unat_of_nat_small [of "length a"] uint_of_nat_small [of "length a"] unat_of_nat_small [of "length x"]
  by (simp add: substr_def at_most_min)

section \<open>Names\<close>

text \<open>A name is printed with its backticks doubled; the scan stops at its closing backtick.\<close>

lemma skip_doubled_name:
  assumes "s = a @ u @ quoted_chars backtick backtick n @ backtick # c # r" "length s < 2 ^ 63" "c \<noteq> backtick"
    and "backtick \<notin> set u"
  shows "skip_doubled s (find_char backtick (of_nat (length a)) s) =
    Some (Inr (of_nat (length a + length u + length (quoted_chars backtick backtick n))))"
  using assms
proof (induction n arbitrary: a u)
  case Nil
  have f: "find_char backtick (of_nat (length a)) s = of_nat (length a + length u)"
    using find_char_at [of s a u backtick "c # r"] Nil by simp
  have "char_at s (of_nat (length (a @ u @ [backtick]))) = Inr c"
    using char_at_pos [of s "a @ u @ [backtick]" c r] Nil by simp
  with f Nil.prems(3) show ?case
    by (subst skip_doubled.simps) (simp add: add.commute add.left_commute)
next
  case (Cons x n)
  show ?case
  proof (cases "x = backtick")
    case False
    with Cons.IH [of a "u @ [x]"] Cons.prems show ?thesis by (simp add: add.commute add.left_commute)
  next
    case True
    have f: "find_char backtick (of_nat (length a)) s = of_nat (length a + length u)"
      using find_char_at [of s a u backtick "backtick # quoted_chars backtick backtick n @ backtick # c # r"]
        Cons.prems True by simp
    have next_char: "char_at s (of_nat (length (a @ u @ [backtick]))) = Inr backtick"
      using char_at_pos [of s "a @ u @ [backtick]" backtick "quoted_chars backtick backtick n @ backtick # c # r"]
        Cons.prems True by simp
    have "skip_doubled s (find_char backtick (of_nat (length (a @ u @ [backtick, backtick]))) s) =
        Some (Inr (of_nat (length (a @ u @ [backtick, backtick]) + length ([] :: string) +
          length (quoted_chars backtick backtick n))))"
      using Cons.IH [of "a @ u @ [backtick, backtick]" "[]"] Cons.prems True by simp
    with f next_char True show ?thesis
      by (subst skip_doubled.simps) (simp add: add.commute add.left_commute)
  qed
qed


section \<open>Searching\<close>

text \<open>\<open>no_match x s r\<close>: \<open>x\<close> does not occur in \<open>s @ r\<close> at a position inside \<open>s\<close>.\<close>

fun no_match :: "string \<Rightarrow> string \<Rightarrow> string \<Rightarrow> bool" where
  "no_match x [] r = True"
| "no_match x (c # s) r \<longleftrightarrow> \<not> prefix x (c # s @ r) \<and> no_match x s r"

lemma no_match_iff: "no_match x s r \<longleftrightarrow> (\<forall>k < length s. \<not> prefix x (drop k s @ r))"
proof (induction s)
  case (Cons c s)
  then show ?case by (auto simp: less_Suc_eq_0_disj)
qed simp

lemma take_eq_prefix: "take (length x) y = x \<longleftrightarrow> prefix x y"
  by (metis append_eq_conv_conj prefix_def append_take_drop_id)

lemma find_match:
  assumes "s = a @ b @ x @ r" "length s < 2 ^ 63" "no_match x b (x @ r)"
  shows "find_string x (of_nat (length a)) s = of_nat (length a + length b)"
  using assms(3) by (intro find_string_at [OF assms(1,2)]) (simp only: no_match_iff take_eq_prefix simp_thms)

lemma no_match_append: "no_match x (s @ t) r \<longleftrightarrow> no_match x s (t @ r) \<and> no_match x t r"
  by (induction s) auto

lemma no_match_longer: "no_match x s r \<Longrightarrow> no_match (x @ z) s r"
  by (induction s) (auto dest: append_prefixD)

lemma prefix_before:
  "prefix x (v @ b # r) \<Longrightarrow> b \<notin> set x \<Longrightarrow> prefix x v"
  by (auto simp: prefix_append prefix_Cons)

lemma no_match_last:
  assumes "c \<notin> set y" "c \<notin> set s"
  shows "no_match (y @ [c]) s (y @ [c] @ r)"
  using assms(2)
proof (induction s)
  case (Cons d s)
  have "\<not> prefix (y @ [c]) (d # s @ y @ [c] @ r)"
  proof
    assume "prefix (y @ [c]) (d # s @ y @ [c] @ r)"
    then obtain w where w: "d # s @ y @ [c] @ r = y @ c # w" by (auto simp: prefix_def)
    have "takeWhile (\<lambda>e. e \<noteq> c) (y @ c # w) = y"
      using assms(1) by (subst takeWhile_append2) auto
    moreover have "takeWhile (\<lambda>e. e \<noteq> c) (d # s @ y @ [c] @ r) = d # s @ y"
    proof -
      have "\<forall>e \<in> set (d # s @ y). e \<noteq> c" using assms(1) Cons.prems by auto
      then have "takeWhile (\<lambda>e. e \<noteq> c) ((d # s @ y) @ [c] @ r) = (d # s @ y) @ takeWhile (\<lambda>e. e \<noteq> c) ([c] @ r)"
        by (intro takeWhile_append2) auto
      then show ?thesis by simp
    qed
    ultimately have "d # s @ y = y" by (simp only: w)
    then have "length (d # s @ y) = length y" by simp
    then show False by simp
  qed
  with Cons show ?case by simp
qed simp

lemma no_match_across:
  assumes "b \<notin> set x" "c \<in> set x" "c \<notin> set v"
  shows "no_match x v (b # r)"
  using assms(3)
proof (induction v)
  case (Cons d v)
  have "\<not> prefix x ((d # v) @ b # r)"
  proof
    assume "prefix x ((d # v) @ b # r)"
    from set_mono_prefix [OF prefix_before [OF this assms(1)]] have "set x \<subseteq> set (d # v)" .
    with assms(2) Cons.prems show False by blast
  qed
  with Cons show ?case by simp
qed simp

lemma prefix_quoted:
  "prefix x (quoted_chars b b n @ b # r) \<Longrightarrow> b \<notin> set x \<Longrightarrow> prefix x n"
proof (induction n arbitrary: x)
  case (Cons c n)
  then show ?case by (cases x) (auto split: if_splits)
qed (auto simp: prefix_Cons)

lemma no_match_quoted:
  assumes "b \<notin> set x" "x \<noteq> []" "no_match x n []"
  shows "no_match x (quoted_chars b b n) (b # r)"
  using assms(3)
proof (induction n)
  case (Cons c n)
  have nb: "\<not> prefix x (b # z)" for z using assms(1,2) by (cases x) auto
  show ?case
  proof (cases "c = b")
    case True
    with Cons nb show ?thesis by simp
  next
    case False
    have "\<not> prefix x (quoted_chars b b (c # n) @ b # r)"
      using prefix_quoted [of x b "c # n" r] Cons.prems assms(1) by auto
    with Cons False show ?thesis by simp
  qed
qed simp

section \<open>Columns as the server prints them\<close>

text \<open>
  A column is printed as its quoted name, its type, its character set if it has one, and \<open>NULL\<close>.
  The flag of a character type is whether the character set is \<open>utf8mb4\<close>.
\<close>

datatype decl =
    BigintDecl nat | IntDecl nat | DoubleDecl | DatetimeDecl | DateDecl | TimeDecl | TimestampDecl
  | BinaryDecl nat | VarbinaryDecl nat | BlobDecl | LongblobDecl
  | CharDecl nat bool | VarcharDecl nat bool | TextDecl bool | LongtextDecl bool | DecimalDecl nat nat

definition sized :: "string \<Rightarrow> nat \<Rightarrow> string" where
  "sized t n = t @ ''('' @ nat_to_string n @ '')''"

fun decl_text :: "decl \<Rightarrow> string" where
  "decl_text (BigintDecl n) = sized ''bigint'' n"
| "decl_text (IntDecl n) = sized ''int'' n"
| "decl_text DoubleDecl = ''double''"
| "decl_text DatetimeDecl = ''datetime(6)''"
| "decl_text DateDecl = ''date''"
| "decl_text TimeDecl = ''time''"
| "decl_text TimestampDecl = ''timestamp''"
| "decl_text (BinaryDecl n) = sized ''binary'' n"
| "decl_text (VarbinaryDecl n) = sized ''varbinary'' n"
| "decl_text BlobDecl = ''blob''"
| "decl_text LongblobDecl = ''longblob''"
| "decl_text (CharDecl n u) = sized ''char'' n"
| "decl_text (VarcharDecl n u) = sized ''varchar'' n"
| "decl_text (TextDecl u) = ''text''"
| "decl_text (LongtextDecl u) = ''longtext''"
| "decl_text (DecimalDecl p s) = ''decimal('' @ nat_to_string p @ '','' @ nat_to_string s @ '')''"

definition charset :: "bool \<Rightarrow> string" where
  "charset u = (if u then ''CHARACTER SET utf8mb4 COLLATE utf8mb4_general_ci ''
    else ''CHARACTER SET utf8 COLLATE utf8_general_ci '')"

fun decl_charset :: "decl \<Rightarrow> string" where
  "decl_charset (CharDecl n u) = charset u"
| "decl_charset (VarcharDecl n u) = charset u"
| "decl_charset (TextDecl u) = charset u"
| "decl_charset (LongtextDecl u) = charset u"
| "decl_charset d = ''''"

text \<open>The type and size that the declaration stands for; \<open>uninit\<close> is the size that is never set.\<close>

fun decl_type :: "i64 \<Rightarrow> decl \<Rightarrow> ColumnType \<times> i64" where
  "decl_type z (BigintDecl n) = (Int64, 8)"
| "decl_type z (IntDecl n) = (Int32, 4)"
| "decl_type z DoubleDecl = (Double, 8)"
| "decl_type z DatetimeDecl = (DateTime, 8)"
| "decl_type z DateDecl = (Date, 4)"
| "decl_type z TimeDecl = (Time, 8)"
| "decl_type z TimestampDecl = (Time, 8)"
| "decl_type z (BinaryDecl n) = (Fixed, of_nat n)"
| "decl_type z (CharDecl n u) = (Fixed, of_nat (n * (if u then 4 else 3)))"
| "decl_type z (DecimalDecl p s) = (Unsupported, z)"
| "decl_type z d = (Variable, 0)"

fun decl_ok :: "decl \<Rightarrow> bool" where
  "decl_ok (BinaryDecl n) \<longleftrightarrow> n < 2 ^ 31"
| "decl_ok (CharDecl n u) \<longleftrightarrow> 4 * n < 2 ^ 31"
| "decl_ok d \<longleftrightarrow> True"

definition field_body :: "string \<times> decl \<Rightarrow> string" where
  "field_body f = QuotedName (fst f) @ '' '' @ decl_text (snd f) @ '' '' @ decl_charset (snd f)"

definition field_text :: "string \<times> decl \<Rightarrow> string" where
  "field_text f = field_body f @ ''NULL''"

text \<open>
  The column that is recovered: the name is as it was printed, with its backticks doubled.
\<close>

definition field_column :: "i64 \<Rightarrow> string \<times> decl \<Rightarrow> Column" where
  "field_column z f =
     \<lparr>col_type = fst (decl_type z (snd f)), col_size = snd (decl_type z (snd f)),
      col_name = quoted_chars backtick backtick (fst f)\<rparr>"

definition field_ok :: "string \<times> decl \<Rightarrow> bool" where
  "field_ok f \<longleftrightarrow> CHR 0x00 \<notin> set (fst f) \<and> no_match ''NULL] '' (fst f) '''' \<and> decl_ok (snd f)"

lemma digits_char: "c \<in> set (nat_to_string n) \<Longrightarrow> is_digit c"
  using nat_to_string_digits [of n] by (auto simp: list_all_iff)

lemma decl_text_chars:
  "c \<in> set (decl_text d) \<Longrightarrow> c \<noteq> CHR '' '' \<and> c \<noteq> backtick \<and> c \<noteq> CHR '']''"
  by (cases d) (auto simp: sized_def backtick_def is_digit_def dest!: digits_char)

lemma decl_charset_chars:
  "c \<in> set (decl_charset d) \<Longrightarrow> c \<noteq> CHR '','' \<and> c \<noteq> backtick \<and> c \<noteq> CHR '']''"
  by (cases d) (auto simp: charset_def backtick_def split: if_splits)


section \<open>Splitting\<close>

text \<open>\<open>marks s last f d\<close>: the indices that are recorded for the field \<open>f\<close> of the text \<open>s\<close>.\<close>

definition marks :: "string \<Rightarrow> string \<times> decl \<Rightarrow> FieldDefSplit \<Rightarrow> bool" where
  "marks s f d \<longleftrightarrow>
     (\<exists>p r w. s = p @ field_body f @ r \<and>
        (let n = length (quoted_chars backtick backtick (fst f)); t = length p + n + 3 in
         name_start d = of_nat (length p + 1) \<and> name_end d = of_nat (length p + n) \<and>
         type_start d = of_nat t \<and> type_end d = of_nat (t + length (decl_text (snd f))) \<and>
         w \<in> {''NULL,'', ''N''} \<and>
         substr s (type_end d) (field_end d - type_end d + 1) = Inr ('' '' @ decl_charset (snd f) @ w)))"

lemma fields_text_Cons:
  "fs \<noteq> [] \<Longrightarrow> sep_by '', '' (map field_text (f # fs)) = field_text f @ '', '' @ sep_by '', '' (map field_text fs)"
  by (cases fs) simp_all

lemma of_nat_less: "a < 2 ^ 64 \<Longrightarrow> b < 2 ^ 64 \<Longrightarrow> (of_nat a :: u64) < of_nat b \<longleftrightarrow> a < b"
  by (simp add: word_less_nat_alt unat_of_nat_small)

text \<open>One iteration, up to the search for the end of the field.\<close>

lemma split_step:
  assumes "s = a @ g @ field_body f @ r" "length s < 2 ^ 63" "backtick \<notin> set g" "length a < E" "E < 2 ^ 64"
  defines "n \<equiv> length (quoted_chars backtick backtick (fst f))" and "p \<equiv> length a + length g"
  defines "te \<equiv> p + n + 3 + length (decl_text (snd f))"
  shows "split_fields s (of_nat E) (of_nat (length a)) acc =
    (let comma = find_char CHR '','' (of_nat te) s; fe = (if comma = npos then of_nat E else comma) in
     split_fields s (of_nat E) fe (acc @ [\<lparr>name_start = of_nat (p + 1), name_end = of_nat (p + n),
        type_start = of_nat (p + n + 3), type_end = of_nat te, field_end = fe\<rparr>]))"
proof -
  let ?q = "quoted_chars backtick backtick (fst f)"
  have s: "s = a @ g @ backtick # ?q @ backtick # CHR '' '' # decl_text (snd f) @ CHR '' '' # decl_charset (snd f) @ r"
    using assms(1) by (simp add: field_body_def QuotedName_def quoted_def backtick_def)
  have lt: "(of_nat (length a) :: u64) < of_nat E"
    using assms(1,2,4,5) by (subst of_nat_less) auto
  have 1: "find_char backtick (of_nat (length a)) s = of_nat p"
    using find_char_at [of s a g backtick] s assms(2,3) by (simp add: p_def)
  have 2: "skip_doubled s (find_char backtick (of_nat (p + 1)) s) = Some (Inr (of_nat (p + 1 + n)))"
    using skip_doubled_name [of s "a @ g @ [backtick]" "[]" "fst f" "CHR '' ''"] s assms(2)
    by (simp add: p_def n_def backtick_def add.assoc)
  have 3: "find_char CHR '' '' (of_nat (p + n + 3)) s = of_nat te"
    using find_char_at [of s "a @ g @ backtick # ?q @ [backtick, CHR '' '']" "decl_text (snd f)" "CHR '' ''"] s assms(2)
      decl_text_chars [of _ "snd f"]
    by (auto simp: p_def n_def te_def add.assoc numeral_3_eq_3)
  show ?thesis
    using lt 1 2 3
    by (subst split_fields.simps) (simp add: Let_def ac_simps)
qed


lemma substr_end:
  assumes "s = a @ x @ r" "length s < 2 ^ 63" "x \<noteq> []" "e = of_nat (length a + length x - 1)"
  shows "substr s (of_nat (length a)) (e - of_nat (length a) + 1) = Inr x"
proof -
  have "e - of_nat (length a) + 1 = of_nat (length x)"
    using assms(3,4) by (cases x) simp_all
  with substr_at [OF assms(1,2)] show ?thesis by simp
qed

lemma of_nat_not_npos:
  assumes "n < 2 ^ 63"
  shows "(of_nat n :: u64) \<noteq> npos"
proof
  assume "(of_nat n :: u64) = npos"
  moreover have "unat npos = 2 ^ 64 - 1" by (simp add: npos_def unat_eq_nat_uint uint_word_ariths)
  ultimately have "unat (of_nat n :: u64) = 2 ^ 64 - 1" by simp
  with assms show False using unat_of_nat_small [of n] by simp
qed

text \<open>The indices that are recorded for a field that begins after \<open>k\<close> characters.\<close>

definition record_at :: "nat \<Rightarrow> string \<times> decl \<Rightarrow> u64 \<Rightarrow> FieldDefSplit" where
  "record_at k f fe =
     (let n = length (quoted_chars backtick backtick (fst f)) in
      \<lparr>name_start = of_nat (k + 1), name_end = of_nat (k + n), type_start = of_nat (k + n + 3),
       type_end = of_nat (k + n + 3 + length (decl_text (snd f))), field_end = fe\<rparr>)"

lemma field_parts:
  assumes "s = a @ g @ field_body f @ r"
  defines "te \<equiv> length a + length g + length (quoted_chars backtick backtick (fst f)) + 3 + length (decl_text (snd f))"
  shows "length (field_body f) = length (quoted_chars backtick backtick (fst f)) + 4 + length (decl_text (snd f)) +
      length (decl_charset (snd f))"
    "s = (a @ g @ QuotedName (fst f) @ '' '' @ decl_text (snd f)) @ '' '' @ decl_charset (snd f) @ r"
    "length (a @ g @ QuotedName (fst f) @ '' '' @ decl_text (snd f)) = te"
  using assms by (simp_all add: field_body_def QuotedName_def quoted_def backtick_def)

lemma no_comma: "CHR '','' \<notin> set (decl_charset d)"
  using decl_charset_chars by blast

lemma marks_record:
  assumes "s = a @ g @ field_body f @ w @ r" "length s < 2 ^ 63" "w = ''NULL,'' \<or> w = ''N''"
    and "e = length a + length g + length (field_body f) + length w - 1"
  shows "marks s f (record_at (length a + length g) f (of_nat e))"
proof -
  note fp = field_parts [OF assms(1)]
  let ?n = "length (quoted_chars backtick backtick (fst f))"
  let ?te = "length a + length g + ?n + 3 + length (decl_text (snd f))"
  have s: "s = (a @ g @ QuotedName (fst f) @ '' '' @ decl_text (snd f)) @ ('' '' @ decl_charset (snd f) @ w) @ r"
    using fp(2) by simp
  have "e = ?te + length ('' '' @ decl_charset (snd f) @ w) - 1" using assms(3,4) fp(1) by auto
  then have "(of_nat e :: u64) = of_nat (?te + length ('' '' @ decl_charset (snd f) @ w) - 1)" by (rule arg_cong)
  from substr_end [OF s assms(2) _ this [folded fp(3)]]
  have "substr s (of_nat ?te) (of_nat e - of_nat ?te + 1) = Inr ('' '' @ decl_charset (snd f) @ w)"
    unfolding fp(3) by simp
  then show ?thesis
    unfolding marks_def record_at_def Let_def using assms(1,3)
    by (intro exI [of _ "a @ g"] exI [of _ "w @ r"] exI [of _ w]) simp
qed

lemma split_last:
  assumes "s = a @ g @ field_body f @ ''NULL]'' @ r" "length s < 2 ^ 63" "backtick \<notin> set g" "CHR '','' \<notin> set r"
    and "E = length a + length g + length (field_body f)"
  shows "\<exists>d. split_fields s (of_nat E) (of_nat (length a)) acc = Some (Inr (acc @ [d])) \<and> marks s f d"
proof -
  note fp = field_parts [OF assms(1)]
  have "CHR '','' \<notin> set ('' '' @ decl_charset (snd f) @ ''NULL]'' @ r)" using assms(4) no_comma by simp
  from find_char_none [OF fp(2) assms(2) this, unfolded fp(3)]
  have "split_fields s (of_nat E) (of_nat (length a)) acc =
      split_fields s (of_nat E) (of_nat E) (acc @ [record_at (length a + length g) f (of_nat E)])"
  proof -
    have "length a < E" "E < 2 ^ 64" using assms(1,2,5) fp(1) by simp_all
    from split_step [OF assms(1-3) this, of acc] \<open>find_char _ _ _ = npos\<close>
    show ?thesis by (simp only: Let_def if_True simp_thms record_at_def)
  qed
  also have "\<dots> = Some (Inr (acc @ [record_at (length a + length g) f (of_nat E)]))"
    by (subst split_fields.simps) simp
  finally show ?thesis
    using marks_record [of s a g f "''N''" "''ULL]'' @ r" E] assms by auto
qed

lemma split_next:
  assumes "s = a @ g @ field_text f @ '','' @ r" "length s < 2 ^ 63" "backtick \<notin> set g"
    and "length (a @ g @ field_text f) < E" "E < 2 ^ 64"
  shows "\<exists>d. split_fields s (of_nat E) (of_nat (length a)) acc =
      split_fields s (of_nat E) (of_nat (length (a @ g @ field_text f))) (acc @ [d]) \<and> marks s f d"
proof -
  let ?e = "length (a @ g @ field_text f)"
  have s: "s = a @ g @ field_body f @ ''NULL,'' @ r" using assms(1) by (simp add: field_text_def)
  note fp = field_parts [OF s]
  have 1: "s = (a @ g @ QuotedName (fst f) @ '' '' @ decl_text (snd f)) @ ('' '' @ decl_charset (snd f) @ ''NULL'') @
      CHR '','' # r" using fp(2) by simp
  have 2: "CHR '','' \<notin> set ('' '' @ decl_charset (snd f) @ ''NULL'')" using no_comma by simp
  have 3: "length a + length g + length (quoted_chars backtick backtick (fst f)) + 3 + length (decl_text (snd f)) +
      length ('' '' @ decl_charset (snd f) @ ''NULL'') = ?e"
    using fp(1) by (simp add: field_text_def)
  note comma = find_char_at [OF 1 assms(2) 2, unfolded fp(3) 3]
  have "?e < 2 ^ 63" using assms(1,2) by simp
  then have ne: "(of_nat ?e :: u64) \<noteq> npos" by (rule of_nat_not_npos)
  have "length a < E" using assms(4) by simp
  from split_step [OF s assms(2,3) this assms(5), of acc] comma ne
  have "split_fields s (of_nat E) (of_nat (length a)) acc =
      split_fields s (of_nat E) (of_nat ?e) (acc @ [record_at (length a + length g) f (of_nat ?e)])"
    by (simp only: Let_def if_False record_at_def)
  with marks_record [of s a g f "''NULL,''" r ?e] s assms(2) show ?thesis by (auto simp: field_text_def)
qed

lemma split_fields_text:
  assumes "s = a @ g @ sep_by '', '' (map field_text fs) @ '']'' @ r" "length s < 2 ^ 63" "fs \<noteq> []"
    and "backtick \<notin> set g" "CHR '','' \<notin> set r" "E = length a + length g + length (sep_by '', '' (map field_text fs)) - 4"
  shows "\<exists>ds. split_fields s (of_nat E) (of_nat (length a)) acc = Some (Inr (acc @ ds)) \<and> list_all2 (marks s) fs ds"
  using assms
proof (induction fs arbitrary: a g acc)
  case (Cons f fs)
  show ?case
  proof (cases "fs = []")
    case True
    then have "s = a @ g @ field_body f @ ''NULL]'' @ r" "E = length a + length g + length (field_body f)"
      using Cons.prems(1,6) by (simp_all add: field_text_def)
    from split_last [OF this(1) Cons.prems(2,4,5) this(2), of acc] obtain d where
      "split_fields s (of_nat E) (of_nat (length a)) acc = Some (Inr (acc @ [d]))" "marks s f d" by blast
    with True show ?thesis by (intro exI [of _ "[d]"]) simp
  next
    case False
    let ?rest = "sep_by '', '' (map field_text fs)" and ?a = "a @ g @ field_text f"
    note ft = fields_text_Cons [OF False, of f]
    have s: "s = a @ g @ field_text f @ '','' @ '' '' @ ?rest @ '']'' @ r" using Cons.prems(1) [unfolded ft] by simp
    then have s': "s = ?a @ '', '' @ ?rest @ '']'' @ r" by simp
    have E: "E = length ?a + length '', '' + length ?rest - 4" using Cons.prems(6) [unfolded ft] by simp
    have nb: "backtick \<notin> set '', ''" by (simp add: backtick_def)
    obtain f' fs' where "fs = f' # fs'" using False by (cases fs) auto
    then have "4 \<le> length ?rest" by (cases fs') (simp_all add: field_text_def)
    then have big: "length ?a < E" "E < 2 ^ 64" using E s' Cons.prems(2) by simp_all
    obtain d where d: "split_fields s (of_nat E) (of_nat (length a)) acc =
        split_fields s (of_nat E) (of_nat (length ?a)) (acc @ [d])" "marks s f d"
      using split_next [OF s Cons.prems(2,4) big, of acc] by blast
    obtain ds where "split_fields s (of_nat E) (of_nat (length ?a)) (acc @ [d]) = Some (Inr ((acc @ [d]) @ ds))"
      "list_all2 (marks s) fs ds"
      using Cons.IH [OF s' Cons.prems(2) False nb Cons.prems(5) E, of "acc @ [d]"] by blast
    with d show ?thesis by (intro exI [of _ "d # ds"]) simp
  qed
qed simp


section \<open>Types\<close>

lemma quoted_no_zero: "CHR 0x00 \<notin> set n \<Longrightarrow> CHR 0x00 \<notin> set (quoted_chars backtick backtick n)"
  by (induction n) (auto simp: backtick_def)

lemma to_lower_digit: "is_digit c \<Longrightarrow> to_lower c = c"
  by (simp add: to_lower_def is_digit_def Let_def)

lemma to_lower_digits: "map to_lower (nat_to_string n) = nat_to_string n"
  by (intro map_idI to_lower_digit digits_char)

lemma stoi_digits: "n < 2 ^ 31 \<Longrightarrow> stoi (nat_to_string n) = Inr (int n)"
  using scan_d_nat_to_string [of "[]" n] by (simp add: stoi_def INT_MAX_def)

lemma find_utf8mb4:
  assumes "w = ''NULL,'' \<or> w = ''N''"
  shows "find_string ''utf8mb4'' 0 (map to_lower ('' '' @ charset u @ w)) \<noteq> npos \<longleftrightarrow> u"
  using assms
  by (elim disjE; cases u) (simp_all add: charset_def find_string_def to_lower_def npos_def)


text \<open>The substrings that one iteration of the helper reads.\<close>

lemma marks_substrings:
  assumes "marks s f d" "length s < 2 ^ 63" "CHR 0x00 \<notin> set (fst f)"
  shows "\<not> int (length s) < uint (name_start d)"
    "strndup (drop (unat (name_start d)) s) (at_most (length s) (name_end d - name_start d + 1)) =
      quoted_chars backtick backtick (fst f)"
    "substr s (type_start d) (type_end d - type_start d + 1) = Inr (decl_text (snd f) @ '' '')"
    "decl_text (snd f) = x @ y @ '')'' \<Longrightarrow>
      substr s (type_start d + of_nat (length x)) (type_end d - type_start d - of_nat (length x + 1)) = Inr y"
    "\<exists>w. (w = ''NULL,'' \<or> w = ''N'') \<and>
      substr s (type_end d) (field_end d - type_end d + 1) = Inr ('' '' @ decl_charset (snd f) @ w)"
proof -
  let ?q = "quoted_chars backtick backtick (fst f)" and ?t = "decl_text (snd f)"
  obtain p r w where m: "s = p @ field_body f @ r" "name_start d = of_nat (length p + 1)"
    "name_end d = of_nat (length p + length ?q)" "type_start d = of_nat (length p + length ?q + 3)"
    "type_end d = of_nat (length p + length ?q + 3 + length ?t)" "w \<in> {''NULL,'', ''N''}"
    "substr s (type_end d) (field_end d - type_end d + 1) = Inr ('' '' @ decl_charset (snd f) @ w)"
    using assms(1) unfolding marks_def Let_def by blast
  have s: "s = (p @ ''`'') @ ?q @ CHR ''`'' # '' '' @ ?t @ '' '' @ decl_charset (snd f) @ r"
    using m(1) by (simp add: field_body_def QuotedName_def quoted_def backtick_def)
  have small: "length p + 1 < 2 ^ 64" "length ?q < 2 ^ 64" "length p + 1 \<le> length s" "length ?q \<le> length s"
    using s assms(2) by simp_all
  have ns: "uint (name_start d) = int (length p + 1)" "unat (name_start d) = length p + 1"
    unfolding m(2) using small(1) uint_of_nat_small unat_of_nat_small by blast+
  show "\<not> int (length s) < uint (name_start d)" using ns(1) small(3) by linarith
  have "name_end d - name_start d + 1 = of_nat (length ?q)" unfolding m(2,3) by simp
  then have "at_most (length s) (name_end d - name_start d + 1) = length ?q"
    using unat_of_nat_small [OF small(2)] small(4) by (simp add: at_most_min)
  moreover have "takeWhile (\<lambda>c. c \<noteq> CHR 0x00) ?q = ?q"
    using quoted_no_zero [OF assms(3)] by (intro takeWhile_eq_all_conv [THEN iffD2]) auto
  ultimately show "strndup (drop (unat (name_start d)) s) (at_most (length s) (name_end d - name_start d + 1)) = ?q"
    using ns(2) by (subst s) (simp add: strndup_def)
  let ?P = "p @ ''`'' @ ?q @ CHR ''`'' # '' ''"
  have P: "length ?P = length p + length ?q + 3" by simp
  have "type_end d - type_start d + 1 = of_nat (length (?t @ '' ''))" unfolding m(4,5) by simp
  with substr_at [of s ?P "?t @ '' ''" "decl_charset (snd f) @ r", OF _ assms(2)] s
  show "substr s (type_start d) (type_end d - type_start d + 1) = Inr (?t @ '' '')"
    unfolding m(4) P [symmetric] by simp
  show "substr s (type_start d + of_nat (length x)) (type_end d - type_start d - of_nat (length x + 1)) = Inr y"
    if x: "?t = x @ y @ '')''"
  proof -
    have l: "length ?t = length x + length y + 1" using x by simp
    have "type_start d + of_nat (length x) = of_nat (length (?P @ x))" unfolding m(4) by simp
    moreover have "type_end d - type_start d - of_nat (length x + 1) = of_nat (length y)"
      unfolding m(4,5) l by simp
    moreover have "s = (?P @ x) @ y @ '')'' @ '' '' @ decl_charset (snd f) @ r" using s x by simp
    note substr_at [OF this assms(2)]
    ultimately show ?thesis by (simp only:)
  qed
  show "\<exists>w. (w = ''NULL,'' \<or> w = ''N'') \<and>
      substr s (type_end d) (field_end d - type_end d + 1) = Inr ('' '' @ decl_charset (snd f) @ w)"
    using m(6,7) by blast
qed

lemma column_of_marks:
  assumes "marks s f d" "length s < 2 ^ 63" "field_ok f"
  shows "column_of_split z s d = Inr (field_column z f)"
proof -
  have "CHR 0x00 \<notin> set (fst f)" using assms(3) by (simp add: field_ok_def)
  note m = marks_substrings [OF assms(1,2) this]
  note defs = column_of_split_def Let_def field_column_def starts_def sized_def to_lower_digits
  show ?thesis
  proof (cases "snd f")
    case (BinaryDecl n)
    from m(4) [of "''binary(''" "nat_to_string n"] BinaryDecl
    have "substr s (type_start d + 7) (type_end d - type_start d - 8) = Inr (nat_to_string n)" by (simp add: sized_def)
    then show ?thesis using m(1-3) BinaryDecl assms(3) stoi_digits [of n]
      by (simp add: defs field_ok_def to_lower_def)
  next
    case (CharDecl n u)
    from m(4) [of "''char(''" "nat_to_string n"] CharDecl
    have sz: "substr s (type_start d + 5) (type_end d - type_start d - 6) = Inr (nat_to_string n)" by (simp add: sized_def)
    obtain w where w: "w = ''NULL,'' \<or> w = ''N''"
      "substr s (type_end d) (field_end d - type_end d + 1) = Inr ('' '' @ charset u @ w)"
      using m(5) CharDecl by auto
    show ?thesis using m(1-3) CharDecl assms(3) stoi_digits [of n] sz w(2) find_utf8mb4 [OF w(1), of u]
      by (simp add: defs field_ok_def INT_MAX_def to_lower_def)
  qed (use m(1-3) in \<open>simp_all add: defs to_lower_def\<close>)
qed


section \<open>Plans\<close>

lemma no_match_name:
  assumes "no_match ''NULL] '' n ''''"
  shows "no_match ''NULL] '' (QuotedName n) r"
proof -
  have "no_match ''NULL] '' (quoted_chars backtick backtick n) (backtick # r)"
    using no_match_quoted [of backtick "''NULL] ''" n r] assms by (simp add: backtick_def)
  then show ?thesis by (simp add: QuotedName_def quoted_def no_match_append backtick_def)
qed

definition field_rest :: "string \<times> decl \<Rightarrow> string" where
  "field_rest f = '' '' @ decl_text (snd f) @ '' '' @ decl_charset (snd f)"

lemma field_rest_chars: "CHR '']'' \<notin> set (field_rest f)"
  using decl_text_chars [of _ "snd f"] decl_charset_chars [of _ "snd f"] by (auto simp: field_rest_def)

lemma field_body_rest: "field_body f = QuotedName (fst f) @ field_rest f"
  by (simp add: field_body_def field_rest_def)

text \<open>The first \<open>NULL]\<close> followed by a space is that of the last field.\<close>

lemma fields_end:
  assumes "fs \<noteq> []" "\<forall>f \<in> set fs. field_ok f"
  shows "\<exists>b. sep_by '', '' (map field_text fs) = (backtick # b) @ ''NULL'' \<and>
    no_match ''NULL] '' (backtick # b) (''NULL] '' @ r)"
  using assms
proof (induction fs)
  case (Cons f fs)
  have n: "no_match ''NULL] '' (QuotedName (fst f)) z" for z
    using Cons.prems(2) by (intro no_match_name) (simp add: field_ok_def)
  obtain c where c: "QuotedName (fst f) = backtick # c" by (simp add: QuotedName_def quoted_def backtick_def)
  show ?case
  proof (cases "fs = []")
    case True
    have "no_match ''NULL]'' (field_rest f) (''NULL]'' @ '' '' @ r)"
      using no_match_last [of "CHR '']''" "''NULL''" "field_rest f" "'' '' @ r"] field_rest_chars by simp
    from no_match_longer [OF this, of "'' ''"]
    have "no_match ''NULL] '' (QuotedName (fst f) @ field_rest f) (''NULL] '' @ r)"
      using n by (simp add: no_match_append)
    with True c show ?thesis by (intro exI [of _ "c @ field_rest f"]) (simp add: field_text_def field_body_rest)
  next
    case False
    with Cons obtain b where b: "sep_by '', '' (map field_text fs) = (backtick # b) @ ''NULL''"
      "no_match ''NULL] '' (backtick # b) (''NULL] '' @ r)" by auto
    have "no_match ''NULL] '' (field_rest f @ ''NULL, '') (backtick # b @ ''NULL] '' @ r)"
      by (rule no_match_across [of _ _ "CHR '']''"]) (use field_rest_chars in \<open>simp_all add: backtick_def\<close>)
    with n b(2) have "no_match ''NULL] '' (QuotedName (fst f) @ (field_rest f @ ''NULL, '') @ backtick # b) (''NULL] '' @ r)"
      unfolding no_match_append [of _ "QuotedName (fst f)"] no_match_append [of _ "field_rest f @ ''NULL, ''"] by simp
    moreover have "sep_by '', '' (map field_text (f # fs)) =
        (QuotedName (fst f) @ (field_rest f @ ''NULL, '') @ backtick # b) @ ''NULL''"
      using fields_text_Cons [OF False, of f] b(1) by (simp add: field_text_def [of f] field_body_rest)
    ultimately show ?thesis unfolding c by (intro exI [of _ "c @ (field_rest f @ ''NULL, '') @ backtick # b"]) simp
  qed
qed simp

definition plan_text :: "string \<Rightarrow> (string \<times> decl) list \<Rightarrow> string \<Rightarrow> string" where
  "plan_text pre fs post = pre @ '' show_columns:['' @ sep_by '', '' (map field_text fs) @ ''] '' @ post"

lemma plan_columns:
  assumes "fs \<noteq> []" "\<forall>f \<in> set fs. field_ok f" "CHR ''['' \<notin> set pre" "CHR '','' \<notin> set post"
    and "length (plan_text pre fs post) < 2 ^ 63"
  shows "ExplainToRowSchema z (plan_text pre fs post) = Some (Inr (map (field_column z) fs))"
proof -
  let ?F = "sep_by '', '' (map field_text fs)" and ?h = "'' show_columns:''"
  define s where "s = plan_text pre fs post"
  have s: "s = pre @ ?h @ ''['' @ ?F @ '']'' @ '' '' @ post" by (simp add: s_def plan_text_def)
  have small: "length s < 2 ^ 63" using assms(5) by (simp add: s_def)
  obtain b0 where b0: "?F = (backtick # b0) @ ''NULL'' \<and> no_match ''NULL] '' (backtick # b0) (''NULL] '' @ post)"
    using fields_end [OF assms(1,2), of post] by (elim exE)
  define b where "b = backtick # b0"
  note b = b0 [folded b_def, THEN conjunct1] b0 [folded b_def, THEN conjunct2]
  have "no_match (?h @ ''['') pre ((?h @ ''['') @ ?F @ ''] '' @ post)"
    using no_match_last [of "CHR ''[''" ?h pre "?F @ ''] '' @ post"] assms(3) by simp
  from find_match [of s "[]" pre "?h @ ''[''", OF _ small this]
  have 1: "find_string '' show_columns:['' 0 s = of_nat (length pre)" using s by simp
  have 2: "find_char CHR ''['' (of_nat (length pre)) s = of_nat (length (pre @ ?h))"
    using find_char_at [of s pre ?h "CHR ''[''" "?F @ ''] '' @ post"] s small by simp
  have "no_match ''NULL] '' (?h @ ''['' @ b) (''NULL] '' @ post)"
    using b(2) by simp
  from find_match [of s pre "?h @ ''['' @ b" "''NULL] ''", OF _ small this]
  have 3: "find_string ''NULL] '' (of_nat (length pre)) s = of_nat (length (pre @ ?h) + length ''['' + length ?F - 4)"
    using s b(1) by simp
  obtain ds where ds: "split_fields s (of_nat (length (pre @ ?h) + length ''['' + length ?F - 4))
      (of_nat (length (pre @ ?h))) [] = Some (Inr ds)" "list_all2 (marks s) fs ds"
    using split_fields_text [of s "pre @ ?h" "''[''" fs "'' '' @ post" _ "[]"] s small assms(1,4)
    by (auto simp: backtick_def)
  have "ShowColumnsToRowSchemaHelper z s ds = Inr (map (field_column z) fs)"
    using ds(2) assms(2)
    by (induction fs ds rule: list_all2_induct) (simp_all add: column_of_marks [OF _ small])
  with 1 2 3 ds(1) show ?thesis
    unfolding s_def [symmetric] ExplainToRowSchema_def Let_def by simp
qed



lemma nat_to_string_20: "nat_to_string 20 = ''20''"
proof -
  have "char_of (48 :: nat) = CHR ''0''" "char_of (50 :: nat) = CHR ''2''" by code_simp+
  then show ?thesis
    by (simp add: nat_to_string.simps [of 20] nat_to_string.simps [of 2] digit_char_def)
qed

definition example_fields :: "(string \<times> decl) list" where
  "example_fields = [(''a, b'', BigintDecl 20), (''c`d'', CharDecl 20 True), (''e[]'', TimestampDecl)]"


end
