(* ===== verification/TableReader.thy ===== *)
theory TableReader
  imports RowStream ThreadSafeQueue
begin

text \<open>
  \<^verbatim>\<open>ResultTableReader\<close> (\<^verbatim>\<open>result_table_reader.cpp\<close>): the thread that reads one partition from its own
  connection and pushes chunks to a queue. What it does to the queue is the sequence of operations
  it calls (those of theory \<open>ThreadSafeQueue\<close>).
\<close>

record 'm ResultTableReader =
  rt_conn :: "'m S2Connection"
  rt_queue :: nat
  rt_is_parallel :: bool
  rt_partition :: u32
  rt_active :: bool
  rt_query :: string
  rt_chunk_size :: u64
  rt_row_schema :: "RowSchema option"
  rt_use_prepared_protocol :: bool
  rt_error :: "nat \<times> string"
  rt_stop_reading :: bool

definition new_reader :: "'m S2Connection \<Rightarrow> nat \<Rightarrow> u32 \<Rightarrow> u64 \<Rightarrow> string \<Rightarrow> RowSchema option \<Rightarrow> 'm ResultTableReader" where
  "new_reader c q part sz readQuery schema =
     \<lparr>rt_conn = c, rt_queue = q, rt_is_parallel = True, rt_partition = part, rt_active = True,
      rt_query = readQuery, rt_chunk_size = sz, rt_row_schema = schema, rt_use_prepared_protocol = True,
      rt_error = (0, ''''), rt_stop_reading = False\<rparr>"

section \<open>Creating a reader\<close>

text \<open>A call of the error callback: code, message and severity.\<close>

type_synonym callback = "nat \<times> string \<times> nat"

definition S2C_SEVERITY_ERROR :: nat where "S2C_SEVERITY_ERROR = 0"
definition S2C_SEVERITY_WARNING :: nat where "S2C_SEVERITY_WARNING = 1"

text \<open>
  The calls of the error callback, and the reader, \<open>None\<close> for \<^verbatim>\<open>nullptr\<close>. \<open>h1\<close> and \<open>h2\<close> are the
  handles the client library makes for the two attempts.
\<close>

definition CreateTableReader ::
  "'m mysql \<Rightarrow> 'm option \<Rightarrow> 'm option \<Rightarrow> Credentials \<Rightarrow> Credentials \<Rightarrow> nat \<Rightarrow> string \<Rightarrow> RowSchema option \<Rightarrow>
   u32 \<Rightarrow> u64 \<Rightarrow> fault + callback list \<times> 'm ResultTableReader option" where
  "CreateTableReader my h1 h2 creds masterCreds q readQuery schema part sz =
     (case Connect_creds my h1 creds of
        Inr c \<Rightarrow> Inr ([], Some (new_reader c q part sz readQuery schema))
      | Inl (S2ClientError _ what) \<Rightarrow>
          let warning = (S2C_ERROR_BAD_CONNECTION,
                ''Cannot connect using data from information_schema.mv_nodes: '' @ what @ '' partition: '' @
                nat_to_string (unat part) @ [CHR 0x0A], S2C_SEVERITY_WARNING)
          in (case Connect_creds my h2 masterCreds of
                Inr c \<Rightarrow> Inr ([warning], Some (new_reader c q part sz readQuery schema))
              | Inl (S2ClientError _ what') \<Rightarrow>
                  Inr ([warning, (S2C_ERROR_BAD_CONNECTION,
                    ''Cannot connect to server using data from CAS worker'' @ [CHR 0x27] @ ''s S2Client: '' @ what' @
                    [CHR 0x0A], S2C_SEVERITY_ERROR)], None)
              | Inl e \<Rightarrow> Inl e)
      | Inl e \<Rightarrow> Inl e)"

definition CreateReaderNonParallel ::
  "'m mysql \<Rightarrow> 'm option \<Rightarrow> 'm S2Connection \<Rightarrow> nat \<Rightarrow> string \<Rightarrow> RowSchema option \<Rightarrow> u64 \<Rightarrow> bool \<Rightarrow>
   fault + 'm ResultTableReader" where
  "CreateReaderNonParallel my h conn q qry schema sz usePreparedProtocol =
     and_then (Connect my h (c_host conn) (c_port conn) (c_db conn) (c_user conn) (c_password conn) (c_ssl_ca conn))
       (\<lambda>c. Inr (new_reader c q 0 sz qry schema\<lparr>rt_is_parallel := False,
          rt_use_prepared_protocol := usePreparedProtocol\<rparr>))"

section \<open>Operations\<close>

text \<open>An action of the connection, run on the reader.\<close>

definition on_conn :: "('m S2Connection, 'a) act \<Rightarrow> ('m ResultTableReader, 'a) act" where
  "on_conn m r = (case m (rt_conn r) of (x, c) \<Rightarrow> (x, r\<lparr>rt_conn := c\<rparr>))"

definition PrepareRead :: "'m mysql \<Rightarrow> bool \<Rightarrow> ('m ResultTableReader, unit) act" where
  "PrepareRead my prefetch =
     handle
       (andThen (look (\<lambda>r. (rt_use_prepared_protocol r, rt_query r))) (\<lambda>(prepared, qry).
        andThen (on_conn (if prepared then Prepare my qry True prefetch else Execute my qry prefetch)) (\<lambda>_. give ())))
       (\<lambda>code msg. modify (\<lambda>r. r\<lparr>rt_error := (code, msg)\<rparr>))"

definition UpdateRowSchema :: "'m mysql \<Rightarrow> ('m ResultTableReader, RowSchema) act" where
  "UpdateRowSchema my =
     andThen (on_conn (GetRowSchema my False)) (\<lambda>schema.
     andThen (modify (\<lambda>r. r\<lparr>rt_row_schema := Some schema\<rparr>)) (\<lambda>_. give schema))"

definition Prefetch :: "'m mysql \<Rightarrow> ('m ResultTableReader, unit) act" where
  "Prefetch my = andThen (on_conn (Advance my)) (\<lambda>_. give ())"

definition StopReading :: "'m ResultTableReader \<Rightarrow> 'm ResultTableReader" where
  "StopReading r = r\<lparr>rt_stop_reading := True\<rparr>"

definition NotifyConnUnfinishedStmt :: "'m ResultTableReader \<Rightarrow> 'm ResultTableReader" where
  "NotifyConnUnfinishedStmt r = r\<lparr>rt_conn := snd (DiscardStmtClose (rt_conn r))\<rparr>"

section \<open>Reading\<close>

text \<open>
  The loop of \<^verbatim>\<open>Read\<close>: the chunks it pushes, and how it ends: with an error to record, without one, or with a fault that is not caught. \<open>stopped k\<close> is what the \<open>k\<close>-th look at
  \<^verbatim>\<open>m_stop_reading\<close> sees, \<open>alloc k\<close> what the \<open>k\<close>-th \<^verbatim>\<open>malloc\<close> returns.
\<close>

definition caught :: "fault \<Rightarrow> fault + (nat \<times> string) option" where
  "caught e =
     (case e of
        InvalidArgument msg \<Rightarrow> Inr (Some (S2C_ERROR_UNKNOWN_FAILURE, msg))
      | BadAlloc \<Rightarrow> Inr (Some (S2C_ERROR_MEMORY_ALLOCATION, ''Memory allocation error''))
      | S2ClientError code msg \<Rightarrow> Inr (Some (code, msg))
      | _ \<Rightarrow> Inl e)"

partial_function (option) read_loop ::
  "'m mysql \<Rightarrow> (nat \<Rightarrow> bool) \<Rightarrow> (nat \<Rightarrow> u8 list option) \<Rightarrow> u64 \<Rightarrow> u32 \<Rightarrow> RowSchema \<Rightarrow> nat \<Rightarrow> Chunk list \<Rightarrow>
   'm S2Connection \<Rightarrow> (Chunk list \<times> (fault + (nat \<times> string) option) \<times> 'm S2Connection) option" where
  "read_loop my stopped alloc sz part schema chunkId done c =
     (if stopped chunkId \<or> \<not> HasNextRow c then Some (done, Inr None, c) else
      case alloc chunkId of
        None \<Rightarrow> Some (done, Inr (Some (S2C_ERROR_MEMORY_ALLOCATION,
                  ''ResultTableReader cannot allocate chunk size: '' @ nat_to_string (unat sz))), c)
      | Some ptr \<Rightarrow>
         (case NextChunk my (NewChunk ptr sz (of_nat chunkId) part) schema c of
            None \<Rightarrow> None
          | Some (Inl e, c') \<Rightarrow> Some (done, caught e, c')
          | Some (Inr chunk, c') \<Rightarrow>
              if row_count chunk = 0 then Some (done, Inr None, c')
              else if 2 ^ 31 \<le> Suc chunkId then Some (done @ [chunk], Inl UndefinedBehaviour, c')
              else read_loop my stopped alloc sz part schema (Suc chunkId) (done @ [chunk]) c'))"

text \<open>
  \<^verbatim>\<open>Read\<close>: the operations on the queue and the reader afterwards, or what they were before a fault
  that ends the program.
\<close>

definition Read ::
  "'m mysql \<Rightarrow> (nat \<Rightarrow> bool) \<Rightarrow> (nat \<Rightarrow> u8 list option) \<Rightarrow> 'm ResultTableReader \<Rightarrow>
   (Chunk qop list \<times> (fault + 'm ResultTableReader)) option" where
  "Read my stopped alloc r =
     (let finish = (\<lambda>chunks r. (map QPush chunks @ [QDelete (sint (rt_partition r))], Inr (r\<lparr>rt_active := False\<rparr>)))
      in case rt_row_schema r of
           None \<Rightarrow> Some (finish [] (r\<lparr>rt_error := (S2C_ERROR_UNKNOWN_FAILURE, ''Failed to get RowSchema from the queue'')\<rparr>))
         | Some schema \<Rightarrow>
            (case (if rt_is_parallel r then PrepareRead my True r else (Inr (), r)) of
               (Inl e, r1) \<Rightarrow> Some ([], Inl e)
             | (Inr _, r1) \<Rightarrow>
                 if fst (rt_error r1) \<noteq> 0 then Some (finish [] r1) else
                 case read_loop my stopped alloc (rt_chunk_size r1) (rt_partition r1) schema 0 [] (rt_conn r1) of
                   None \<Rightarrow> None
                 | Some (chunks, Inl e, c) \<Rightarrow> Some (map QPush chunks, Inl e)
                 | Some (chunks, Inr err, c) \<Rightarrow>
                     Some (finish chunks (r1\<lparr>rt_conn := c,
                       rt_error := (case err of None \<Rightarrow> rt_error r1 | Some e \<Rightarrow> e)\<rparr>))))"

section \<open>The chunks of a partition\<close>

text \<open>
  \<open>numbered\<close>: the chunks of a partition carry consecutive numbers from \<open>k\<close> on.
  \<open>chunk_sequence\<close>: chunks so numbered that hold the rows, split into non-empty parts.
\<close>

definition numbered :: "u32 \<Rightarrow> nat \<Rightarrow> Chunk list \<Rightarrow> bool" where
  "numbered part k chunks \<longleftrightarrow>
     (\<forall>i < length chunks. chunk_id (chunks ! i) = of_nat (k + i) \<and> partition_id (chunks ! i) = part)"

lemma numbered_snoc:
  "numbered part k chunks \<Longrightarrow> chunk_id ch = of_nat (k + length chunks) \<Longrightarrow> partition_id ch = part \<Longrightarrow>
   numbered part k (chunks @ [ch])"
  by (auto simp: numbered_def nth_append less_Suc_eq)

lemma numbered_Cons:
  "chunk_id ch = of_nat k \<Longrightarrow> partition_id ch = part \<Longrightarrow> numbered part (Suc k) chunks \<Longrightarrow>
   numbered part k (ch # chunks)"
  by (auto simp: numbered_def less_Suc_eq_0_disj)

definition chunk_sequence :: "RowSchema \<Rightarrow> u32 \<Rightarrow> nat \<Rightarrow> row list \<Rightarrow> Chunk list \<Rightarrow> bool" where
  "chunk_sequence schema part k rs chunks \<longleftrightarrow>
     (\<exists>parts. concat parts = rs \<and> [] \<notin> set parts \<and> list_all2 (chunk_holds schema) parts chunks) \<and>
     numbered part k chunks"

lemma chunk_sequence_Nil [simp]: "chunk_sequence schema part k [] []"
  by (auto simp: chunk_sequence_def numbered_def intro: exI [of _ "[]"])

lemma chunk_sequence_Cons:
  assumes "chunk_holds schema rs ch" "rs \<noteq> []" "chunk_id ch = of_nat k" "partition_id ch = part"
    and "chunk_sequence schema part (Suc k) rs' chunks"
  shows "chunk_sequence schema part k (rs @ rs') (ch # chunks)"
proof -
  obtain parts where p: "concat parts = rs'" "[] \<notin> set parts" "list_all2 (chunk_holds schema) parts chunks"
    using assms(5) by (auto simp: chunk_sequence_def)
  have "concat (rs # parts) = rs @ rs' \<and> [] \<notin> set (rs # parts) \<and> list_all2 (chunk_holds schema) (rs # parts) (ch # chunks)"
    using p assms(1,2) by auto
  moreover have "numbered part k (ch # chunks)"
    using assms(3-5) by (auto simp: chunk_sequence_def intro: numbered_Cons)
  ultimately show ?thesis unfolding chunk_sequence_def by blast
qed

text \<open>The environment of a reader that is not disturbed: no stop, and memory for its chunks.\<close>

definition undisturbed :: "(nat \<Rightarrow> bool) \<Rightarrow> (nat \<Rightarrow> u8 list option) \<Rightarrow> u64 \<Rightarrow> bool" where
  "undisturbed stopped alloc sz \<longleftrightarrow>
     (\<forall>k. \<not> stopped k) \<and> (\<forall>k. \<exists>ptr. alloc k = Some ptr \<and> length ptr = unat sz)"

text \<open>Rows of the schema's types, none larger than the chunks.\<close>

definition rows_fit_in :: "u64 \<Rightarrow> RowSchema \<Rightarrow> row list \<Rightarrow> bool" where
  "rows_fit_in sz cs rs \<longleftrightarrow> rows_ok cs rs \<and> (\<forall>r \<in> set rs. \<not> too_large sz cs r)"

text \<open>The environment of a reader that is not stopped; \<^verbatim>\<open>malloc\<close> may fail.\<close>

definition unstopped :: "(nat \<Rightarrow> bool) \<Rightarrow> (nat \<Rightarrow> u8 list option) \<Rightarrow> u64 \<Rightarrow> bool" where
  "unstopped stopped alloc sz \<longleftrightarrow> (\<forall>k. \<not> stopped k) \<and> (\<forall>k ptr. alloc k = Some ptr \<longrightarrow> length ptr = unat sz)"

text \<open>
  How the loop ends after it has pushed the first \<open>m\<close> rows: at the end of the stream, or with the
  stream's fault, or without memory, or with a row that is too large.
\<close>

definition cut_short ::
  "fault option \<Rightarrow> u64 \<Rightarrow> RowSchema \<Rightarrow> row set \<Rightarrow> (nat \<Rightarrow> u8 list option) \<Rightarrow> fault + (nat \<times> string) option \<Rightarrow> bool" where
  "cut_short out sz cs rows alloc res \<longleftrightarrow>
     (\<exists>e. out = Some e \<and> res = caught e) \<or>
     (\<exists>k msg. alloc k = None \<and> res = Inr (Some (S2C_ERROR_MEMORY_ALLOCATION, msg))) \<or>
     (\<exists>msg. (\<exists>r \<in> rows. too_large sz cs r) \<and> res = caught (InvalidArgument msg))"

definition loop_ends ::
  "fault option \<Rightarrow> u64 \<Rightarrow> RowSchema \<Rightarrow> row list \<Rightarrow> (nat \<Rightarrow> u8 list option) \<Rightarrow> nat \<Rightarrow> fault + (nat \<times> string) option \<Rightarrow> bool" where
  "loop_ends out sz cs rs alloc m res \<longleftrightarrow>
     (m = length rs \<and> out = None \<and> res = Inr None) \<or> m < length rs \<and> cut_short out sz cs (set rs) alloc res"

lemma loop_ends_drop:
  assumes "loop_ends out sz cs (drop n rs) alloc m res" "n \<le> length rs"
  shows "loop_ends out sz cs rs alloc (n + m) res"
proof -
  have "cut_short out sz cs (set (drop n rs)) alloc res \<Longrightarrow> cut_short out sz cs (set rs) alloc res"
    unfolding cut_short_def using set_drop_subset [of n rs] by blast
  with assms show ?thesis by (auto simp: loop_ends_def cut_short_def)
qed

lemma read_loop_stream:
  assumes "delivers my rs out c" "unstopped stopped alloc sz" "rows_ok cs rs" "k + length rs < 2 ^ 31 - 1"
  shows "\<exists>chunks m res c'. read_loop my stopped alloc sz part cs k acc c = Some (acc @ chunks, res, c') \<and>
    chunk_sequence cs part k (take m rs) chunks \<and> loop_ends out sz cs rs alloc m res"
  using assms
proof (induction "length rs" arbitrary: rs c k acc rule: less_induct)
  case less
  have ns: "\<not> stopped k" using less.prems(2) by (simp add: unstopped_def)
  note unfold = read_loop.simps [of my stopped alloc sz part cs k acc c]
  have stop: ?case if "read_loop my stopped alloc sz part cs k acc c = Some (acc, res, d)"
    "loop_ends out sz cs rs alloc 0 res" for res d
    using that by (intro exI [of _ "[]"] exI [of _ 0] exI [of _ res] exI [of _ d]) simp
  show ?case
  proof (cases "rs = []")
    case True
    then have "\<not> HasNextRow c" "out = None"
      using delivers_HasNextRow [OF less.prems(1)] less.prems(1) by (simp_all add: delivers_Nil_iff)
    with True unfold show ?thesis by (intro stop [of "Inr None" c]) (simp_all add: loop_ends_def)
  next
    case False
    then have hn: "HasNextRow c" using delivers_HasNextRow [OF less.prems(1)] by simp
    show ?thesis
    proof (cases "alloc k")
      case None
      with ns hn unfold False show ?thesis
        by (intro stop [of "Inr (Some (S2C_ERROR_MEMORY_ALLOCATION,
              ''ResultTableReader cannot allocate chunk size: '' @ nat_to_string (unat sz)))" c])
           (auto simp: loop_ends_def cut_short_def)
    next
      case (Some ptr)
      let ?chunk = "NewChunk ptr sz (of_nat k) part"
      have f: "fresh ?chunk" using less.prems(2) Some by (simp add: unstopped_def fresh_def NewChunk_def)
      have l64: "length rs < 2 ^ 64" using less.prems(4) by simp
      show ?thesis
      proof (cases rule: NextChunk_stream [OF less.prems(1) f less.prems(3) l64])
        case (2 e d)
        have "loop_ends out sz cs rs alloc 0 (caught e)"
          using 2(2) False by (auto simp: loop_ends_def cut_short_def NewChunk_def)
        with ns hn Some 2(1) unfold show ?thesis by (intro stop [of "caught e" d]) simp_all
      next
        case (1 n ch d)
        have n: "0 < n" "n < 2 ^ 31" using 1(2,3) False less.prems(4) by auto
        have "unat (of_nat n :: u64) = n" using n(2) by (simp add: unat_of_nat64)
        then have "of_nat n \<noteq> (0 :: u64)" using n(1) by auto
        moreover have "row_count ch = of_nat n" using 1(2,4) by (simp add: chunk_holds_def)
        ultimately have rc: "row_count ch \<noteq> 0" by simp
        have lt: "length (drop n rs) < length rs" "Suc k + length (drop n rs) < 2 ^ 31 - 1" "\<not> 2 ^ 31 \<le> Suc k"
          using n(1) 1(2) less.prems(4) False by auto
        obtain chunks m res d' where d: "read_loop my stopped alloc sz part cs (Suc k) (acc @ [ch]) d =
            Some ((acc @ [ch]) @ chunks, res, d')"
          "chunk_sequence cs part (Suc k) (take m (drop n rs)) chunks" "loop_ends out sz cs (drop n rs) alloc m res"
          using less.hyps [OF lt(1) 1(5) less.prems(2) rows_ok_drop [OF less.prems(3)] lt(2), of "acc @ [ch]"]
          by blast
        have "chunk_sequence cs part k (take n rs @ take m (drop n rs)) (ch # chunks)"
          by (rule chunk_sequence_Cons [OF 1(4) _ _ _ d(2)])
             (use n(1) False 1(6,7) in \<open>simp_all add: NewChunk_def\<close>)
        then have "chunk_sequence cs part k (take (n + m) rs) (ch # chunks)" by (simp add: take_add)
        moreover have "read_loop my stopped alloc sz part cs k acc c = Some (acc @ ch # chunks, res, d')"
          using ns hn Some 1(1) rc lt(3) d(1) unfold by simp
        ultimately show ?thesis using loop_ends_drop [OF d(3) 1(2)] by blast
      qed
    qed
  qed
qed

text \<open>With memory, and rows that fit, only the stream can end the loop.\<close>

lemma read_loop_undisturbed:
  assumes "delivers my rs out c" "undisturbed stopped alloc sz" "rows_fit_in sz cs rs" "k + length rs < 2 ^ 31 - 1"
  shows "\<exists>chunks m c'. read_loop my stopped alloc sz part cs k acc c =
      Some (acc @ chunks, (case out of None \<Rightarrow> Inr None | Some e \<Rightarrow> caught e), c') \<and>
    chunk_sequence cs part k (take m rs) chunks \<and> m \<le> length rs \<and> (out = None \<longleftrightarrow> m = length rs)"
proof -
  have "unstopped stopped alloc sz" using assms(2) unfolding undisturbed_def unstopped_def by (metis option.inject)
  moreover have "rows_ok cs rs" using assms(3) by (simp add: rows_fit_in_def)
  ultimately obtain chunks m res c' where "read_loop my stopped alloc sz part cs k acc c = Some (acc @ chunks, res, c')"
    "chunk_sequence cs part k (take m rs) chunks" "loop_ends out sz cs rs alloc m res"
    using read_loop_stream [OF assms(1) _ _ assms(4)] by blast
  moreover have "\<forall>k. alloc k \<noteq> None" using assms(2) unfolding undisturbed_def by (metis option.distinct(1))
  ultimately show ?thesis using assms(3) by (auto simp: loop_ends_def cut_short_def rows_fit_in_def)
qed


section \<open>The key of a chunk\<close>

text \<open>Nothing that fills a chunk changes its number or its partition, whatever the row is.\<close>

definition sc_key :: "SuperChunk \<Rightarrow> u64 \<times> u32" where
  "sc_key s = (chunk_id (sc_chunk s), partition_id (sc_chunk s))"

lemma sc_key_simps [simp]:
  "sc_key (consume n s) = sc_key s" "sc_key (advance n s) = sc_key s"
  "sc_key (IncrVariableOffset n s) = sc_key s" "sc_key (IncrRowCount s) = sc_key s"
  by (simp_all add: sc_key_def consume_def advance_def IncrVariableOffset_def IncrRowCount_def)

lemma store_key: "store off bs s = Inr s' \<Longrightarrow> sc_key s' = sc_key s"
  by (auto simp: store_def sc_key_def split: if_splits)

lemma WriteAt_key: "WriteAt off src len s = Inr s' \<Longrightarrow> sc_key s' = sc_key s"
  by (auto simp: WriteAt_def and_then_Inr_iff dest: store_key split: if_splits option.splits)

lemma Write_key: "Write src len s = Inr s' \<Longrightarrow> sc_key s' = sc_key s"
  by (auto simp: Write_def and_then_Inr_iff dest: WriteAt_key)

lemma Pad_key: "Pad len b x s = Inr s' \<Longrightarrow> sc_key s' = sc_key s"
  by (auto simp: Pad_def and_then_Inr_iff dest: store_key split: if_splits)

lemma typed_key:
  "Write8Typed v s = Inr s' \<Longrightarrow> sc_key s' = sc_key s" "Write4Typed u s = Inr s' \<Longrightarrow> sc_key s' = sc_key s"
  by (auto simp: Write8Typed_def Write4Typed_def and_then_Inr_iff dest: store_key)

lemmas key_dests = WriteAt_key Write_key Pad_key typed_key

lemma on_chunk_key:
  "on_chunk f w = Inr w' \<Longrightarrow> (\<And>s s'. f s = Inr s' \<Longrightarrow> sc_key s' = sc_key s) \<Longrightarrow> sc_key (w_sc w') = sc_key (w_sc w)"
  by (auto simp: on_chunk_def RecordColumn_def and_then_Inr_iff Let_def)

lemmas column_defs = WriteInt64_def WriteInt64Null_def WriteInt32_def WriteInt32Null_def WriteDouble_def
  WriteDoubleNull_def WriteFixed_def WriteFixedNull_def WriteVariableNull_def WriteInt64Numeric_def
  WriteInt32Numeric_def WriteFloatNumeric_def Write8_def Write4_def

lemma WriteVariable_key: "WriteVariable val len w = Inr w' \<Longrightarrow> sc_key (w_sc w') = sc_key (w_sc w)"
  unfolding WriteVariable_def
  by (erule on_chunk_key) (auto simp: Let_def and_then_Inr_iff dest!: key_dests)

lemma field_key:
  "WriteInt64 v w = Inr w' \<Longrightarrow> sc_key (w_sc w') = sc_key (w_sc w)"
  "WriteInt32 v w = Inr w' \<Longrightarrow> sc_key (w_sc w') = sc_key (w_sc w)"
  "WriteDouble v n w = Inr w' \<Longrightarrow> sc_key (w_sc w') = sc_key (w_sc w)"
  "WriteFixed v i j b w = Inr w' \<Longrightarrow> sc_key (w_sc w') = sc_key (w_sc w)"
  "WriteInt64Numeric n w = Inr w' \<Longrightarrow> sc_key (w_sc w') = sc_key (w_sc w)"
  "WriteInt32Numeric k w = Inr w' \<Longrightarrow> sc_key (w_sc w') = sc_key (w_sc w)"
  unfolding column_defs
  by (erule on_chunk_key; force simp: and_then_Inr_iff dest: key_dests)+

lemma null_key:
  "WriteInt64Null w = Inr w' \<Longrightarrow> sc_key (w_sc w') = sc_key (w_sc w)"
  "WriteInt32Null w = Inr w' \<Longrightarrow> sc_key (w_sc w') = sc_key (w_sc w)"
  "WriteDoubleNull w = Inr w' \<Longrightarrow> sc_key (w_sc w') = sc_key (w_sc w)"
  "WriteFixedNull m w = Inr w' \<Longrightarrow> sc_key (w_sc w') = sc_key (w_sc w)"
  "WriteVariableNull w = Inr w' \<Longrightarrow> sc_key (w_sc w') = sc_key (w_sc w)"
  unfolding column_defs WriteVariable_def
  by (erule on_chunk_key; force simp: and_then_Inr_iff Let_def dest: key_dests)+

lemma write_column_key: "write_column c v l w = Inr w' \<Longrightarrow> sc_key (w_sc w') = sc_key (w_sc w)"
  unfolding write_column_def
  by (cases "col_type c"; cases v)
     (auto simp: and_then_Inr_iff dest: field_key null_key WriteVariable_key)

lemma write_columns_key: "write_columns cs vs ls w = (Inr u, w') \<Longrightarrow> sc_key (w_sc w') = sc_key (w_sc w)"
  by (induction cs vs ls arbitrary: w rule: write_columns.induct)
     (auto simp: andThen_Inr_iff updating_Inr_iff run_basic dest!: write_column_key)

lemma WriteRowEnd_key: "WriteRowEnd w = Inr w' \<Longrightarrow> sc_key (w_sc w') = sc_key (w_sc w)"
  unfolding WriteRowEnd_def
  by (cases "w_row_fixed_size w = 0"; cases "w_row_offset w = 0") (auto simp: Let_def)

lemma WriteRow_key: "WriteRow vs ls w = (Inr b, w') \<Longrightarrow> sc_key (w_sc w') = sc_key (w_sc w)"
  unfolding WriteRow_def
  by (auto simp: andThen_Inr_iff run_basic updating_Inr_iff intro: trans [OF WriteRowEnd_key write_columns_key]
      split: if_splits)

lemma fill_key:
  assumes "fill my n w c = Some (Inr (m, w'), c')"
  shows "sc_key (w_sc w') = sc_key (w_sc w)"
proof -
  have "\<forall>m w'. fst r = Inr (m, w') \<longrightarrow> sc_key (w_sc w') = sc_key (w_sc w)"
    if "fill my n w c = Some r" for my :: "'a mysql" and n w c r
    using that
  proof (rule fill.raw_induct [rotated], goal_cases)
    case (1 f my n w c r)
    then show ?case
      by (auto dest!: WriteRow_key split: option.splits sum.splits prod.splits if_splits)
  qed
  from this [OF assms] show ?thesis by simp
qed


lemma NextChunk_key:
  assumes "NextChunk my chunk cs c = Some (Inr ch, c')"
  shows "chunk_id ch = chunk_id chunk" "partition_id ch = partition_id chunk"
proof -
  obtain n w where w: "fill my 0 (Reset chunk cs) c = Some (Inr (n, w), c')" "ch = sc_chunk (w_sc w)\<lparr>row_count := n\<rparr>"
  proof -
    obtain x where "fill my 0 (Reset chunk cs) c = Some (x, c')"
      "(case x of Inl e \<Rightarrow> Inl e | Inr (n, w) \<Rightarrow> Inr (sc_chunk (w_sc w)\<lparr>row_count := n\<rparr>)) = (Inr ch :: fault + Chunk)"
      using assms by (auto simp: NextChunk_def chunk_of_fill_def)
    with that show thesis by (cases x) auto
  qed
  have "sc_key (w_sc w) = sc_key (SuperChunk chunk)" using fill_key [OF w(1)] by (simp add: Reset_def)
  then show "chunk_id ch = chunk_id chunk" "partition_id ch = partition_id chunk"
    by (simp_all add: w(2) sc_key_def SuperChunk_def)
qed

section \<open>What a reader does to its queue\<close>

lemma read_loop_numbered:
  assumes "read_loop my stopped alloc sz part cs k acc c = Some (chunks, x, c')"
    and "numbered part 0 acc" "length acc = k" "k < 2 ^ 31"
  shows "numbered part 0 chunks \<and> (length chunks < 2 ^ 31 \<or> x = Inl UndefinedBehaviour)"
proof -
  have "numbered part 0 acc \<longrightarrow> length acc = k \<longrightarrow> k < 2 ^ 31 \<longrightarrow>
      numbered part 0 (fst r) \<and> (length (fst r) < 2 ^ 31 \<or> fst (snd r) = Inl UndefinedBehaviour)"
    if "read_loop my stopped alloc sz part cs k acc c = Some r"
    for my :: "'a mysql" and stopped alloc sz part cs k acc c r
    using that
  proof (rule read_loop.raw_induct [rotated], goal_cases)
    case (1 f my stopped alloc sz part cs k acc c r)
    have snoc: "numbered part 0 acc \<Longrightarrow> length acc = k \<Longrightarrow>
        NextChunk my (NewChunk ptr sz (word_of_nat k) part) cs c = Some (Inr ch, d) \<Longrightarrow>
        numbered part 0 (acc @ [ch])" for ptr ch d
      using NextChunk_key [of my "NewChunk ptr sz (word_of_nat k) part" cs c ch d]
      by (intro numbered_snoc) (simp_all add: NewChunk_def)
    from 1(2) show ?case
      by (auto split: option.splits sum.splits prod.splits if_splits dest!: 1(1) intro: snoc)
  qed
  from this [OF assms(1)] assms(2-4) show ?thesis by simp
qed


lemma PrepareRead_frame:
  assumes "PrepareRead my prefetch r = (x, r1)"
  shows "rt_partition r1 = rt_partition r" "rt_chunk_size r1 = rt_chunk_size r" "rt_row_schema r1 = rt_row_schema r"
    "rt_is_parallel r1 = rt_is_parallel r"
  using assms
  by (auto simp: PrepareRead_def act_simps on_conn_def split: prod.splits sum.splits fault.splits)

text \<open>C19. Whatever the server sends and however the read ends (all rows read, stopped, an error to
  report), unless the program is aborted: a reader pushes chunks of its own partition numbered
  0, 1, 2, ..., then unregisters as a producer exactly once, as its last operation on the queue,
  and is no longer active.
\<close>

theorem reader_unregisters_once:
  assumes "Read my stopped alloc r = Some (ops, Inr r')"
  shows "\<exists>chunks. ops = map QPush chunks @ [QDelete (sint (rt_partition r))] \<and>
    numbered (rt_partition r) 0 chunks \<and> length chunks < 2 ^ 31 \<and> \<not> rt_active r'"
proof (cases "rt_row_schema r")
  case None
  with assms show ?thesis by (auto simp: Read_def numbered_def)
next
  case (Some schema)
  define p where "p = (if rt_is_parallel r then PrepareRead my True r else (Inr (), r))"
  obtain x r1 where r1: "p = (x, r1)" by (cases p)
  have part: "rt_partition r1 = rt_partition r"
    using r1 by (auto simp: p_def dest: PrepareRead_frame split: if_splits)
  from assms Some r1 obtain u where u: "x = Inr u"
    by (cases x) (auto simp: Read_def simp flip: p_def)
  show ?thesis
  proof (cases "fst (rt_error r1) = 0")
    case False
    with assms Some r1 u part show ?thesis by (auto simp: Read_def numbered_def simp flip: p_def)
  next
    case True
    define l where "l = read_loop my stopped alloc (rt_chunk_size r1) (rt_partition r1) schema 0 [] (rt_conn r1)"
    obtain chunks err c where l: "l = Some (chunks, Inr err, c)"
      "ops = map QPush chunks @ [QDelete (sint (rt_partition r1))]" "\<not> rt_active r'"
      using assms Some r1 u True
      by (auto simp: Read_def simp flip: p_def l_def split: option.splits sum.splits)
    from read_loop_numbered [OF l(1) [unfolded l_def]] l(2,3) part show ?thesis
      by (auto simp: numbered_def)
  qed
qed

lemma Read_by_loop:
  assumes "rt_row_schema r = Some cs" "(if rt_is_parallel r then PrepareRead my True r else (Inr (), r)) = (Inr (), r1)"
    and "fst (rt_error r1) = 0"
    and "read_loop my stopped alloc (rt_chunk_size r) (rt_partition r) cs 0 [] (rt_conn r1) = Some (chunks, Inr err, c)"
  shows "Read my stopped alloc r = Some (map QPush chunks @ [QDelete (sint (rt_partition r))],
    Inr (r1\<lparr>rt_conn := c, rt_error := (case err of None \<Rightarrow> rt_error r1 | Some e \<Rightarrow> e), rt_active := False\<rparr>))"
proof -
  have "rt_partition r1 = rt_partition r" "rt_chunk_size r1 = rt_chunk_size r"
    using assms(2) by (auto dest: PrepareRead_frame split: if_splits)
  with assms show ?thesis by (simp add: Read_def)
qed

lemma Read_pushes:
  assumes "rt_row_schema r = Some cs"
    and "(if rt_is_parallel r then PrepareRead my True r else (Inr (), r)) = (Inr (), r1)"
    and "fst (rt_error r1) = 0" "delivers my rs None (rt_conn r1)"
    and "undisturbed stopped alloc (rt_chunk_size r)" "rows_fit_in (rt_chunk_size r) cs rs"
    and "length rs < 2 ^ 31 - 1"
  shows "\<exists>chunks r'. Read my stopped alloc r =
      Some (map QPush chunks @ [QDelete (sint (rt_partition r))], Inr r') \<and>
    chunk_sequence cs (rt_partition r) 0 rs chunks \<and> fst (rt_error r') = 0"
proof -
  have small: "0 + length rs < 2 ^ 31 - 1" using assms(7) by simp
  obtain chunks c' where l: "read_loop my stopped alloc (rt_chunk_size r) (rt_partition r) cs 0 [] (rt_conn r1) =
      Some (chunks, Inr None, c')" "chunk_sequence cs (rt_partition r) 0 rs chunks"
    using read_loop_undisturbed [OF assms(4,5,6) small, of "rt_partition r" "[]"] by auto
  from Read_by_loop [OF assms(1-3) l(1)] l(2) assms(3) show ?thesis by auto
qed

text \<open>C6. A reader that is not stopped and gets its memory, on a partition whose rows each fit into a
  chunk: it pushes the rows of the partition, all of them and in order, packed into non-empty
  chunks numbered from 0, and reports no error. Every row has values of its columns' types, and a chunk holds its rows in the
  layout of the schema: a reader gets their values, except from a chunk whose first variable-length value is null
  or empty.
\<close>

theorem reader_pushes_partition:
  assumes "rt_row_schema r = Some cs"
    and "(if rt_is_parallel r then PrepareRead my True r else (Inr (), r)) = (Inr (), r1)"
    and "fst (rt_error r1) = 0" "delivers my rs None (rt_conn r1)"
    and "undisturbed stopped alloc (rt_chunk_size r)" "rows_fit_in (rt_chunk_size r) cs rs"
    and "length rs < 2 ^ 31 - 1"
  shows "\<exists>chunks r'. Read my stopped alloc r =
      Some (map QPush chunks @ [QDelete (sint (rt_partition r))], Inr r') \<and>
    chunk_sequence cs (rt_partition r) 0 rs chunks \<and> fst (rt_error r') = 0"
  by (rule Read_pushes [OF assms])

text \<open>When the server fails with an error while the partition is read, the reader records that
  error, and the chunks it has pushed before hold a proper prefix of the rows.
\<close>

theorem reader_reports_failure:
  assumes "rt_row_schema r = Some cs"
    and "(if rt_is_parallel r then PrepareRead my True r else (Inr (), r)) = (Inr (), r1)"
    and "fst (rt_error r1) = 0" "delivers my rs (Some (S2ClientError code msg)) (rt_conn r1)"
    and "undisturbed stopped alloc (rt_chunk_size r)" "rows_fit_in (rt_chunk_size r) cs rs"
    and "length rs < 2 ^ 31 - 1"
  shows "\<exists>chunks r' m. Read my stopped alloc r =
      Some (map QPush chunks @ [QDelete (sint (rt_partition r))], Inr r') \<and>
    chunk_sequence cs (rt_partition r) 0 (take m rs) chunks \<and> m < length rs \<and> rt_error r' = (code, msg)"
proof -
  have small: "0 + length rs < 2 ^ 31 - 1" using assms(7) by simp
  obtain chunks m c' where l: "read_loop my stopped alloc (rt_chunk_size r) (rt_partition r) cs 0 [] (rt_conn r1) =
      Some (chunks, Inr (Some (code, msg)), c')" "chunk_sequence cs (rt_partition r) 0 (take m rs) chunks" "m < length rs"
    using read_loop_undisturbed [OF assms(4,5,6) small, of "rt_partition r" "[]"]
    by (auto simp: caught_def le_less)
  from Read_by_loop [OF assms(1-3) l(1)] l(2,3) show ?thesis by auto
qed


section \<open>Examples\<close>

lemma undisturbed_demo: "undisturbed (\<lambda>k. False) (\<lambda>k. Some (replicate (unat sz) 0)) sz"
  by (simp add: undisturbed_def)

lemma demo_rows_fit_in: "8 \<le> unat sz \<Longrightarrow> rows_fit_in sz demo_schema (map demo_row vs)"
  using demo_rows_ok [of vs]
  by (auto simp: rows_fit_in_def too_large_def demo_schema_def demo_row_def reserve_def)

definition demo_reader :: "int list \<Rightarrow> int list ResultTableReader" where
  "demo_reader vs = new_reader (demo_connection vs) 0 3 16 ''q'' (Some demo_schema)"

lemma demo_PrepareRead:
  "PrepareRead demo_mysql True (demo_reader (v # vs)) = (Inr (), demo_reader (v # vs)\<lparr>rt_conn := demo_at (v # vs)\<rparr>)"
  using demo_Prepare [of "''q''" v vs]
  by (simp add: PrepareRead_def act_simps on_conn_def demo_reader_def new_reader_def)

theorem reader_pushes_partition_witness:
  "\<exists>chunks r'. Read demo_mysql (\<lambda>k. False) (\<lambda>k. Some (replicate (unat (16 :: u64)) 0)) (demo_reader [5, 7, 9]) =
      Some (map QPush chunks @ [QDelete 3], Inr r') \<and>
    chunk_sequence demo_schema 3 0 [demo_row 5, demo_row 7, demo_row 9] chunks"
proof -
  have "\<exists>chunks r'. Read demo_mysql (\<lambda>k. False) (\<lambda>k. Some (replicate (unat (16 :: u64)) 0)) (demo_reader [5, 7, 9]) =
      Some (map QPush chunks @ [QDelete (sint (rt_partition (demo_reader [5, 7, 9])))], Inr r') \<and>
    chunk_sequence demo_schema (rt_partition (demo_reader [5, 7, 9])) 0 (map demo_row [5, 7, 9]) chunks \<and>
    fst (rt_error r') = 0"
    by (rule reader_pushes_partition [where ?r1.0 = "demo_reader [5, 7, 9]\<lparr>rt_conn := demo_at [5, 7, 9]\<rparr>"])
       (use undisturbed_demo [of 16] demo_rows_fit_in [of 16 "[5, 7, 9]"] demo_delivers [of "[5, 7, 9]"]
          in \<open>simp_all add: demo_PrepareRead, simp_all add: demo_reader_def new_reader_def\<close>)
  then show ?thesis by (auto simp: demo_reader_def new_reader_def)
qed

definition lost_mysql :: "int list mysql" where
  "lost_mysql = demo_mysql\<lparr>mysql_stmt_fetch := \<lambda>m. ((1, []), m), mysql_stmt_errno := \<lambda>m. 2013,
     mysql_stmt_error := \<lambda>m. ''lost''\<rparr>"

lemma lost_delivers: "delivers lost_mysql [demo_row 5] (Some (S2ClientError 2013 ''lost'')) (demo_at [5])"
proof -
  have "fst (Advance lost_mysql (demo_at [5])) = Inl (S2ClientError 2013 ''lost'')"
    by (simp add: Advance_def AdvanceBinary_def FreeLastFetched_def demo_at_def lost_mysql_def
       demo_connection_def new_S2Connection_def act_simps set_row_def call_def demo_field_def bind_of_def
       MYSQL_NO_DATA_def MYSQL_DATA_TRUNCATED_def stmt_error_def)
  then obtain c' where "Advance lost_mysql (demo_at [5]) = (Inl (S2ClientError 2013 ''lost''), c')"
    by (cases "Advance lost_mysql (demo_at [5])") auto
  from delivers.last_row [of "demo_at [5]" "fst (demo_row 5)" "snd (demo_row 5)" lost_mysql, OF _ _ this] show ?thesis
    by (simp add: demo_at_def)
qed

definition lost_reader :: "int list ResultTableReader" where
  "lost_reader = demo_reader []\<lparr>rt_conn := demo_at [5], rt_is_parallel := False\<rparr>"

theorem reader_reports_failure_witness:
  "\<exists>chunks r'. Read lost_mysql (\<lambda>k. False) (\<lambda>k. Some (replicate (unat (16 :: u64)) 0)) lost_reader =
      Some (map QPush chunks @ [QDelete 3], Inr r') \<and> rt_error r' = (2013, ''lost'')"
proof -
  have "\<exists>chunks r' m. Read lost_mysql (\<lambda>k. False) (\<lambda>k. Some (replicate (unat (16 :: u64)) 0)) lost_reader =
      Some (map QPush chunks @ [QDelete (sint (rt_partition lost_reader))], Inr r') \<and>
    chunk_sequence demo_schema (rt_partition lost_reader) 0 (take m [demo_row 5]) chunks \<and> m < length [demo_row 5] \<and>
    rt_error r' = (2013, ''lost'')"
    by (rule reader_reports_failure [where ?r1.0 = lost_reader])
       (use undisturbed_demo [of 16] demo_rows_fit_in [of 16 "[5]"] lost_delivers
          in \<open>simp_all add: lost_reader_def demo_reader_def new_reader_def\<close>)
  then show ?thesis by (auto simp: lost_reader_def demo_reader_def new_reader_def)
qed

theorem reader_unregisters_once_witness:
  "\<exists>ops r' chunks. Read demo_mysql (\<lambda>k. False) (\<lambda>k. None) (demo_reader [5]) = Some (ops, Inr r') \<and>
    ops = map QPush chunks @ [QDelete 3] \<and> numbered 3 0 chunks"
proof -
  have r: "\<exists>r'. Read demo_mysql (\<lambda>k. False) (\<lambda>k. None) (demo_reader [5]) = Some ([QDelete 3], Inr r')"
    using demo_PrepareRead [of 5 "[]"]
    by (simp add: Read_def read_loop.simps HasNextRow_def demo_reader_def new_reader_def demo_at_def)
  then obtain r' where r': "Read demo_mysql (\<lambda>k. False) (\<lambda>k. None) (demo_reader [5]) = Some ([QDelete 3], Inr r')"
    by blast
  from reader_unregisters_once [OF this] obtain chunks where
    "[QDelete 3] = map QPush chunks @ [QDelete 3 :: Chunk qop]" "numbered 3 0 chunks"
    by (auto simp: demo_reader_def new_reader_def)
  with r' show ?thesis by blast
qed

end
