(* ===== verification/ReadType.thy ===== *)
theory ReadType
  imports RowStream "HOL-Library.Sublist"
begin

text \<open>
  How a read is planned (\<^verbatim>\<open>s2_connection.cpp\<close>): the keys of a table, the operations of a query
  plan, the schema an \<^verbatim>\<open>EXPLAIN\<close> promises, and the decision \<^verbatim>\<open>GetParallelReadType\<close> makes from them.
\<close>

section \<open>Keys of a table\<close>

record TableKeys =
  shard_key :: "string set"
  sort_key :: "string list"

text \<open>\<^verbatim>\<open>!strncmp(a, b, n)\<close>: the first \<open>n\<close> characters agree, up to the end of the strings.\<close>

definition strncmp_eq :: "string \<Rightarrow> string \<Rightarrow> nat \<Rightarrow> bool" where
  "strncmp_eq a b n \<longleftrightarrow> take n (cstr a @ [CHR 0x00]) = take n (cstr b @ [CHR 0x00])"

text \<open>\<^verbatim>\<open>std::string(row[k], lengths[k])\<close>: the length of NULL is 0.\<close>

definition string_at :: "text_row \<Rightarrow> nat \<Rightarrow> fault + string" where
  "string_at row k =
     and_then (row_at row k) (\<lambda>v. Inr (case v of None \<Rightarrow> '''' | Some s \<Rightarrow> s))"

definition add_key :: "text_row \<Rightarrow> TableKeys \<Rightarrow> fault + TableKeys" where
  "add_key row keys =
     and_then (row_at row 2) (\<lambda>v.
     case v of
       None \<Rightarrow> Inl UndefinedBehaviour
     | Some index_type \<Rightarrow>
         and_then (string_at row 1) (\<lambda>col.
         if strncmp_eq index_type ''CLUSTERED COLUMNSTORE'' (length index_type)
         then Inr (keys\<lparr>sort_key := sort_key keys @ [col]\<rparr>)
         else Inr (keys\<lparr>shard_key := insert col (shard_key keys)\<rparr>)))"

fun add_keys :: "text_row list \<Rightarrow> TableKeys \<Rightarrow> fault + TableKeys" where
  "add_keys [] keys = Inr keys"
| "add_keys (row # rows) keys = and_then (add_key row keys) (add_keys rows)"

definition GetTableKeys :: "'m mysql \<Rightarrow> string \<Rightarrow> ('m S2Connection, TableKeys) act" where
  "GetTableKeys my sourceTable =
     andThen (look (\<lambda>c. MakeGetTableKeysQuery (c_db c) sourceTable)) (\<lambda>q.
     andThen (query my q) (\<lambda>_.
     andThen (store_result my (throw (S2ClientError S2C_ERROR_UNKNOWN_FAILURE
        (''GetTableKeys failed to get the result of the query: '' @ q)))) (\<lambda>rows.
     lift (add_keys rows \<lparr>shard_key = {}, sort_key = []\<rparr>))))"

section \<open>Query plans\<close>

definition scan_operations :: "string list" where
  "scan_operations = [''ColumnStoreScan'', ''OrderedColumnStoreScan'', ''ColumnStoreFilter'']"

definition operation_of :: "string \<Rightarrow> string" where
  "operation_of explainRow = takeWhile (\<lambda>c. c \<noteq> CHR '' '') explainRow"

definition starts_result_table :: "text_row \<Rightarrow> fault + bool" where
  "starts_result_table row =
     and_then (row_at row 0) (\<lambda>v.
     case v of None \<Rightarrow> Inl UndefinedBehaviour | Some s \<Rightarrow> Inr (strncmp_eq s ''ResultTable'' 11))"

fun check_rows :: "bool \<Rightarrow> text_row list \<Rightarrow> fault + bool" where
  "check_rows checkOperation [] = Inr True"
| "check_rows checkOperation (row # rows) =
     and_then (string_at row 0) (\<lambda>explainRow.
     if checkOperation \<and> operation_of explainRow \<notin> set scan_operations then Inr False
     else and_then (starts_result_table row) (\<lambda>b. check_rows (checkOperation \<or> b) rows))"

definition CheckExplainOperations :: "'m mysql \<Rightarrow> string \<Rightarrow> ('m S2Connection, bool) act" where
  "CheckExplainOperations my selectQuery =
     (let q = MakeExplainCreateResultTableQuery selectQuery '''' in
      andThen (query my q) (\<lambda>_.
      andThen (store_result my (throw (S2ClientError S2C_ERROR_UNKNOWN_FAILURE
        (''CheckExplainOperations failed to get the result of query: '' @ q)))) (\<lambda>rows.
      lift (check_rows False rows))))"

text \<open>
  \<^verbatim>\<open>ExplainRowSchema\<close>: the first row that starts with \<open>ResultTable\<close>, or the text of all rows when there
  is none; \<open>None\<close> when parsing it does not return.
\<close>

fun find_result_table :: "string \<Rightarrow> text_row list \<Rightarrow> fault + (string + string)" where
  "find_result_table explainResultFull [] = Inr (Inl explainResultFull)"
| "find_result_table explainResultFull (row # rows) =
     and_then (string_at row 0) (\<lambda>s.
     and_then (starts_result_table row) (\<lambda>b.
     if b then Inr (Inr s)
     else find_result_table (explainResultFull @ s @ [CHR 0x0A, CHR 0x09]) rows))"

definition failed :: "string \<Rightarrow> fault + 'a" where
  "failed msg = Inl (S2ClientError S2C_ERROR_UNKNOWN_FAILURE msg)"

definition ExplainRowSchema ::
  "'m mysql \<Rightarrow> string \<Rightarrow> 'm S2Connection \<Rightarrow> ((fault + RowSchema) \<times> 'm S2Connection) option" where
  "ExplainRowSchema my selectQuery c =
     (let q = MakeExplainCreateResultTableQuery selectQuery ''EXTENDED''
      in case andThen (query my q) (\<lambda>_.
              andThen (store_result my (lift (failed (''ExplainRowSchema failed to get the result of query: '' @ q))))
                (\<lambda>rows. lift (find_result_table '''' rows))) c of
           (Inl e, c') \<Rightarrow> Some (Inl e, c')
         | (Inr (Inl full), c') \<Rightarrow>
             Some (failed (''Invalid EXPLAIN result from query: '' @ q @ [CHR 0x0A] @ ''Result is:'' @
               [CHR 0x0A, CHR 0x09] @ full), c')
         | (Inr (Inr explainResult), c') \<Rightarrow>
             map_option (\<lambda>r. (and_then r (\<lambda>schema.
                 if schema = [] then failed (''Unable to parse EXPLAIN result to get row schema: '' @ explainResult)
                 else Inr schema), c'))
               (ExplainToRowSchema (uninitialised my) explainResult))"

section \<open>The decision\<close>

text \<open>The loops over the shard key and the sort key.\<close>

definition shard_key_ok :: "string list \<Rightarrow> TableKeys \<Rightarrow> bool" where
  "shard_key_ok partitionByCols keys \<longleftrightarrow>
     (if partitionByCols \<noteq> [] then
        if shard_key keys = {} then False
        else let partitionByColSet = fold insert partitionByCols {} in
          \<not> (\<exists>col \<in> shard_key keys. col \<notin> partitionByColSet)
      else True)"

fun sort_key_loop :: "string list \<Rightarrow> string list \<Rightarrow> bool" where
  "sort_key_loop [] srt = True"
| "sort_key_loop (col # cols) (s # srt) \<longleftrightarrow> (if s \<noteq> col then False else sort_key_loop cols srt)"
| "sort_key_loop (col # cols) [] = False"

definition sort_key_ok :: "string list \<Rightarrow> TableKeys \<Rightarrow> bool" where
  "sort_key_ok partitionOrderByCols keys \<longleftrightarrow>
     (if length (sort_key keys) < length partitionOrderByCols then False
      else sort_key_loop partitionOrderByCols (sort_key keys))"

definition GetParallelReadType ::
  "'m mysql \<Rightarrow> string \<Rightarrow> string option \<Rightarrow> bool \<Rightarrow> string list \<Rightarrow> string list \<Rightarrow> ParallelReadType \<Rightarrow>
   ('m S2Connection, ParallelReadType) act" where
  "GetParallelReadType my selectQuery sourceTable materialized partitionByCols partitionOrderByCols readType =
     (if readType \<noteq> ReadTypeUnknown then give readType else
      let new_table = (if materialized then ReadTypeColumnStoreTable else ReadTypeResultTable) in
      case sourceTable of
        None \<Rightarrow> give new_table
      | Some table \<Rightarrow>
          andThen (GetTableKeys my table) (\<lambda>keys.
          let isColumnstoreScanOk = shard_key_ok partitionByCols keys \<and> sort_key_ok partitionOrderByCols keys in
          andThen (CheckExplainOperations my selectQuery) (\<lambda>isSelectSimple.
          if isColumnstoreScanOk \<and> isSelectSimple then give ReadTypeOriginalTable
          else give new_table)))"

section \<open>The contract\<close>

lemma sort_key_ok_prefix: "sort_key_ok cols keys \<longleftrightarrow> prefix cols (sort_key keys)"
proof -
  have "sort_key_loop cols srt \<longleftrightarrow> prefix cols srt" for srt
    by (induction cols srt rule: sort_key_loop.induct) auto
  then show ?thesis by (auto simp: sort_key_ok_def dest: prefix_length_le)
qed

lemma shard_key_ok_iff:
  "shard_key_ok cols keys \<longleftrightarrow> cols = [] \<or> shard_key keys \<noteq> {} \<and> shard_key keys \<subseteq> set cols"
proof -
  have "fold insert xs s = s \<union> set xs" for xs :: "string list" and s
    by (induction xs arbitrary: s) auto
  then show ?thesis by (auto simp: shard_key_ok_def)
qed

text \<open>The columns of a server's answer: table, column and index type. A type makes a column part of the sort key if it
  is a prefix of \<open>CLUSTERED COLUMNSTORE\<close>, as the length given to \<^verbatim>\<open>strncmp\<close> is that of the type.\<close>

type_synonym key_row = "string \<times> string \<times> string"

abbreviation key_rows :: "key_row list \<Rightarrow> text_row list" where
  "key_rows ks \<equiv> map (\<lambda>(t, col, ty). [Some t, Some col, Some ty]) ks"

definition sort_columns :: "key_row list \<Rightarrow> string list" where
  "sort_columns ks = map (\<lambda>(t, col, ty). col) (filter (\<lambda>(t, col, ty). prefix ty ''CLUSTERED COLUMNSTORE'') ks)"

definition shard_columns :: "key_row list \<Rightarrow> string set" where
  "shard_columns ks = {col. \<exists>t ty. (t, col, ty) \<in> set ks \<and> \<not> prefix ty ''CLUSTERED COLUMNSTORE''}"

lemma prefix_take: "prefix p xs \<longleftrightarrow> take (length p) xs = p"
  by (metis append_eq_conv_conj prefix_def take_is_prefix)

lemma strncmp_eq_prefix:
  assumes "CHR 0x00 \<notin> set b"
  shows "strncmp_eq a b (length b) \<longleftrightarrow> prefix b a"
proof -
  have "cstr b = b" using assms unfolding cstr_def by (intro takeWhile_eq_all_conv [THEN iffD2]) auto
  then have "strncmp_eq a b (length b) \<longleftrightarrow> prefix b (cstr a @ [CHR 0x00])"
    unfolding strncmp_eq_def prefix_take by simp
  also have "\<dots> \<longleftrightarrow> prefix b (cstr a)" using assms by (auto simp: prefix_snoc)
  also have "\<dots> \<longleftrightarrow> prefix b a"
  proof
    assume "prefix b (cstr a)"
    moreover have "prefix (cstr a) a" unfolding cstr_def by (rule takeWhile_is_prefix)
    ultimately show "prefix b a" by (rule prefix_order.trans)
  next
    assume "prefix b a"
    then obtain zs where "a = b @ zs" by (auto simp: prefix_def)
    then have "cstr a = b @ cstr zs" using assms unfolding cstr_def by (auto intro!: takeWhile_append2)
    then show "prefix b (cstr a)" by simp
  qed
  finally show ?thesis .
qed

lemma strncmp_eq_type:
  "CHR 0x00 \<notin> set ty \<Longrightarrow> strncmp_eq ty b (length ty) \<longleftrightarrow> prefix ty b"
  using strncmp_eq_prefix [of ty b] by (auto simp: strncmp_eq_def)

lemma add_keys_rows:
  assumes "\<forall>(t, col, ty) \<in> set ks. CHR 0x00 \<notin> set ty"
  shows "add_keys (key_rows ks) keys =
    Inr (keys\<lparr>shard_key := shard_key keys \<union> shard_columns ks, sort_key := sort_key keys @ sort_columns ks\<rparr>)"
  using assms
proof (induction ks arbitrary: keys)
  case Nil
  then show ?case by (simp add: shard_columns_def sort_columns_def)
next
  case (Cons k ks)
  obtain t col ty where k: "k = (t, col, ty)" by (cases k)
  have "shard_columns (k # ks) = (if prefix ty ''CLUSTERED COLUMNSTORE'' then {} else {col}) \<union> shard_columns ks"
    "sort_columns (k # ks) = (if prefix ty ''CLUSTERED COLUMNSTORE'' then [col] else []) @ sort_columns ks"
    by (auto simp: shard_columns_def sort_columns_def k)
  with Cons k strncmp_eq_type [of ty] show ?case
    by (auto simp: add_key_def row_at_def string_at_def)
qed

text \<open>The rows of a plan, as the code reads them: the operations below the first row of a result table.\<close>

definition plan_of :: "string list \<Rightarrow> string list" where
  "plan_of rows = map operation_of (tl (dropWhile (\<lambda>r. \<not> prefix ''ResultTable'' r) rows))"

lemma strncmp_eq_result_table: "strncmp_eq r ''ResultTable'' 11 \<longleftrightarrow> prefix ''ResultTable'' r"
  using strncmp_eq_prefix [of "''ResultTable''" r] by (simp add: eval_nat_numeral)

lemma check_rows_on:
  "check_rows True (map (\<lambda>s. [Some s]) rows) = Inr (set (map operation_of rows) \<subseteq> set scan_operations)"
  by (induction rows) (auto simp: string_at_def row_at_def starts_result_table_def)

lemma check_rows_plan:
  "check_rows False (map (\<lambda>s. [Some s]) rows) = Inr (set (plan_of rows) \<subseteq> set scan_operations)"
proof (induction rows)
  case (Cons r rows)
  then show ?case
    using check_rows_on [of rows]
    by (simp add: plan_of_def string_at_def row_at_def starts_result_table_def strncmp_eq_result_table)
qed (simp add: plan_of_def)

lemma GetTableKeys_rows:
  assumes "mysql_query my (cstr (MakeGetTableKeysQuery (c_db c) table)) (c_conn c) = (False, m1)"
    and "mysql_store_result my m1 = (Some (key_rows ks), m2)" "\<forall>(t, col, ty) \<in> set ks. CHR 0x00 \<notin> set ty"
  shows "GetTableKeys my table c =
    (Inr \<lparr>shard_key = shard_columns ks, sort_key = sort_columns ks\<rparr>, c\<lparr>c_conn := m2\<rparr>)"
  using assms(1,2) add_keys_rows [OF assms(3)]
  by (simp add: GetTableKeys_def query_def store_result_def act_simps call_def)

lemma CheckExplainOperations_rows:
  assumes "mysql_query my (cstr (MakeExplainCreateResultTableQuery q '''')) (c_conn c) = (False, m1)"
    and "mysql_store_result my m1 = (Some (map (\<lambda>s. [Some s]) rows), m2)"
  shows "CheckExplainOperations my q c =
    (Inr (set (plan_of rows) \<subseteq> {''ColumnStoreScan'', ''OrderedColumnStoreScan'', ''ColumnStoreFilter''}),
     c\<lparr>c_conn := m2\<rparr>)"
  using assms check_rows_plan [of rows]
  by (simp add: CheckExplainOperations_def query_def store_result_def act_simps call_def Let_def scan_operations_def)

text \<open>C20. A read type the caller gives is used as it is, without asking the server. Otherwise, without a source
  table a new table is made (a column store table when it is to be materialised, a result table if not). With one,
  and a server that answers the query for the keys by rows of table, column and index type and the \<^verbatim>\<open>EXPLAIN\<close> by
  the lines of a plan, the original table is read exactly when every partition of the result lies in one shard (no
  columns are partitioned by, or the columns with an index of another type, the shard key, are some and all among
  them), the table is sorted as asked (the columns ordered by are a prefix of the sort key), and every operation below
  the first line of the plan that starts with \<open>ResultTable\<close> is a column store scan, an ordered one or a filter;
  otherwise a new table is made.\<close>

theorem read_type_decision:
  assumes "mysql_query my (cstr (MakeGetTableKeysQuery (c_db c) table)) (c_conn c) = (False, m1)"
    and "mysql_store_result my m1 = (Some (key_rows ks), m2)" "\<forall>(t, col, ty) \<in> set ks. CHR 0x00 \<notin> set ty"
    and "mysql_query my (cstr (MakeExplainCreateResultTableQuery q '''')) m2 = (False, m3)"
    and "mysql_store_result my m3 = (Some (map (\<lambda>s. [Some s]) plan), m4)"
  shows "GetParallelReadType my q (Some table) mat by_cols order_cols ReadTypeUnknown c =
      (Inr (if (by_cols = [] \<or> shard_columns ks \<noteq> {} \<and> shard_columns ks \<subseteq> set by_cols) \<and>
             prefix order_cols (sort_columns ks) \<and>
             set (plan_of plan) \<subseteq> {''ColumnStoreScan'', ''OrderedColumnStoreScan'', ''ColumnStoreFilter''}
           then ReadTypeOriginalTable
           else if mat then ReadTypeColumnStoreTable else ReadTypeResultTable), c\<lparr>c_conn := m4\<rparr>) \<and>
    GetParallelReadType my q None mat by_cols order_cols ReadTypeUnknown c =
      (Inr (if mat then ReadTypeColumnStoreTable else ReadTypeResultTable), c) \<and>
    GetParallelReadType my q source mat by_cols order_cols ReadTypeOriginalTable c = (Inr ReadTypeOriginalTable, c) \<and>
    GetParallelReadType my q source mat by_cols order_cols ReadTypeResultTable c = (Inr ReadTypeResultTable, c) \<and>
    GetParallelReadType my q source mat by_cols order_cols ReadTypeColumnStoreTable c = (Inr ReadTypeColumnStoreTable, c)"
proof -
  have "CheckExplainOperations my q (c\<lparr>c_conn := m2\<rparr>) =
      (Inr (set (plan_of plan) \<subseteq> {''ColumnStoreScan'', ''OrderedColumnStoreScan'', ''ColumnStoreFilter''}),
       c\<lparr>c_conn := m2\<rparr>\<lparr>c_conn := m4\<rparr>)"
    by (rule CheckExplainOperations_rows [of _ _ _ m3]) (use assms(4,5) in simp_all)
  with GetTableKeys_rows [OF assms(1-3)] show ?thesis
    by (simp add: GetParallelReadType_def Let_def act_simps sort_key_ok_prefix shard_key_ok_iff)
qed

text \<open>A server that answers one stored result after another, for the examples.\<close>

definition catalog_mysql :: "text_row list list mysql" where
  "catalog_mysql =
     \<lparr>mysql_query = (\<lambda>q m. (False, m)), mysql_errno = (\<lambda>m. 0), mysql_error = (\<lambda>m. ''''),
      mysql_affected_rows = (\<lambda>m. 3),
      mysql_store_result = (\<lambda>m. case m of [] \<Rightarrow> (None, []) | r # rs \<Rightarrow> (Some r, rs)),
      mysql_use_result = (\<lambda>m. (False, m)), mysql_num_fields = (\<lambda>m. 0),
      mysql_fetch_fields = (\<lambda>m. None), mysql_fetch_row = (\<lambda>m. (None, m)),
      mysql_stmt_init = (\<lambda>m. (True, m)), mysql_stmt_prepare = (\<lambda>q m. (True, m)),
      mysql_stmt_execute = (\<lambda>m. (True, m)), mysql_stmt_errno = (\<lambda>m. 0), mysql_stmt_error = (\<lambda>m. ''''),
      mysql_stmt_field_count = (\<lambda>m. 0), mysql_stmt_result_metadata = (\<lambda>m. None),
      mysql_stmt_bind_result = (\<lambda>bs m. (True, m)), mysql_stmt_fetch = (\<lambda>m. ((100, []), m)),
      mysql_stmt_fetch_column = (\<lambda>i n m. (None, m)), mysql_stmt_close = (\<lambda>b m. m),
      mysql_set_ssl = (\<lambda>ca m. m), mysql_real_connect = (\<lambda>h u p d port m. (True, m)),
      mysql_get_local_infile = (\<lambda>m. None), mysql_infile_buffer = (\<lambda>k m. 1),
      mysql_query_infile = (\<lambda>q bs m. (True, m)), mysql_close = (\<lambda>m. m),
      sizeof_MYSQL_TIME = 40, uninitialised = 0, scan_lf = (\<lambda>s. None),
      new_fails = (\<lambda>m. False)\<rparr>"

lemma catalog_api [simp]:
  "mysql_query catalog_mysql q m = (False, m)" "mysql_store_result catalog_mysql (r # rs) = (Some r, rs)"
  "mysql_real_connect catalog_mysql h u p d port m = (True, m)" "mysql_stmt_init catalog_mysql m = (True, m)"
  "mysql_set_ssl catalog_mysql ca m = m" "mysql_affected_rows catalog_mysql m = 3"
  by (simp_all add: catalog_mysql_def)

definition catalog_connection :: "text_row list list \<Rightarrow> text_row list list S2Connection" where
  "catalog_connection m = new_S2Connection ''h'' 3306 ''d'' (Some ''u'') ''p'' None m"

definition example_keys :: "key_row list" where
  "example_keys = [(''t'', ''a'', ''CLUSTERED COLUMNSTORE''), (''t'', ''b'', ''SHARD'')]"

definition example_plan :: "string list" where
  "example_plan = [''WARNING: no histograms'', ''ResultTable tmp'', ''ColumnStoreScan t'']"

lemma example_plan_scans: "set (plan_of example_plan) \<subseteq> {''ColumnStoreScan'', ''OrderedColumnStoreScan'', ''ColumnStoreFilter''}"
  by (simp add: plan_of_def example_plan_def operation_of_def)

theorem read_type_decision_witness:
  "GetParallelReadType catalog_mysql ''q'' (Some ''t'') True [''b''] [''a''] ReadTypeUnknown
      (catalog_connection [key_rows example_keys, map (\<lambda>s. [Some s]) example_plan]) =
     (Inr ReadTypeOriginalTable, catalog_connection []) \<and>
   GetParallelReadType catalog_mysql ''q'' (Some ''t'') True [''c''] [''a''] ReadTypeUnknown
      (catalog_connection [key_rows example_keys, map (\<lambda>s. [Some s]) example_plan]) =
     (Inr ReadTypeColumnStoreTable, catalog_connection [])"
proof -
  let ?plan = "map (\<lambda>s. [Some s]) example_plan"
  let ?c = "catalog_connection [key_rows example_keys, ?plan]"
  have keys: "shard_columns example_keys = {''b''}" "sort_columns example_keys = [''a'']"
    by (auto simp: shard_columns_def sort_columns_def example_keys_def)
  have asked: "mysql_query catalog_mysql (cstr (MakeGetTableKeysQuery (c_db ?c) ''t'')) (c_conn ?c) =
      (False, [key_rows example_keys, ?plan])" "\<forall>(t, col, ty) \<in> set example_keys. CHR 0x00 \<notin> set ty"
    by (simp_all add: catalog_connection_def new_S2Connection_def) (simp add: example_keys_def)
  have "?c\<lparr>c_conn := []\<rparr> = catalog_connection []"
    by (simp add: catalog_connection_def new_S2Connection_def)
  with read_type_decision [OF asked(1) _ asked(2), of "[?plan]" "''q''" "[?plan]" example_plan "[]" True]
    example_plan_scans keys
  show ?thesis by simp
qed

text \<open>\<^verbatim>\<open>CheckExplainOperations\<close> accepts a plan exactly when every operation below the result table
  is a column store scan, an ordered scan or a filter, whatever warnings precede the plan.\<close>

theorem explain_operations_checked:
  assumes "mysql_query my (cstr (MakeExplainCreateResultTableQuery q '''')) (c_conn c) = (False, m1)"
    and "mysql_store_result my m1 = (Some (map (\<lambda>s. [Some s]) rows), m2)"
  shows "CheckExplainOperations my q c =
    (Inr (set (plan_of rows) \<subseteq> {''ColumnStoreScan'', ''OrderedColumnStoreScan'', ''ColumnStoreFilter''}),
     c\<lparr>c_conn := m2\<rparr>)"
  by (rule CheckExplainOperations_rows [OF assms])

theorem explain_operations_checked_witness:
  "CheckExplainOperations catalog_mysql ''q'' (catalog_connection [map (\<lambda>s. [Some s]) example_plan]) =
    (Inr True, catalog_connection [])"
  using example_plan_scans explain_operations_checked [of catalog_mysql "''q''"
      "catalog_connection [map (\<lambda>s. [Some s]) example_plan]" "[map (\<lambda>s. [Some s]) example_plan]" example_plan "[]"]
  by (simp add: catalog_connection_def new_S2Connection_def)

text \<open>The length given to \<^verbatim>\<open>strncmp\<close> is that of the value, not of the literal, so every index type
  that is a prefix of \<open>CLUSTERED COLUMNSTORE\<close>, the empty one included, makes a column part of the
  sort key.\<close>

theorem prefix_index_type_sorts:
  "add_key [Some t, Some col, Some (take n ''CLUSTERED COLUMNSTORE'')] keys =
    Inr (keys\<lparr>sort_key := sort_key keys @ [col]\<rparr>)"
proof -
  have "cstr (take n ''CLUSTERED COLUMNSTORE'') = take n ''CLUSTERED COLUMNSTORE''"
    unfolding cstr_def by (rule takeWhile_eq_all_conv [THEN iffD2]) (auto dest!: in_set_takeD)
  moreover have "cstr ''CLUSTERED COLUMNSTORE'' = ''CLUSTERED COLUMNSTORE''" by (simp add: cstr_def)
  ultimately have "strncmp_eq (take n ''CLUSTERED COLUMNSTORE'') ''CLUSTERED COLUMNSTORE''
      (length (take n ''CLUSTERED COLUMNSTORE''))"
    unfolding strncmp_eq_def by (simp add: take_Cons' )
  then show ?thesis by (simp add: add_key_def row_at_def string_at_def)
qed

end
