(* ===== verification/Client.thy ===== *)
theory Client
  imports TableReader LoadData ReadType
begin

text \<open>
  The client object of a SAS worker and its C interface (\<^verbatim>\<open>s2_client.cpp\<close>). An operation takes the
  client as its state; the calls of the error callback are logged in the order they are made. A
  callback argument is \<open>True\<close> when the pointer is not null.
\<close>

section \<open>The object\<close>

record 'm S2Client =
  cl_numPartitions :: u32
  cl_serverVersion :: string
  cl_workerId :: u32
  cl_numWorkers :: u32
  cl_conn :: "'m S2Connection"
  cl_chunk_reader :: Reader
  cl_error :: "nat \<times> string"
  cl_reports :: "callback list"

text \<open>An action of the connection, run on the client.\<close>

definition with_conn :: "('m S2Connection, 'a) act \<Rightarrow> ('m S2Client, 'a) act" where
  "with_conn m cl = (case m (cl_conn cl) of (x, c) \<Rightarrow> (x, cl\<lparr>cl_conn := c\<rparr>))"

text \<open>\<^verbatim>\<open>cb->setError(cb, ...)\<close>, which dereferences the pointer, and \<^verbatim>\<open>SetError\<close>, which checks it.\<close>

definition report :: "bool \<Rightarrow> callback \<Rightarrow> ('m S2Client, unit) act" where
  "report cb r =
     (if cb then modify (\<lambda>cl. cl\<lparr>cl_reports := cl_reports cl @ [r]\<rparr>) else throw UndefinedBehaviour)"

definition SetError :: "nat \<Rightarrow> string \<Rightarrow> bool \<Rightarrow> ('m S2Client, unit) act" where
  "SetError code msg cb =
     andThen (if cb then report cb (code, cstr msg, S2C_SEVERITY_ERROR) else give ()) (\<lambda>_.
     modify (\<lambda>cl. cl\<lparr>cl_error := (code, msg)\<rparr>))"

text \<open>\<^verbatim>\<open>try { ... } catch (S2ClientError &s2_err) { client->SetError(s2_err, cb); ... }\<close>\<close>

definition or_set_error :: "bool \<Rightarrow> ('m S2Client, 'a) act \<Rightarrow> ('m S2Client, 'a) act \<Rightarrow> ('m S2Client, 'a) act" where
  "or_set_error cb m otherwise =
     handle m (\<lambda>code msg. andThen (SetError code msg cb) (\<lambda>_. otherwise))"

text \<open>\<^verbatim>\<open>try { ... } catch (S2ClientError& s2_err) { cb->setError(...); ... }\<close>\<close>

definition or_report :: "bool \<Rightarrow> ('m S2Client, 'a) act \<Rightarrow> ('m S2Client, 'a) act \<Rightarrow> ('m S2Client, 'a) act" where
  "or_report cb m otherwise =
     handle m (\<lambda>code msg. andThen (report cb (code, cstr msg, S2C_SEVERITY_ERROR)) (\<lambda>_. otherwise))"

section \<open>Connecting\<close>

definition client_Connect ::
  "'m mysql \<Rightarrow> 'm option \<Rightarrow> u32 \<Rightarrow> u32 \<Rightarrow> string \<Rightarrow> u32 \<Rightarrow> string \<Rightarrow> string option \<Rightarrow> string \<Rightarrow> string option \<Rightarrow>
   Reader \<Rightarrow> fault + 'm S2Client" where
  "client_Connect my h workerId numWorkers host port db user password ssl_ca reader =
     and_then (Connect my h host port db user password ssl_ca) (\<lambda>c.
     fst (andThen (if strcasecmp db ''information_schema'' then GetPartitionsNumber my else give 1) (\<lambda>n.
          andThen (GetServerVersion my) (\<lambda>v.
          look (\<lambda>c. \<lparr>cl_numPartitions = word_of_int n, cl_serverVersion = v, cl_workerId = workerId,
            cl_numWorkers = numWorkers, cl_conn = c, cl_chunk_reader = reader, cl_error = (0, ''''),
            cl_reports = []\<rparr>))) c))"

text \<open>
  \<^verbatim>\<open>S2ClientInit\<close>: the client, or the call of the callback for \<^verbatim>\<open>nullptr\<close>. The two \<open>int\<close> arguments are
  converted to unsigned.
\<close>

definition S2ClientInit ::
  "'m mysql \<Rightarrow> 'm option \<Rightarrow> string \<Rightarrow> u32 \<Rightarrow> string \<Rightarrow> string option \<Rightarrow> string \<Rightarrow> string option \<Rightarrow>
   i32 \<Rightarrow> i32 \<Rightarrow> bool \<Rightarrow> Reader \<Rightarrow> fault + (callback + 'm S2Client)" where
  "S2ClientInit my h host port db user password ssl_ca numWorkers workerId cb reader =
     (case client_Connect my h workerId numWorkers host port db user password ssl_ca reader of
        Inr cl \<Rightarrow> Inr (Inr cl)
      | Inl (S2ClientError code msg) \<Rightarrow>
          if cb then Inr (Inl (code, cstr msg, S2C_SEVERITY_ERROR)) else Inl UndefinedBehaviour
      | Inl e \<Rightarrow> Inl e)"

section \<open>Operations\<close>

definition ExecuteDDLQuery :: "'m mysql \<Rightarrow> string \<Rightarrow> bool \<Rightarrow> ('m S2Client, i64) act" where
  "ExecuteDDLQuery my q cb =
     andThen (SetError 0 '''' False) (\<lambda>_.
     or_set_error cb (with_conn (ExecuteDDL my q)) (give (- 1)))"

definition client_GetPartitionsNumber :: "'m S2Client \<Rightarrow> i32" where
  "client_GetPartitionsNumber cl = cl_numPartitions cl"

definition S2Error :: "'m S2Client \<Rightarrow> string" where "S2Error cl = cstr (snd (cl_error cl))"

definition S2Errno :: "'m S2Client \<Rightarrow> i32" where "S2Errno cl = of_nat (fst (cl_error cl))"

definition GetTableRowSchema :: "'m mysql \<Rightarrow> string \<Rightarrow> bool \<Rightarrow> ('m S2Client, RowSchema option) act" where
  "GetTableRowSchema my table cb =
     or_report cb
       (andThen (with_conn (Prepare my (MakeSelectQueryMeta table) False False)) (\<lambda>_.
        andThen (with_conn (GetRowSchema my True)) (\<lambda>res. give (Some res))))
       (give None)"

text \<open>The methods of \<^verbatim>\<open>S2Client\<close> the loads call; \<open>None\<close> when the source never ends.\<close>

definition client_LoadDataWrite ::
  "'m mysql \<Rightarrow> (u64 \<Rightarrow> string) \<Rightarrow> (json \<Rightarrow> string) \<Rightarrow> Chunk \<Rightarrow> RowSchema \<Rightarrow> string \<Rightarrow> 'm S2Client \<Rightarrow>
   ((fault + unit) \<times> 'm S2Client) option" where
  "client_LoadDataWrite my print_e json_dumps chunk schema table cl =
     map_option (\<lambda>((x, c), rd). (x, cl\<lparr>cl_conn := c, cl_chunk_reader := rd\<rparr>))
       (WriteChunk my print_e json_dumps (cl_chunk_reader cl) chunk schema table (cl_conn cl))"

definition client_LoadDataAvro ::
  "'m mysql \<Rightarrow> (json \<Rightarrow> string) \<Rightarrow> u8 list \<Rightarrow> i64 \<Rightarrow> RowSchema \<Rightarrow> string \<Rightarrow> bool \<Rightarrow> 'm S2Client \<Rightarrow>
   ((fault + unit) \<times> 'm S2Client) option" where
  "client_LoadDataAvro my json_dumps sourceData sourceDataLen schema table treatZeroLenAsNull cl =
     map_option (\<lambda>(x, c). (x, cl\<lparr>cl_conn := c\<rparr>))
       (WriteAvro my json_dumps \<lparr>av_ptr = sourceData, av_size = sourceDataLen, av_current_pos = 0\<rparr>
          schema table treatZeroLenAsNull (cl_conn cl))"

text \<open>
  The two loads. A load whose source never ends does not return, so they are partial; \<open>loaded\<close> is
  the \<^verbatim>\<open>try\<close> around one.
\<close>

definition loaded :: "bool \<Rightarrow> (fault + unit) \<times> 'm S2Client \<Rightarrow> (fault + unit) \<times> 'm S2Client" where
  "loaded cb r = (case r of (x, cl) \<Rightarrow> or_report cb (lift x) (give ()) cl)"

definition LoadDataWrite ::
  "'m mysql \<Rightarrow> (u64 \<Rightarrow> string) \<Rightarrow> (json \<Rightarrow> string) \<Rightarrow> Chunk \<Rightarrow> RowSchema \<Rightarrow> string \<Rightarrow> bool \<Rightarrow> 'm S2Client \<Rightarrow>
   ((fault + unit) \<times> 'm S2Client) option" where
  "LoadDataWrite my print_e json_dumps chunk schema table cb cl =
     map_option (loaded cb) (client_LoadDataWrite my print_e json_dumps chunk schema table cl)"

definition LoadDataAvro ::
  "'m mysql \<Rightarrow> (json \<Rightarrow> string) \<Rightarrow> u8 list \<Rightarrow> i64 \<Rightarrow> RowSchema \<Rightarrow> string \<Rightarrow> bool \<Rightarrow> bool \<Rightarrow> 'm S2Client \<Rightarrow>
   ((fault + unit) \<times> 'm S2Client) option" where
  "LoadDataAvro my json_dumps sourceData sourceDataLen schema table treatZeroLenAsNull cb cl =
     map_option (loaded cb)
       (client_LoadDataAvro my json_dumps sourceData sourceDataLen schema table treatZeroLenAsNull cl)"

text \<open>The destructor of the client is that of its connection.\<close>

definition S2ClientFree :: "'m mysql \<Rightarrow> 'm S2Client \<Rightarrow> (fault + unit) \<times> 'm S2Connection" where
  "S2ClientFree my cl = Disconnect my (cl_conn cl)"

end
