(* ===== verification/ChunkQueue.thy ===== *)
theory ChunkQueue
  imports Client
begin

text \<open>
  The base class of the two queues of chunks (\<^verbatim>\<open>queue/chunk_queue.hpp\<close>), and the steps their
  \<^verbatim>\<open>CreateChunkQueue\<close> functions share: the assignment of partitions to consumers, one thread-safe
  queue per consumer, one reader per partition. \<open>'q\<close> is the type of the thread-safe queues.
\<close>

section \<open>The object\<close>

record ('m, 'q) ChunkQueue =
  cq_row_schema :: "RowSchema option"
  cq_error_before_read :: bool
  cq_error :: "nat \<times> string"
  cq_result_table :: string
  cq_query :: string
  cq_key_column :: string
  cq_read_type :: ParallelReadType
  cq_readers :: "'m ResultTableReader list"
  cq_credentials :: Credentials
  cq_aggregators :: "AggregatorNode list"
  cq_consumer_queues :: "'q list"
  cq_partition_consumer :: "int list"

definition cq_SetError :: "nat \<times> string \<Rightarrow> ('m, 'q, 'x) ChunkQueue_scheme \<Rightarrow> ('m, 'q, 'x) ChunkQueue_scheme" where
  "cq_SetError err Q = Q\<lparr>cq_error := err\<rparr>"

definition StopReaders :: "('m, 'q, 'x) ChunkQueue_scheme \<Rightarrow> ('m, 'q, 'x) ChunkQueue_scheme" where
  "StopReaders Q =
     (let is_read_finished = (\<forall>r \<in> set (cq_readers Q). \<not> rt_active r);
          stopped = map StopReading (cq_readers Q)
      in Q\<lparr>cq_readers := if is_read_finished then stopped else map NotifyConnUnfinishedStmt stopped\<rparr>)"

section \<open>Getting a chunk\<close>

text \<open>
  What the catch block of \<^verbatim>\<open>Get\<close> and \<^verbatim>\<open>GetById\<close> makes of the errors of the readers: one line per
  reader that failed.
\<close>

fun collect_errors :: "'m ResultTableReader list \<Rightarrow> nat \<times> string \<Rightarrow> nat \<times> string" where
  "collect_errors [] err = err"
| "collect_errors (r # rs) (code, msg) =
     (if fst (rt_error r) \<noteq> 0
      then collect_errors rs (S2C_ERROR_READER_FAILED, msg @ '' - '' @ snd (rt_error r) @ [CHR 0x0A])
      else collect_errors rs (code, msg))"

definition readers_failed :: "'m ResultTableReader list \<Rightarrow> nat \<times> string" where
  "readers_failed rs =
     (let (code, msg) = collect_errors rs (0, '''') in
      if code \<noteq> 0 then (code, ''Some readers failed:'' @ [CHR 0x0A] @ msg) else (code, msg))"

text \<open>
  The chunk and the error of one critical section of a thread-safe queue. An empty queue whose
  producers have all left throws \<^verbatim>\<open>std::out_of_range\<close>, which ends the read.
\<close>

definition got ::
  "Chunk answer outcome \<Rightarrow> ('m, 'q, 'x) ChunkQueue_scheme \<Rightarrow>
   (Chunk option \<times> nat \<times> string) outcome \<times> ('m, 'q, 'x) ChunkQueue_scheme" where
  "got r Q =
     (case r of
        Return chunk \<Rightarrow> (Return (chunk, 0, ''''), Q)
      | Wait v \<Rightarrow> (Wait v, Q)
      | Throw (OutOfRange msg) \<Rightarrow>
          let err = readers_failed (cq_readers Q) in
          (Return (None, err), if fst err \<noteq> 0 then cq_SetError err Q else Q)
      | Throw e \<Rightarrow> (Throw e, Q))"

text \<open>One section of an operation \<open>op\<close> on the consumer's queue; \<open>sec\<close> gives the sections of the queue.\<close>

definition section_of ::
  "(Chunk qop \<Rightarrow> 'q \<Rightarrow> (Chunk answer, 'q) section_result) \<Rightarrow> Chunk qop \<Rightarrow> int \<Rightarrow>
   ('m, 'q, 'x) ChunkQueue_scheme \<Rightarrow>
   (Chunk option \<times> nat \<times> string) outcome \<times> ('m, 'q, 'x) ChunkQueue_scheme \<times> notice list" where
  "section_of sec op i Q =
     (if \<not> (0 \<le> i \<and> nat i < length (cq_consumer_queues Q)) then (Throw UndefinedBehaviour, Q, [])
      else case sec op (cq_consumer_queues Q ! nat i) of
        (r, q, ns) \<Rightarrow>
          case got r (Q\<lparr>cq_consumer_queues := (cq_consumer_queues Q)[nat i := q]\<rparr>) of
            (x, Q') \<Rightarrow> (x, Q', ns))"

definition cq_Get ::
  "(Chunk qop \<Rightarrow> 'q \<Rightarrow> (Chunk answer, 'q) section_result) \<Rightarrow> int \<Rightarrow> ('m, 'q, 'x) ChunkQueue_scheme \<Rightarrow>
   (Chunk option \<times> nat \<times> string) outcome \<times> ('m, 'q, 'x) ChunkQueue_scheme \<times> notice list" where
  "cq_Get sec consumerId Q = section_of sec QPop consumerId Q"

section \<open>Creating a queue\<close>

text \<open>The credentials of the client's connection; a NULL user cannot be assigned to a string.\<close>

definition client_credentials :: "'m S2Client \<Rightarrow> fault + Credentials" where
  "client_credentials cl =
     (let c = cl_conn cl in
      case c_user c of
        None \<Rightarrow> Inl UndefinedBehaviour
      | Some u \<Rightarrow> Inr \<lparr>cred_host = c_host c, cred_port = c_port c, cred_db = c_db c, cred_user = u,
          cred_password = c_password c, cred_ssl_ca = c_ssl_ca c\<rparr>)"

text \<open>\<open>m_partition_consumer[p] = consumer_id\<close> for the partitions of a consumer.\<close>

fun mark :: "int \<Rightarrow> int list \<Rightarrow> int list \<Rightarrow> fault + int list" where
  "mark consumer_id [] pc = Inr pc"
| "mark consumer_id (p # ps) pc =
     (if 0 \<le> p \<and> nat p < length pc then mark consumer_id ps (pc[nat p := consumer_id])
      else Inl UndefinedBehaviour)"

text \<open>The loop over the consumers, from \<open>consumer_id\<close> on: the queues it makes and the final map.\<close>

fun consumer_queues ::
  "(int list \<Rightarrow> 'q) \<Rightarrow> int \<Rightarrow> int list \<Rightarrow> int list \<Rightarrow> int list \<Rightarrow> fault + 'q list \<times> int list" where
  "consumer_queues mk n parts [] pc = Inr ([], pc)"
| "consumer_queues mk n parts (i # is) pc =
     and_then (ConsumerPartitions n i parts) (\<lambda>consumer_partitions.
     and_then (mark i consumer_partitions pc) (\<lambda>pc'.
     and_then (consumer_queues mk n parts is pc') (\<lambda>(qs, pc'').
     Inr (mk consumer_partitions # qs, pc''))))"

text \<open>\<open>m_consumer_queues[m_partition_consumer[p]]\<close>\<close>

definition queue_index :: "nat \<Rightarrow> int list \<Rightarrow> int \<Rightarrow> fault + nat" where
  "queue_index nq pc p =
     (if 0 \<le> p \<and> nat p < length pc \<and> 0 \<le> pc ! nat p \<and> nat (pc ! nat p) < nq
      then Inr (nat (pc ! nat p)) else Inl UndefinedBehaviour)"

text \<open>
  The loop over the partitions: \<open>readQuery\<close> is the switch over the read type, \<open>None\<close> where it
  returns \<^verbatim>\<open>nullptr\<close>; \<open>inits p\<close> are the handles \<^verbatim>\<open>mysql_init\<close> gives for the connection of partition
  \<open>p\<close> and for the second attempt. \<open>creds\<close> is filled again for every partition.
\<close>

definition create_reader ::
  "'m mysql \<Rightarrow> 'm option \<times> 'm option \<Rightarrow> bool \<Rightarrow> Credentials \<Rightarrow> Credentials \<Rightarrow> nat \<Rightarrow> string \<Rightarrow> RowSchema option \<Rightarrow>
   u32 \<Rightarrow> u64 \<Rightarrow> ('m S2Client, 'm ResultTableReader option) act" where
  "create_reader my hs cb creds masterCreds q readQuery schema part sz =
     andThen (lift (CreateTableReader my (fst hs) (snd hs) creds masterCreds q readQuery schema part sz)) (\<lambda>(calls, r).
     andThen (for_each (report cb) calls) (\<lambda>_. give r))"

fun create_readers ::
  "'m mysql \<Rightarrow> (int \<Rightarrow> 'm option \<times> 'm option) \<Rightarrow> bool \<Rightarrow> (int \<Rightarrow> ('m S2Client, string option) act) \<Rightarrow>
   AggregatorNode list \<Rightarrow> Credentials \<Rightarrow> nat \<Rightarrow> int list \<Rightarrow> RowSchema option \<Rightarrow> u64 \<Rightarrow> Credentials \<Rightarrow> int list \<Rightarrow>
   ('m S2Client, 'm ResultTableReader list option) act" where
  "create_readers my inits cb readQuery aggs masterCreds nq pc schema sz creds [] = give (Some [])"
| "create_readers my inits cb readQuery aggs masterCreds nq pc schema sz creds (p # ps) =
     andThen (readQuery p) (\<lambda>qry. case qry of
       None \<Rightarrow> give None
     | Some q \<Rightarrow>
         let creds' = FillCredentials aggs p creds in
         andThen (lift (queue_index nq pc p)) (\<lambda>k.
         andThen (create_reader my (inits p) cb creds' masterCreds k q schema (word_of_int p) sz) (\<lambda>reader.
         case reader of
           None \<Rightarrow> give None
         | Some r \<Rightarrow>
             andThen (create_readers my inits cb readQuery aggs masterCreds nq pc schema sz creds' ps) (\<lambda>rs.
             give (map_option (\<lambda>rs. r # rs) rs)))))"


section \<open>Who reads for whom\<close>

lemma mark_eq:
  assumes "\<forall>p \<in> set ps. 0 \<le> p \<and> nat p < length pc"
  shows "\<exists>pc'. mark i ps pc = Inr pc' \<and> length pc' = length pc \<and>
    (\<forall>j < length pc. pc' ! j = (if int j \<in> set ps then i else pc ! j))"
  using assms
proof (induction ps arbitrary: pc)
  case (Cons p ps)
  from Cons.IH [of "pc[nat p := i]"] Cons.prems obtain pc' where
    "mark i ps (pc[nat p := i]) = Inr pc'" "length pc' = length pc"
    "\<forall>j < length pc. pc' ! j = (if int j \<in> set ps then i else pc[nat p := i] ! j)"
    by auto
  with Cons.prems show ?case by (auto simp: nth_list_update)
qed simp

text \<open>The partitions of two consumers are disjoint.\<close>

lemma consumer_loop_disjoint:
  assumes "distinct xs" "c < n" "d < n" "x \<in> set (consumer_loop n c xs)" "x \<in> set (consumer_loop n d xs)"
  shows "c = d"
  using assms by (auto simp: consumer_loop_set nth_eq_iff_index_eq)

lemma consumer_queues_eq:
  assumes "0 < n" "n \<le> INT_MAX" "distinct parts" "\<forall>p \<in> set parts. 0 \<le> p \<and> nat p < length pc"
    and "distinct is" "\<forall>i \<in> set is. 0 \<le> i \<and> i < n"
  shows "\<exists>pc'. consumer_queues mk n parts is pc =
      Inr (map (\<lambda>i. mk (consumer_loop (nat n) (nat i) parts)) is, pc') \<and> length pc' = length pc \<and>
    (\<forall>j < length pc. (\<forall>i \<in> set is. int j \<notin> set (consumer_loop (nat n) (nat i) parts)) \<longrightarrow> pc' ! j = pc ! j) \<and>
    (\<forall>i \<in> set is. \<forall>j. int j \<in> set (consumer_loop (nat n) (nat i) parts) \<longrightarrow> pc' ! j = i)"
  using assms(4-6)
proof (induction "is" arbitrary: pc)
  case (Cons i "is")
  let ?C = "\<lambda>i. consumer_loop (nat n) (nat i) parts"
  have sub: "set (?C k) \<subseteq> set parts" if "0 \<le> k" "k < n" for k
    using that by (auto simp: consumer_loop_set)
  have cp: "ConsumerPartitions n i parts = Inr (?C i)"
    using assms(1,2) Cons.prems(3) by (intro ConsumerPartitions_eq) auto
  have in_range: "\<forall>p \<in> set (?C i). 0 \<le> p \<and> nat p < length pc"
    using sub [of i] Cons.prems(1,3) by auto
  obtain pc1 where pc1: "mark i (?C i) pc = Inr pc1" "length pc1 = length pc"
    "\<forall>j < length pc. pc1 ! j = (if int j \<in> set (?C i) then i else pc ! j)"
    using mark_eq [OF in_range] by blast
  obtain pc2 where pc2: "consumer_queues mk n parts is pc1 = Inr (map (\<lambda>i. mk (?C i)) is, pc2)" "length pc2 = length pc1"
    "\<forall>j < length pc1. (\<forall>i \<in> set is. int j \<notin> set (?C i)) \<longrightarrow> pc2 ! j = pc1 ! j"
    "\<forall>i \<in> set is. \<forall>j. int j \<in> set (?C i) \<longrightarrow> pc2 ! j = i"
    using Cons.IH [of pc1] Cons.prems pc1(2) by auto
  have own: "pc2 ! j = i" if "int j \<in> set (?C i)" for j
  proof -
    have "\<forall>k \<in> set is. int j \<notin> set (?C k)"
    proof (intro ballI notI)
      fix k assume k: "k \<in> set is" "int j \<in> set (?C k)"
      have "nat i = nat k"
        by (rule consumer_loop_disjoint [OF assms(3) _ _ that k(2)]) (use Cons.prems(3) k(1) assms(1) in auto)
      then have "i = k" using Cons.prems(3) k(1) by (simp add: eq_nat_nat_iff)
      with k(1) Cons.prems(2) show False by simp
    qed
    moreover have "j < length pc"
      using that sub [of i] Cons.prems(1,3) by force
    ultimately show ?thesis using pc2(3) pc1(2,3) that by auto
  qed
  have "consumer_queues mk n parts (i # is) pc = Inr (map (\<lambda>i. mk (?C i)) (i # is), pc2)"
    using cp pc1(1) pc2(1) by simp
  with pc2(2-4) pc1(2,3) own show ?case by (intro exI [of _ pc2]) auto
qed simp

text \<open>The readers that were created, in the order of the partitions.\<close>

lemma CreateTableReader_result:
  assumes "CreateTableReader my h1 h2 creds masterCreds q readQuery schema part sz = Inr (calls, Some r)"
  shows "\<exists>c. r = new_reader c q part sz readQuery schema"
  using assms by (auto simp: CreateTableReader_def Let_def split: sum.splits fault.splits)

lemma create_reader_result:
  assumes "create_reader my hs cb creds masterCreds q readQuery schema part sz cl = (Inr (Some r), cl')"
  shows "\<exists>c. r = new_reader c q part sz readQuery schema"
  using assms by (auto simp: create_reader_def andThen_Inr_iff lift_def give_def dest: CreateTableReader_result)

lemma create_readers_result:
  assumes "create_readers my inits cb readQuery as masterCreds nq pc schema sz creds ps cl = (Inr (Some rs), cl')"
  shows "list_all2 (\<lambda>p r. (\<exists>c k q. queue_index nq pc p = Inr k \<and> r = new_reader c k (word_of_int p) sz q schema)) ps rs"
  using assms
proof (induction ps arbitrary: creds cl rs)
  case (Cons p ps)
  let ?creds = "FillCredentials as p creds"
  from Cons.prems obtain q cl1 k r cl2 rs' where *: "queue_index nq pc p = Inr k"
    "create_reader my (inits p) cb ?creds masterCreds k q schema (word_of_int p) sz cl1 = (Inr (Some r), cl2)"
    "create_readers my inits cb readQuery as masterCreds nq pc schema sz ?creds ps cl2 = (Inr (Some rs'), cl')"
    "rs = r # rs'"
    by (auto simp: andThen_Inr_iff Let_def lift_def give_def split: option.splits)
  from create_reader_result [OF *(2)] *(1) Cons.IH [OF *(3)] *(4) show ?case by auto
qed (simp add: give_def)


lemma filter_by_index: "filter P xs = map ((!) xs) (filter (\<lambda>k. P (xs ! k)) [0..<length xs])"
proof -
  have "filter P (map ((!) xs) [0..<length xs]) = map ((!) xs) (filter (P \<circ> (!) xs) [0..<length xs])"
    by (rule filter_map)
  then show ?thesis by (simp add: map_nth comp_def)
qed

text \<open>
  The queue of every consumer is made for exactly the partitions whose readers push to it, in the
  same order.
\<close>

lemma readers_and_queues:
  assumes "0 < n" "n \<le> INT_MAX" "distinct parts" "\<forall>p \<in> set parts. 0 \<le> p \<and> nat p < N"
    and "consumer_queues mk n parts [0..n - 1] (replicate N (- 1)) = Inr (qs, pc)"
    and "list_all2 (\<lambda>p r. \<exists>c k q. queue_index (length qs) pc p = Inr k \<and> r = new_reader c k (word_of_int p) sz q schema)
      parts rs"
  shows "length qs = nat n" "\<forall>r \<in> set rs. rt_queue r < nat n"
    and "i < nat n \<Longrightarrow> qs ! i = mk (consumer_loop (nat n) i parts)"
    and "i < nat n \<Longrightarrow> map rt_partition (filter (\<lambda>r. rt_queue r = i) rs) =
      map word_of_int (consumer_loop (nat n) i parts)"
    and "map rt_partition rs = map word_of_int parts"
proof -
  let ?C = "\<lambda>i. consumer_loop (nat n) (nat i) parts"
  have in_range: "\<forall>p \<in> set parts. 0 \<le> p \<and> nat p < length (replicate N (- 1 :: int))" using assms(4) by simp
  from consumer_queues_eq [OF assms(1-3) in_range, of "[0..n - 1]" mk] assms(5)
  have qs: "qs = map (\<lambda>i. mk (?C i)) [0..n - 1]" "length pc = N"
    and pc: "\<forall>i \<in> {0..n - 1}. \<forall>j. int j \<in> set (?C i) \<longrightarrow> pc ! j = i" by auto
  show len: "length qs = nat n" using qs(1) assms(1) by simp
  show q: "qs ! i = mk (consumer_loop (nat n) i parts)" if "i < nat n" for i
    using qs(1) that by (simp add: zless_nat_eq_int_zless)
  have lr: "length rs = length parts" using assms(6) by (simp add: list_all2_lengthD)
  have at: "rt_queue (rs ! k) = k mod nat n \<and> rt_partition (rs ! k) = word_of_int (parts ! k)"
    if k: "k < length parts" for k
  proof -
    obtain c j q where j: "queue_index (length qs) pc (parts ! k) = Inr j"
      "rs ! k = new_reader c j (word_of_int (parts ! k)) sz q schema"
      using list_all2_nthD [OF assms(6) k] by blast
    have p: "0 \<le> parts ! k" using assms(4) k by simp
    have "parts ! k \<in> set (?C (int (k mod nat n)))"
      using assms(1) k consumer_loop_set [of "k mod nat n" "nat n" "parts ! k" parts] by auto
    moreover have "int (k mod nat n) \<in> {0..n - 1}" using assms(1) by (simp add: zmod_int)
    ultimately have "pc ! nat (parts ! k) = int (k mod nat n)"
      using pc p by auto
    with j show ?thesis by (auto simp: queue_index_def new_reader_def split: if_splits)
  qed
  show "\<forall>r \<in> set rs. rt_queue r < nat n"
    using at lr assms(1) by (auto simp: in_set_conv_nth)
  show "map rt_partition rs = map word_of_int parts"
    using at lr by (intro nth_equalityI) auto
  show "map rt_partition (filter (\<lambda>r. rt_queue r = i) rs) = map word_of_int (consumer_loop (nat n) i parts)"
    if "i < nat n" for i
  proof -
    have "filter (\<lambda>k. rt_queue (rs ! k) = i) [0..<length rs] = filter (\<lambda>k. k mod nat n = i) [0..<length parts]"
      using at lr by (intro filter_cong) auto
    then have "map rt_partition (filter (\<lambda>r. rt_queue r = i) rs) =
        map (\<lambda>k. rt_partition (rs ! k)) (filter (\<lambda>k. k mod nat n = i) [0..<length parts])"
      by (subst filter_by_index) simp
    also have "\<dots> = map (\<lambda>k. word_of_int (parts ! k)) (filter (\<lambda>k. k mod nat n = i) [0..<length parts])"
      using at by (intro map_cong) auto
    finally show ?thesis using that by (simp add: consumer_loop_from_start comp_def)
  qed
qed


section \<open>Failed readers\<close>

lemma collect_errors_eq:
  "collect_errors rs (code, msg) =
    (if \<exists>r \<in> set rs. fst (rt_error r) \<noteq> 0 then S2C_ERROR_READER_FAILED else code,
     msg @ concat (map (\<lambda>r. '' - '' @ snd (rt_error r) @ [CHR 0x0A]) (filter (\<lambda>r. fst (rt_error r) \<noteq> 0) rs)))"
  by (induction rs arbitrary: code msg) auto

text \<open>C27. When a consumer's queue is empty and its readers are gone, the consumer is told of every reader
  of the worker that failed, in order, one line each; when none failed it gets no chunk and no error.
\<close>

theorem failed_readers_reported:
  assumes "0 \<le> i" "nat i < length (cq_consumer_queues Q)"
    and "sec QPop (cq_consumer_queues Q ! nat i) = (Throw (OutOfRange what), q, ns)"
  defines "bad \<equiv> filter (\<lambda>r. fst (rt_error r) \<noteq> 0) (cq_readers Q)"
  shows "fst (cq_Get sec i Q) = Return (None,
    if bad = [] then (0, '''')
    else (S2C_ERROR_READER_FAILED, ''Some readers failed:'' @ [CHR 0x0A] @
      concat (map (\<lambda>r. '' - '' @ snd (rt_error r) @ [CHR 0x0A]) bad)))"
proof -
  have "bad = [] \<longleftrightarrow> \<not> (\<exists>r \<in> set (cq_readers Q). fst (rt_error r) \<noteq> 0)"
    by (auto simp: bad_def filter_empty_conv)
  then have "readers_failed (cq_readers Q) = (if bad = [] then (0, '''')
      else (S2C_ERROR_READER_FAILED, ''Some readers failed:'' @ [CHR 0x0A] @
        concat (map (\<lambda>r. '' - '' @ snd (rt_error r) @ [CHR 0x0A]) bad)))"
    by (auto simp: readers_failed_def collect_errors_eq bad_def S2C_ERROR_READER_FAILED_def)
  with assms(1-3) show ?thesis
    by (simp add: cq_Get_def section_of_def got_def Let_def)
qed

end
