(* ===== verification/StreamingQueue.thy ===== *)
theory StreamingQueue
  imports ChunkQueue SimpleQueue ExplainText
begin

text \<open>
  The queue for single-pass reading and for queries (\<^verbatim>\<open>queue/streaming_queue.cpp\<close>): one simple queue
  per consumer. Creating it is modelled up to the start of the readers; a started reader does what
  \<^verbatim>\<open>Read\<close> says.
\<close>

type_synonym 'm StreamingQueue = "('m, Chunk SimpleQueue) ChunkQueue"

section \<open>Creating the queue\<close>

text \<open>The switch over the read type.\<close>

definition streaming_readQuery ::
  "ParallelReadType \<Rightarrow> string \<Rightarrow> string \<Rightarrow> string list \<Rightarrow> bool \<Rightarrow> int \<Rightarrow> ('m S2Client, string option) act" where
  "streaming_readQuery readType resultTableName selectQuery partitionOrderByCols cb p =
     (case readType of
        ReadTypeResultTable \<Rightarrow>
          andThen (look cl_serverVersion) (\<lambda>v.
          andThen (lift (MakeReadResultTableQuery resultTableName (word_of_int p) v)) (\<lambda>q. give (Some q)))
      | ReadTypeColumnStoreTable \<Rightarrow>
          andThen (SetError S2C_ERROR_INV_ARG ''Cannot use ReadTypeColumnStoreTable in Single Pass'' cb) (\<lambda>_.
          give None)
      | ReadTypeOriginalTable \<Rightarrow>
          andThen (lift (MakeReadOriginalTableQuery selectQuery None partitionOrderByCols (word_of_int p))) (\<lambda>q.
          give (Some q))
      | ReadTypeUnknown \<Rightarrow> give None)"

text \<open>
  The reader of a query that is not read in parallel: it starts the query first, so that the row
  schema is that of the result, and then fetches the first row. \<open>None\<close> is an error it recorded.
\<close>

definition start_query :: "'m mysql \<Rightarrow> ('m ResultTableReader, RowSchema option) act" where
  "start_query my =
     andThen (PrepareRead my False) (\<lambda>_.
     andThen (look (\<lambda>r. fst (rt_error r) \<noteq> 0)) (\<lambda>failed.
     if failed then give None else
     andThen (UpdateRowSchema my) (\<lambda>schema.
     andThen (Prefetch my) (\<lambda>_. give (Some schema)))))"

definition query_reader ::
  "'m mysql \<Rightarrow> 'm option \<Rightarrow> bool \<Rightarrow> nat \<Rightarrow> string \<Rightarrow> u64 \<Rightarrow> bool \<Rightarrow>
   ('m S2Client, ('m ResultTableReader \<times> RowSchema) option) act" where
  "query_reader my h cb nq selectQuery chunkSize usePreparedProtocol =
     or_set_error cb
       (andThen (lift (if 0 < nq then Inr () else Inl UndefinedBehaviour)) (\<lambda>_.
        andThen (look cl_conn) (\<lambda>conn.
        andThen (lift (CreateReaderNonParallel my h conn 0 selectQuery None chunkSize usePreparedProtocol)) (\<lambda>reader.
        case start_query my reader of
          (Inl e, _) \<Rightarrow> throw e
        | (Inr None, r) \<Rightarrow> andThen (SetError (fst (rt_error r)) (snd (rt_error r)) cb) (\<lambda>_. give None)
        | (Inr (Some schema), r) \<Rightarrow> give (Some (r, schema))))))
       (give None)"

text \<open>
  \<^verbatim>\<open>CreateChunkQueue\<close>: \<open>None\<close> in the result is \<^verbatim>\<open>nullptr\<close>, \<open>None\<close> for the whole means that parsing the plan does
  not return. \<open>resultTableName\<close> is \<open>None\<close> for NULL; \<open>inits\<close> and \<open>h\<close> are the handles of
  \<^verbatim>\<open>mysql_init\<close>.
\<close>

definition new_streaming ::
  "Credentials \<Rightarrow> string option \<Rightarrow> string \<Rightarrow> ParallelReadType \<Rightarrow> Chunk SimpleQueue list \<Rightarrow> int list \<Rightarrow>
   RowSchema option \<Rightarrow> 'm ResultTableReader list \<Rightarrow> 'm StreamingQueue" where
  "new_streaming creds resultTableName selectQuery readType queues pc schema readers =
     \<lparr>cq_row_schema = schema, cq_error_before_read = False, cq_error = (0, ''''),
      cq_result_table = (case resultTableName of None \<Rightarrow> '''' | Some t \<Rightarrow> t), cq_query = selectQuery,
      cq_key_column = '''', cq_read_type = readType, cq_readers = readers, cq_credentials = creds,
      cq_aggregators = [], cq_consumer_queues = queues, cq_partition_consumer = pc\<rparr>"

definition streaming_queues ::
  "u32 \<Rightarrow> int \<Rightarrow> bool \<Rightarrow> ('m S2Client, int list \<times> Chunk SimpleQueue list \<times> int list) act" where
  "streaming_queues capacity nConsumers doesParallelRead =
     andThen (look (\<lambda>cl. if doesParallelRead
        then WorkerPartitions (sint (cl_numWorkers cl)) (sint (cl_workerId cl)) (sint (cl_numPartitions cl))
        else Inr [0])) (\<lambda>partitions.
     andThen (lift partitions) (\<lambda>parts.
     andThen (look cl_numPartitions) (\<lambda>n.
     andThen (lift (consumer_queues (\<lambda>ps. ThreadSafeSimpleQueue capacity (of_nat (length ps))) nConsumers parts
        [0..nConsumers - 1] (replicate (unat n) (- 1)))) (\<lambda>(queues, pc).
     give (parts, queues, pc)))))"

definition parallel_readers ::
  "'m mysql \<Rightarrow> (int \<Rightarrow> 'm option \<times> 'm option) \<Rightarrow> bool \<Rightarrow> string option \<Rightarrow> string \<Rightarrow> ParallelReadType \<Rightarrow> string list \<Rightarrow>
   u64 \<Rightarrow> Credentials \<Rightarrow> int list \<Rightarrow> Chunk SimpleQueue list \<Rightarrow> int list \<Rightarrow> RowSchema \<Rightarrow>
   ('m S2Client, 'm StreamingQueue option) act" where
  "parallel_readers my inits cb resultTableName selectQuery readType orderCols chunkSize creds parts queues pc schema =
     andThen (or_set_error cb (andThen (with_conn (GetAggregators my)) (\<lambda>a. give (Some a))) (give None)) (\<lambda>aggs.
     case aggs of
       None \<Rightarrow> give None
     | Some as \<Rightarrow>
         andThen (create_readers my inits cb
             (\<lambda>p. case (readType, resultTableName) of
                (ReadTypeResultTable, None) \<Rightarrow> throw UndefinedBehaviour
              | (_, t) \<Rightarrow> streaming_readQuery readType (case t of None \<Rightarrow> '''' | Some s \<Rightarrow> s) selectQuery orderCols cb p)
             as creds (length queues) pc (Some schema) chunkSize creds parts) (\<lambda>readers.
         give (map_option (new_streaming creds resultTableName selectQuery readType queues pc (Some schema)) readers)))"

definition CreateStreamingQueue ::
  "'m mysql \<Rightarrow> (int \<Rightarrow> 'm option \<times> 'm option) \<Rightarrow> 'm option \<Rightarrow> string option \<Rightarrow> string \<Rightarrow> ParallelReadType \<Rightarrow> string list \<Rightarrow>
   u32 \<Rightarrow> u64 \<Rightarrow> int \<Rightarrow> bool \<Rightarrow> bool \<Rightarrow> bool \<Rightarrow> 'm S2Client \<Rightarrow>
   ((fault + 'm StreamingQueue option) \<times> 'm S2Client) option" where
  "CreateStreamingQueue my inits h resultTableName selectQuery readType partitionOrderByCols capacity chunkSize
     nConsumers doesParallelRead usePreparedProtocol cb cl =
     (case (andThen (look client_credentials) (\<lambda>creds. andThen (lift creds) (\<lambda>creds.
            andThen (streaming_queues capacity nConsumers doesParallelRead) (\<lambda>qs. give (creds, qs))))) cl of
        (Inl e, cl') \<Rightarrow> Some (Inl e, cl')
      | (Inr (creds, parts, queues, pc), _) \<Rightarrow>
          if doesParallelRead then
            (case ExplainRowSchema my selectQuery (cl_conn cl) of
               None \<Rightarrow> None
             | Some (x, c) \<Rightarrow>
                 Some (andThen (or_set_error cb (andThen (lift x) (\<lambda>s. give (Some s))) (give None)) (\<lambda>schema.
                   case schema of
                     None \<Rightarrow> give None
                   | Some s \<Rightarrow> parallel_readers my inits cb resultTableName selectQuery readType partitionOrderByCols
                                 chunkSize creds parts queues pc s) (cl\<lparr>cl_conn := c\<rparr>)))
          else
            Some (andThen (query_reader my h cb (length queues) selectQuery chunkSize usePreparedProtocol) (\<lambda>r.
              give (map_option (\<lambda>(reader, schema).
                new_streaming creds resultTableName selectQuery readType queues pc (Some schema) [reader]) r)) cl))"

section \<open>Other operations\<close>

text \<open>These set the error of the queue, not the one of the caller, and return \<^verbatim>\<open>nullptr\<close>.\<close>

definition streaming_GetById :: "int \<Rightarrow> int \<Rightarrow> nat \<times> string \<Rightarrow> 'm StreamingQueue \<Rightarrow>
   (Chunk option \<times> nat \<times> string) \<times> 'm StreamingQueue" where
  "streaming_GetById partitionId chunkId err Q =
     ((None, err), cq_SetError (S2C_ERROR_INV_ARG, ''Cannot use streaming queue in multi-pass mode'') Q)"

definition streaming_GetSingleRow :: "u32 \<Rightarrow> i64 \<Rightarrow> int \<Rightarrow> nat \<times> string \<Rightarrow> 'm StreamingQueue \<Rightarrow>
   (Chunk option \<times> nat \<times> string) \<times> 'm StreamingQueue" where
  "streaming_GetSingleRow partitionId rowId threadId err Q =
     ((None, err), cq_SetError (S2C_ERROR_INV_ARG, ''Cannot use streaming queue in random read mode'') Q)"

definition streaming_GetMultipleRows :: "u64 \<Rightarrow> u32 \<Rightarrow> i64 list \<Rightarrow> int \<Rightarrow> nat \<times> string \<Rightarrow> 'm StreamingQueue \<Rightarrow>
   (Chunk option \<times> nat \<times> string) \<times> 'm StreamingQueue" where
  "streaming_GetMultipleRows chunkSize partitionId rowIds threadId err Q =
     ((None, err), cq_SetError (S2C_ERROR_INV_ARG, ''Cannot use streaming queue in random read mode'') Q)"

text \<open>
  The loop of the destructor over one consumer's queue, as far as it gets in one go: chunks are
  taken and freed until \<^verbatim>\<open>Get\<close> waits for a reader or finds the read finished.
\<close>

fun drain :: "nat \<Rightarrow> Chunk SimpleQueue \<Rightarrow> Chunk list \<times> unit outcome \<times> Chunk SimpleQueue" where
  "drain 0 q = ([], Wait EmptyCV, q)"
| "drain (Suc n) q =
     (case sq_Pop q of
        (Return (Some c), q', _) \<Rightarrow> (case drain n q' of (freed, x, q'') \<Rightarrow> (c # freed, x, q''))
      | (Return None, q', _) \<Rightarrow> ([], Return (), q')
      | (Wait v, q', _) \<Rightarrow> ([], Wait v, q')
      | (Throw (OutOfRange _), q', _) \<Rightarrow> ([], Return (), q')
      | (Throw e, q', _) \<Rightarrow> ([], Throw e, q'))"

definition free_consumer_queue :: "Chunk SimpleQueue \<Rightarrow> Chunk list \<times> unit outcome \<times> Chunk SimpleQueue" where
  "free_consumer_queue q = drain (Suc (length (sq_items q))) q"

text \<open>
  The whole destructor: the readers are stopped first, and the queues are only emptied when the
  reading has started. A queue that waits holds up those after it until its readers are gone.
\<close>

definition free_streaming :: "'m StreamingQueue \<Rightarrow> (Chunk list \<times> unit outcome \<times> Chunk SimpleQueue) list \<times> 'm StreamingQueue" where
  "free_streaming Q =
     (let Q' = StopReaders Q in
      (map (\<lambda>q. if cq_error_before_read Q' then ([], Return (), q) else free_consumer_queue q)
         (cq_consumer_queues Q'), Q'))"

lemma drain_items:
  "length (sq_items q) < n \<Longrightarrow>
   drain n q = (sq_items q, (if sq_producers q = 0 then Return () else Wait EmptyCV), q\<lparr>sq_items := []\<rparr>)"
proof (induction "sq_items q" arbitrary: n q)
  case Nil
  then obtain m where "n = Suc m" by (cases n) auto
  moreover have "sq_items q = []" "q\<lparr>sq_items := []\<rparr> = q" using Nil.hyps by simp_all
  ultimately show ?case by (simp add: sq_Pop_def)
next
  case (Cons x xs)
  then obtain m where m: "n = Suc m" by (cases n) auto
  have q: "sq_items q = x # xs" using Cons.hyps(2) by simp
  have "drain m (q\<lparr>sq_items := xs\<rparr>) =
      (xs, (if sq_producers q = 0 then Return () else Wait EmptyCV), q\<lparr>sq_items := []\<rparr>)"
    using Cons.hyps(1) [of "q\<lparr>sq_items := xs\<rparr>" m] Cons.prems m q by simp
  with m q show ?case by (simp add: sq_Pop_def)
qed

text \<open>The destructor frees what is in a queue, each chunk once, and waits while readers are left.\<close>

lemma free_consumer_queue_frees_all:
  "free_consumer_queue q =
     (sq_items q, (if sq_producers q = 0 then Return () else Wait EmptyCV), q\<lparr>sq_items := []\<rparr>)"
  unfolding free_consumer_queue_def by (rule drain_items) simp


section \<open>The first row of a query\<close>

text \<open>A query started on the prepared protocol loses nothing: when the first \<^verbatim>\<open>Advance\<close> after the
  statement ran fetches the first of the rows, the reader is left at that row.
\<close>

theorem prepared_query_keeps_rows:
  assumes "rt_use_prepared_protocol r" "fst (rt_error r) = 0"
    and "Prepare my (rt_query r) True False (rt_conn r) = (Inr b, c1)"
    and "Advance my c1 = (Inr x, c2)" "delivers my rs out c2"
    and "GetRowSchema my False c1 = (Inr schema, c1)"
  shows "\<exists>r'. start_query my r = (Inr (Some schema), r') \<and> delivers my rs out (rt_conn r')"
  using assms by (simp add: start_query_def PrepareRead_def UpdateRowSchema_def Prefetch_def act_simps on_conn_def)

text \<open>C26. A query started on the text protocol loses its first row. The server takes the query, and its result has
  columns and the rows \<open>row # rs\<close>: from the connection with that result, the first \<^verbatim>\<open>Advance\<close> fetches \<open>row\<close> and the
  ones after it \<open>rs\<close>. Starting the query leaves the reader at the first of \<open>rs\<close>: \<^verbatim>\<open>Execute\<close> fetches the first
  row although it is told not to, and the fetch that follows drops it. (On the prepared protocol no row is lost, see
  above.)
\<close>

theorem text_query_loses_first_row:
  assumes "\<not> rt_use_prepared_protocol r" "fst (rt_error r) = 0"
    and "mysql_query my (cstr (rt_query r)) (c_conn (rt_conn r)) = (False, m1)"
    and "mysql_use_result my m1 = (True, m2)" "mysql_num_fields my m2 \<noteq> 0"
    and "Advance my ((rt_conn r)\<lparr>c_use_binary_protocol := False, c_conn := m2, c_res := True\<rparr>) = (Inr b, c2)"
    and "delivers my (row # rs) None c2" "GetRowSchema my False c2 = (Inr schema, c2)"
  shows "\<exists>r'. start_query my r = (Inr (Some schema), r') \<and> delivers my rs None (rt_conn r')"
proof -
  let ?c = "rt_conn r"
  have "Execute my (rt_query r) False ?c = (Inr True, c2)"
    using assms(3-6) by (simp add: Execute_def query_def act_simps call_def)
  moreover obtain x c3 where "Advance my c2 = (Inr x, c3)" "delivers my rs None c3"
    using assms(7) by (auto elim: delivers_ConsE)
  ultimately show ?thesis using assms(1,2,8)
    by (simp add: start_query_def PrepareRead_def UpdateRowSchema_def Prefetch_def act_simps on_conn_def)
qed

theorem prepared_query_keeps_rows_witness:
  "\<exists>schema r'. start_query demo_mysql (demo_reader [5, 7]) = (Inr (Some schema), r') \<and>
    delivers demo_mysql [demo_row 5, demo_row 7] None (rt_conn r')"
proof -
  have p: "Prepare demo_mysql (rt_query (demo_reader [5, 7])) True False (rt_conn (demo_reader [5, 7])) =
      (Inr True, demo_connection [5, 7])"
    by (simp add: Prepare_def FreeLastFetched_def demo_reader_def new_reader_def
       demo_connection_def new_S2Connection_def act_simps call_def CleanupStatement_def)
  have s: "GetRowSchema demo_mysql False (demo_connection [5, 7]) =
      (Inr [\<lparr>col_type = Int64, col_size = 8, col_name = ''a''\<rparr>], demo_connection [5, 7])"
    by (simp add: GetRowSchema_def act_simps demo_connection_def new_S2Connection_def demo_field_def Let_def
        strndup_def field_type_def numeral_2_eq_2)
  show ?thesis
    using prepared_query_keeps_rows [OF _ _ p demo_Advance demo_delivers s]
    by (force simp: demo_reader_def new_reader_def)
qed


text \<open>A scripted server of one \<open>VARCHAR\<close> column for the text protocol.\<close>

definition text_demo :: "int list mysql" where
  "text_demo = demo_mysql\<lparr>mysql_fetch_fields := \<lambda>m. Some [demo_field\<lparr>fld_type := MYSQL_TYPE_VAR_STRING\<rparr>]\<rparr>"

definition text_row_of :: "int \<Rightarrow> row" where
  "text_row_of v = ([Some (CellBytes (bytes_of (int_to_string v)))], [of_nat (length (int_to_string v))])"

definition text_connection :: "int list \<Rightarrow> int list S2Connection" where
  "text_connection m = new_S2Connection ''h'' 3306 ''d'' (Some ''u'') ''p'' None m
     \<lparr>c_use_binary_protocol := False, c_res := True\<rparr>"

definition text_at :: "int list \<Rightarrow> int list S2Connection" where
  "text_at vs = (case vs of
     [] \<Rightarrow> text_connection []
   | v # vs' \<Rightarrow> text_connection vs'\<lparr>c_last_fetched_row := Some (fst (text_row_of v)),
       c_last_fetched_lengths := Some (snd (text_row_of v)), c_last_columns_num := 1\<rparr>)"

lemma text_Advance:
  assumes "c = text_connection vs \<or> (\<exists>v. c = text_at (v # vs))"
  shows "Advance text_demo c = (Inr (vs \<noteq> []), text_at vs)"
  using assms
  by (elim disjE exE; cases vs)
     (simp_all add: Advance_def AdvanceText_def FreeLastFetched_def text_at_def text_demo_def demo_mysql_def
       text_connection_def new_S2Connection_def act_simps set_row_def call_def demo_field_def text_row_of_def
       text_cell_def numeral_2_eq_2 One_nat_def)

lemma text_delivers: "delivers text_demo (map text_row_of vs) None (text_at vs)"
proof (induction vs)
  case Nil
  show ?case by (simp add: delivers_Nil_iff text_at_def text_connection_def new_S2Connection_def)
next
  case (Cons v vs)
  have "Advance text_demo (text_at (v # vs)) = (Inr (vs \<noteq> []), text_at vs)"
    by (rule text_Advance) blast
  with Cons show ?case
    using delivers.more_rows [of "text_at (v # vs)" "fst (text_row_of v)" "snd (text_row_of v)" text_demo
        "vs \<noteq> []" "text_at vs" "map text_row_of vs" None]
    by (simp add: text_at_def)
qed

definition text_reader :: "int list \<Rightarrow> int list ResultTableReader" where
  "text_reader vs = new_reader (text_connection vs) 0 0 16 ''q'' None\<lparr>rt_use_prepared_protocol := False\<rparr>"

theorem text_query_loses_first_row_witness:
  "\<exists>schema r'. start_query text_demo (text_reader [5, 7]) = (Inr (Some schema), r') \<and>
    delivers text_demo [text_row_of 7] None (rt_conn r')"
proof -
  have a: "Advance text_demo (text_connection [5, 7]) = (Inr True, text_at [5, 7])"
    using text_Advance [of "text_connection [5, 7]" "[5, 7]"] by simp
  have q: "mysql_query text_demo s m = (False, m)" "mysql_use_result text_demo m = (True, m)"
    "mysql_num_fields text_demo m = 1" for s m
    by (simp_all add: text_demo_def)
  have c: "(text_connection [5, 7])\<lparr>c_use_binary_protocol := False, c_conn := c_conn (text_connection [5, 7]), c_res := True\<rparr> =
      text_connection [5, 7]"
    by (simp add: text_connection_def new_S2Connection_def)
  have s: "\<exists>schema. GetRowSchema text_demo False (text_at [5, 7]) = (Inr schema, text_at [5, 7])"
    by (simp add: GetRowSchema_def act_simps text_at_def text_connection_def new_S2Connection_def demo_field_def
        Let_def text_demo_def demo_mysql_def)
  have r: "\<not> rt_use_prepared_protocol (text_reader [5, 7])" "fst (rt_error (text_reader [5, 7])) = 0"
    "rt_query (text_reader [5, 7]) = ''q''" "rt_conn (text_reader [5, 7]) = text_connection [5, 7]"
    by (simp_all add: text_reader_def new_reader_def)
  have d: "delivers text_demo (text_row_of 5 # [text_row_of 7]) None (text_at [5, 7])"
    using text_delivers [of "[5, 7]"] by simp
  from s obtain schema where "GetRowSchema text_demo False (text_at [5, 7]) = (Inr schema, text_at [5, 7])" by blast
  from text_query_loses_first_row [OF r(1,2) q(1,2) _ _ d this, unfolded r(4) c, OF _ a] q(3) show ?thesis by auto
qed


section \<open>Producers and readers\<close>

lemma or_set_error_Some:
  assumes "or_set_error cb m (give None) cl = (Inr (Some a), cl')"
  shows "m cl = (Inr (Some a), cl')"
  using assms
  by (auto simp: or_set_error_def handle_def andThen_Inr_iff give_def split: prod.splits sum.splits fault.splits)

lemma streaming_queues_result:
  assumes "streaming_queues capacity n True cl = (Inr (parts, queues, pc), cl')"
  shows "WorkerPartitions (sint (cl_numWorkers cl)) (sint (cl_workerId cl)) (sint (cl_numPartitions cl)) = Inr parts"
    "consumer_queues (\<lambda>ps. ThreadSafeSimpleQueue capacity (of_nat (length ps))) n parts [0..n - 1]
       (replicate (unat (cl_numPartitions cl)) (- 1)) = Inr (queues, pc)" "cl' = cl"
  using assms by (auto simp: streaming_queues_def act_simps split: sum.splits prod.splits)

lemma parallel_readers_result:
  assumes "parallel_readers my inits cb t q rt cols sz creds parts queues pc schema cl = (Inr (Some Q), cl')"
  obtains readers where
    "list_all2 (\<lambda>p r. \<exists>c k q. queue_index (length queues) pc p = Inr k \<and> r = new_reader c k (word_of_int p) sz q (Some schema))
       parts readers"
    "Q = new_streaming creds t q rt queues pc (Some schema) readers"
  using assms
  by (auto simp: parallel_readers_def andThen_Inr_iff give_def split: option.splits dest!: create_readers_result)

lemma CreateStreamingQueue_parallel:
  assumes "CreateStreamingQueue my inits h t q rt cols capacity sz n True prep cb cl = Some (Inr (Some Q), cl')"
  obtains parts where
    "WorkerPartitions (sint (cl_numWorkers cl)) (sint (cl_workerId cl)) (sint (cl_numPartitions cl)) = Inr parts"
    "consumer_queues (\<lambda>ps. ThreadSafeSimpleQueue capacity (of_nat (length ps))) n parts [0..n - 1]
       (replicate (unat (cl_numPartitions cl)) (- 1)) = Inr (cq_consumer_queues Q, cq_partition_consumer Q)"
    "list_all2 (\<lambda>p r. \<exists>c k q. queue_index (length (cq_consumer_queues Q)) (cq_partition_consumer Q) p = Inr k \<and>
        r = new_reader c k (word_of_int p) sz q (cq_row_schema Q)) parts (cq_readers Q)"
proof -
  obtain creds parts queues pc cl0 where a:
    "streaming_queues capacity n True cl = (Inr (parts, queues, pc), cl0)"
    "(case ExplainRowSchema my q (cl_conn cl) of
        None \<Rightarrow> None
      | Some (x, c) \<Rightarrow>
          Some (andThen (or_set_error cb (andThen (lift x) (\<lambda>s. give (Some s))) (give None)) (\<lambda>schema.
            case schema of
              None \<Rightarrow> give None
            | Some s \<Rightarrow> parallel_readers my inits cb t q rt cols sz creds parts queues pc s) (cl\<lparr>cl_conn := c\<rparr>)))
      = Some (Inr (Some Q), cl')"
    using assms
    by (auto simp: CreateStreamingQueue_def act_simps split: sum.splits prod.splits)
  then obtain schema cl1 where "parallel_readers my inits cb t q rt cols sz creds parts queues pc schema cl1 = (Inr (Some Q), cl')"
    by (auto simp: andThen_Inr_iff give_def split: option.splits)
  then obtain readers where r:
    "list_all2 (\<lambda>p r. \<exists>c k q. queue_index (length queues) pc p = Inr k \<and> r = new_reader c k (word_of_int p) sz q (Some schema))
       parts readers"
    "Q = new_streaming creds t q rt queues pc (Some schema) readers"
    by (rule parallel_readers_result)
  note s = streaming_queues_result [OF a(1)]
  show thesis
    by (rule that [OF s(1)]) (use r s(2) in \<open>simp_all add: new_streaming_def\<close>)
qed


text \<open>The partitions of a worker fit its client's map.\<close>

lemma sint_nonneg: "0 \<le> sint (w :: u32) \<Longrightarrow> sint w = uint w"
  using sint_lt [of w] by (simp add: uint_sint take_bit_int_eq_self)

lemma worker_partitions_in_range:
  "\<forall>p \<in> set (filter (\<lambda>p. p mod m = w) [0..sint (k :: u32) - 1]). 0 \<le> p \<and> nat p < unat k"
proof
  fix p assume "p \<in> set (filter (\<lambda>p. p mod m = w) [0..sint k - 1])"
  then have p: "0 \<le> p" "p < sint k" by auto
  then have "sint k = uint k" by (intro sint_nonneg) simp
  with p have "nat p < nat (uint k)" by (simp only: nat_less_eq_zless)
  with p(1) show "0 \<le> p \<and> nat p < unat k" unfolding unat_eq_nat_uint by blast
qed

lemma streaming_producers:
  assumes "CreateStreamingQueue my inits h t q rt cols capacity sz n True prep cb cl = Some (Inr (Some Q), cl')"
    and "0 < n" "n \<le> INT_MAX" "0 < sint (cl_numWorkers cl)"
    and "0 \<le> sint (cl_workerId cl)" "sint (cl_workerId cl) < sint (cl_numWorkers cl)"
    and "sint (cl_numPartitions cl) + sint (cl_numWorkers cl) \<le> INT_MAX + 1"
  shows "length (cq_consumer_queues Q) = nat n \<and> (\<forall>r \<in> set (cq_readers Q). rt_queue r < nat n) \<and>
    (\<forall>i < nat n. cq_consumer_queues Q ! i =
      ThreadSafeSimpleQueue capacity (of_nat (length (filter (\<lambda>r. rt_queue r = i) (cq_readers Q))))) \<and>
    map rt_partition (cq_readers Q) =
      map word_of_int (filter (\<lambda>p. p mod sint (cl_numWorkers cl) = sint (cl_workerId cl))
        [0..sint (cl_numPartitions cl) - 1])"
proof -
  let ?parts = "filter (\<lambda>p. p mod sint (cl_numWorkers cl) = sint (cl_workerId cl)) [0..sint (cl_numPartitions cl) - 1]"
  obtain parts where p: "WorkerPartitions (sint (cl_numWorkers cl)) (sint (cl_workerId cl)) (sint (cl_numPartitions cl)) = Inr parts"
    and q: "consumer_queues (\<lambda>ps. ThreadSafeSimpleQueue capacity (of_nat (length ps))) n parts [0..n - 1]
       (replicate (unat (cl_numPartitions cl)) (- 1)) = Inr (cq_consumer_queues Q, cq_partition_consumer Q)"
    and r: "list_all2 (\<lambda>p r. \<exists>c k q. queue_index (length (cq_consumer_queues Q)) (cq_partition_consumer Q) p = Inr k \<and>
        r = new_reader c k (word_of_int p) sz q (cq_row_schema Q)) parts (cq_readers Q)"
    using CreateStreamingQueue_parallel [OF assms(1)] .
  have parts: "parts = ?parts" using p WorkerPartitions_eq [OF assms(4-7)] by simp
  have d: "distinct parts" and in_range: "\<forall>p \<in> set parts. 0 \<le> p \<and> nat p < unat (cl_numPartitions cl)"
    using worker_partitions_in_range unfolding parts by (simp, blast)
  note rq = readers_and_queues [OF assms(2,3) d in_range q r]
  have "length (filter (\<lambda>r. rt_queue r = i) (cq_readers Q)) = length (consumer_loop (nat n) i parts)" if "i < nat n" for i
    using rq(4) [OF that] by (metis length_map)
  with rq(1,2,3,5) show ?thesis unfolding parts by simp
qed

text \<open>C9. The queue of a parallel read: there is one reader per partition of the worker, every reader
  pushes to the queue of an existing consumer, and the queue of a consumer is created for exactly as
  many producers as readers push to it. As every reader unregisters exactly once, a consumer sees
  the end of its data when its readers are done, and not before.
\<close>

theorem streaming_producers_match_readers:
  assumes "CreateStreamingQueue my inits h t q rt cols capacity sz n True prep cb cl = Some (Inr (Some Q), cl')"
    and "0 < n" "n \<le> INT_MAX" "0 < sint (cl_numWorkers cl)"
    and "0 \<le> sint (cl_workerId cl)" "sint (cl_workerId cl) < sint (cl_numWorkers cl)"
    and "sint (cl_numPartitions cl) + sint (cl_numWorkers cl) \<le> INT_MAX + 1"
  shows "length (cq_consumer_queues Q) = nat n \<and> (\<forall>r \<in> set (cq_readers Q). rt_queue r < nat n) \<and>
    (\<forall>i < nat n. cq_consumer_queues Q ! i =
      ThreadSafeSimpleQueue capacity (of_nat (length (filter (\<lambda>r. rt_queue r = i) (cq_readers Q))))) \<and>
    map rt_partition (cq_readers Q) =
      map word_of_int (filter (\<lambda>p. p mod sint (cl_numWorkers cl) = sint (cl_workerId cl))
        [0..sint (cl_numPartitions cl) - 1])"
  by (rule streaming_producers [OF assms])


text \<open>A client of three partitions whose server answers with a plan and then with no aggregators.\<close>

definition example_plan_text :: string where
  "example_plan_text = plan_text ''ResultTable tmp'' [(''a'', BigintDecl 20)] ''''"

text \<open>Servers that answer queries like the catalog server, whatever they do with statements.\<close>

definition answers_like_catalog :: "text_row list list mysql \<Rightarrow> bool" where
  "answers_like_catalog my \<longleftrightarrow>
     (\<forall>q m. mysql_query my q m = (False, m)) \<and> (\<forall>r rs. mysql_store_result my (r # rs) = (Some r, rs)) \<and>
     (\<forall>h u p d port m. mysql_real_connect my h u p d port m = (True, m)) \<and>
     (\<forall>m. mysql_stmt_init my m = (True, m)) \<and> (\<forall>ca m. mysql_set_ssl my ca m = m) \<and> uninitialised my = 0"

lemma catalog_answers [simp]: "answers_like_catalog catalog_mysql"
  by (simp add: answers_like_catalog_def) (simp add: catalog_mysql_def)

definition example_schema :: RowSchema where
  "example_schema = [\<lparr>col_type = Int64, col_size = 8, col_name = ''a''\<rparr>]"

lemma example_explain:
  assumes "answers_like_catalog my"
  shows "ExplainRowSchema my q (catalog_connection ([[Some example_plan_text]] # rs)) =
    Some (Inr example_schema, catalog_connection rs)"
proof -
  have "ExplainToRowSchema 0 (plan_text ''ResultTable tmp'' [(''a'', BigintDecl 20)] '''') =
      Some (Inr (map (field_column 0) [(''a'', BigintDecl 20)]))"
    by (rule plan_columns)
       (simp_all add: field_ok_def plan_text_def field_text_def field_body_def QuotedName_def quoted_def sized_def
          nat_to_string_20)
  then have e: "ExplainToRowSchema 0 example_plan_text = Some (Inr example_schema)"
    by (simp add: example_plan_text_def field_column_def backtick_def example_schema_def)
  have s: "strncmp_eq example_plan_text ''ResultTable'' 11"
    by (simp add: strncmp_eq_def example_plan_text_def plan_text_def cstr_def)
  have "example_schema \<noteq> []" by (simp add: example_schema_def)
  with e s assms show ?thesis
    by (simp add: ExplainRowSchema_def query_def store_result_def act_simps call_def Let_def
        catalog_connection_def new_S2Connection_def string_at_def row_at_def starts_result_table_def
        answers_like_catalog_def)
qed

definition example_client :: "text_row list list \<Rightarrow> text_row list list S2Client" where
  "example_client m =
     \<lparr>cl_numPartitions = 3, cl_serverVersion = ''7.8'', cl_workerId = 0, cl_numWorkers = 1,
      cl_conn = catalog_connection m, cl_chunk_reader = SuperChunkReader (NewChunk [] 0 0 0) [],
      cl_error = (0, ''''), cl_reports = []\<rparr>"


text \<open>Two consumers: the first has the partitions 0 and 2, the second has partition 1.\<close>

lemma example_creation:
  assumes "answers_like_catalog my"
  shows "\<exists>Q cl' qry. CreateStreamingQueue my (\<lambda>p. (Some (hs p), None)) None (Some ''t'') ''q'' ReadTypeOriginalTable [] 4 16 2
      True True True (example_client [[[Some example_plan_text]], []]) = Some (Inr (Some Q), cl') \<and>
    filter (\<lambda>r. rt_queue r = 1) (cq_readers Q) =
      [new_reader (catalog_connection (hs 1)\<lparr>c_stmt := True\<rparr>) 1 1 16 qry (Some example_schema)]"
proof -
  have w: "WorkerPartitions 1 0 3 = Inr [0, 1, 2]"
    using WorkerPartitions_eq [of 1 0 3] by (simp add: INT_MAX_def upto.simps)
  have c: "ConsumerPartitions 2 0 [0, 1, 2] = Inr [0, 2]" "ConsumerPartitions 2 1 [0, 1, 2] = Inr [1]"
    by (simp_all add: ConsumerPartitions_eq INT_MAX_def consumer_loop.simps numeral_2_eq_2)
  have q: "streaming_queues 4 2 True (example_client m) =
      (Inr ([0, 1, 2], [ThreadSafeSimpleQueue 4 2, ThreadSafeSimpleQueue 4 1], [0, 1, 0]), example_client m)" for m
  proof -
    have "replicate 3 (- 1 :: int) = [- 1, - 1, - 1]" by (simp add: numeral_3_eq_3)
    with w c show ?thesis by (simp add: streaming_queues_def act_simps example_client_def upto.simps)
  qed
  let ?creds = "\<lparr>cred_host = ''h'', cred_port = 3306, cred_db = ''d'',
      cred_user = ''u'', cred_password = ''p'', cred_ssl_ca = None\<rparr>"
  have cr: "client_credentials (example_client m) = Inr ?creds" for m
    by (simp add: client_credentials_def example_client_def catalog_connection_def new_S2Connection_def)
  have r: "\<exists>Q cl' qry. parallel_readers my (\<lambda>p. (Some (hs p), None)) True (Some ''t'') ''q'' ReadTypeOriginalTable [] 16
      ?creds [0, 1, 2] [ThreadSafeSimpleQueue 4 2, ThreadSafeSimpleQueue 4 1] [0, 1, 0] schema (example_client [[]]) =
      (Inr (Some Q), cl') \<and> filter (\<lambda>r. rt_queue r = 1) (cq_readers Q) =
      [new_reader (catalog_connection (hs 1)\<lparr>c_stmt := True\<rparr>) 1 1 16 qry (Some schema)]" for schema
    using assms [unfolded answers_like_catalog_def]
    by (simp add: parallel_readers_def or_set_error_def act_simps with_conn_def GetAggregators_def query_def
        store_result_def call_def Let_def example_client_def catalog_connection_def new_S2Connection_def
        streaming_readQuery_def MakeReadOriginalTableQuery_def FillCredentials_def queue_index_def
        create_reader_def CreateTableReader_def Connect_creds_def Connect_def numeral_2_eq_2
        new_streaming_def new_reader_def)
  have e: "ExplainRowSchema my ''q'' (cl_conn (example_client [[[Some example_plan_text]], []])) =
      Some (Inr example_schema, catalog_connection [[]])"
    using example_explain [OF assms, of "''q''" "[[]]"] by (simp add: example_client_def)
  have cl: "example_client m\<lparr>cl_conn := catalog_connection m'\<rparr> = example_client m'" for m m'
    by (simp add: example_client_def)
  show ?thesis
    using r [of example_schema] q cr e cl by (simp add: CreateStreamingQueue_def act_simps or_set_error_def)
qed

theorem streaming_producers_match_readers_witness:
  "\<exists>Q cl'. CreateStreamingQueue catalog_mysql (\<lambda>p. (Some [], None)) None (Some ''t'') ''q'' ReadTypeOriginalTable [] 4 16 2
      True True True (example_client [[[Some example_plan_text]], []]) = Some (Inr (Some Q), cl') \<and>
    map rt_partition (cq_readers Q) = [0, 1, 2] \<and> length (cq_consumer_queues Q) = 2"
proof -
  obtain Q cl' where Q: "CreateStreamingQueue catalog_mysql (\<lambda>p. (Some [], None)) None (Some ''t'') ''q''
      ReadTypeOriginalTable [] 4 16 2 True True True (example_client [[[Some example_plan_text]], []]) =
      Some (Inr (Some Q), cl')" using example_creation [OF catalog_answers, of "\<lambda>p. []"] by blast
  from streaming_producers_match_readers [OF this] have
    "length (cq_consumer_queues Q) = 2" "map rt_partition (cq_readers Q) = [0, 1, 2]"
    by (simp_all add: example_client_def INT_MAX_def upto.simps)
  with Q show ?thesis by (intro exI [of _ Q] exI [of _ cl'] conjI)
qed

end
