(* ===== verification/MultiPassQueue.thy ===== *)
theory MultiPassQueue
  imports StreamingQueue BatchProtocol
begin

text \<open>
  The queue for multi-pass reading (\<^verbatim>\<open>queue/multi_pass_queue.cpp\<close>): one batch queue per consumer, and
  for every consumer thread a connection of its own for reading single rows. The writer of a thread
  keeps nothing between two uses, so it is not part of the state.
\<close>

section \<open>The object\<close>

text \<open>
  \<open>mp_consumers\<close> are the connections of the consumer threads, \<open>None\<close> for NULL;
  \<open>mp_consumer_threads_num\<close> is \<open>None\<close> while it is uninitialised.
\<close>

record 'm MultiPassQueue = "('m, BatchQueue) ChunkQueue" +
  mp_consumers :: "'m S2Connection option list"
  mp_consumer_threads_num :: "int option"
  mp_serverVersion :: string

section \<open>Creating the queue\<close>

definition multi_readQuery ::
  "ParallelReadType \<Rightarrow> string \<Rightarrow> string \<Rightarrow> string \<Rightarrow> string list \<Rightarrow> string list \<Rightarrow> int \<Rightarrow>
   ('m S2Client, string option) act" where
  "multi_readQuery readType resultTableName selectQuery keyColumnName srt partitionOrderByCols p =
     (case readType of
        ReadTypeResultTable \<Rightarrow>
          andThen (look cl_serverVersion) (\<lambda>v.
          andThen (lift (MakeReadResultTableQuery resultTableName (word_of_int p) v)) (\<lambda>q. give (Some q)))
      | ReadTypeColumnStoreTable \<Rightarrow>
          give (Some (MakeReadColumnStoreTableQuery resultTableName keyColumnName partitionOrderByCols (word_of_int p)))
      | ReadTypeOriginalTable \<Rightarrow>
          andThen (lift (MakeReadOriginalTableQuery selectQuery (Some srt) partitionOrderByCols (word_of_int p))) (\<lambda>q.
          give (Some q))
      | ReadTypeUnknown \<Rightarrow> give None)"

text \<open>The object once its readers are created; the slots of the threads are left out when there is no reader.\<close>

definition new_multi_pass ::
  "Credentials \<Rightarrow> string \<Rightarrow> string \<Rightarrow> string \<Rightarrow> ParallelReadType \<Rightarrow> string \<Rightarrow> BatchQueue list \<Rightarrow> int list \<Rightarrow> int \<Rightarrow>
   RowSchema \<Rightarrow> AggregatorNode list \<Rightarrow> 'm ResultTableReader list \<Rightarrow> 'm MultiPassQueue" where
  "new_multi_pass creds resultTableName selectQuery keyColumnName readType version queues pc nConsumers schema aggs readers =
     \<lparr>cq_row_schema = Some schema, cq_error_before_read = False, cq_error = (0, ''''),
      cq_result_table = resultTableName, cq_query = selectQuery,
      cq_key_column = keyColumnName, cq_read_type = readType, cq_readers = readers, cq_credentials = creds,
      cq_aggregators = aggs, cq_consumer_queues = queues, cq_partition_consumer = pc,
      mp_consumers = (if readers = [] then [] else replicate (nat nConsumers) None),
      mp_consumer_threads_num = (if readers = [] then None else Some nConsumers), mp_serverVersion = version\<rparr>"

definition multi_queues :: "u32 \<Rightarrow> int \<Rightarrow> ('m S2Client, int list \<times> BatchQueue list \<times> int list) act" where
  "multi_queues capacity nConsumers =
     andThen (look (\<lambda>cl. WorkerPartitions (sint (cl_numWorkers cl)) (sint (cl_workerId cl))
        (sint (cl_numPartitions cl)))) (\<lambda>partitions.
     andThen (lift partitions) (\<lambda>parts.
     andThen (look cl_numPartitions) (\<lambda>n.
     andThen (lift (consumer_queues (ThreadSafeBatchQueue capacity) nConsumers parts [0..nConsumers - 1]
        (replicate (unat n) (- 1)))) (\<lambda>(queues, pc).
     give (parts, queues, pc)))))"

text \<open>The part after the row schema is known. The keys of the source table are read outside any \<^verbatim>\<open>try\<close>.\<close>

definition multi_readers ::
  "'m mysql \<Rightarrow> (int \<Rightarrow> 'm option \<times> 'm option) \<Rightarrow> bool \<Rightarrow> string \<Rightarrow> string \<Rightarrow> string option \<Rightarrow> string \<Rightarrow>
   ParallelReadType \<Rightarrow> string list \<Rightarrow> u64 \<Rightarrow> int \<Rightarrow> Credentials \<Rightarrow> int list \<Rightarrow> BatchQueue list \<Rightarrow> int list \<Rightarrow> RowSchema \<Rightarrow>
   ('m S2Client, 'm MultiPassQueue option) act" where
  "multi_readers my inits cb resultTableName selectQuery sourceTable keyColumnName readType orderCols chunkSize
     nConsumers creds parts queues pc schema =
     andThen (or_set_error cb (andThen (with_conn (GetAggregators my)) (\<lambda>a. give (Some a))) (give None)) (\<lambda>aggs.
     case aggs of
       None \<Rightarrow> give None
     | Some as \<Rightarrow>
         andThen (if readType = ReadTypeOriginalTable
           then (case sourceTable of
              None \<Rightarrow> throw UndefinedBehaviour
            | Some t \<Rightarrow> andThen (with_conn (GetTableKeys my t)) (\<lambda>keys. give (sort_key keys)))
           else give []) (\<lambda>srt.
         andThen (create_readers my inits cb
             (multi_readQuery readType resultTableName selectQuery keyColumnName srt orderCols)
             as creds (length queues) pc (Some schema) chunkSize creds parts) (\<lambda>readers.
         andThen (look cl_serverVersion) (\<lambda>version.
         give (map_option (new_multi_pass creds resultTableName selectQuery keyColumnName readType version queues pc
           nConsumers schema as) readers)))))"

definition CreateMultiPassQueue ::
  "'m mysql \<Rightarrow> (int \<Rightarrow> 'm option \<times> 'm option) \<Rightarrow> string \<Rightarrow> string \<Rightarrow> string option \<Rightarrow> string \<Rightarrow> ParallelReadType \<Rightarrow>
   string list \<Rightarrow> u32 \<Rightarrow> u64 \<Rightarrow> int \<Rightarrow> bool \<Rightarrow> 'm S2Client \<Rightarrow>
   ((fault + 'm MultiPassQueue option) \<times> 'm S2Client) option" where
  "CreateMultiPassQueue my inits resultTableName selectQuery sourceTable keyColumnName readType partitionOrderByCols
     capacity chunkSize nConsumers cb cl =
     (case (andThen (look client_credentials) (\<lambda>creds. andThen (lift creds) (\<lambda>creds.
            andThen (multi_queues capacity nConsumers) (\<lambda>qs. give (creds, qs))))) cl of
        (Inl e, cl') \<Rightarrow> Some (Inl e, cl')
      | (Inr (creds, parts, queues, pc), _) \<Rightarrow>
          (case ExplainRowSchema my selectQuery (cl_conn cl) of
             None \<Rightarrow> None
           | Some (x, c) \<Rightarrow>
               Some (andThen (or_set_error cb (andThen (lift x) (\<lambda>s. give (Some s))) (give None)) (\<lambda>schema.
                 case schema of
                   None \<Rightarrow> give None
                 | Some s \<Rightarrow> multi_readers my inits cb resultTableName selectQuery sourceTable keyColumnName readType
                     partitionOrderByCols chunkSize nConsumers creds parts queues pc s) (cl\<lparr>cl_conn := c\<rparr>))))"

section \<open>Chunks of an earlier pass\<close>

text \<open>
  One section of \<^verbatim>\<open>GetById\<close>; \<open>again\<close> when the thread goes on after a wait. A partition of another worker
  has consumer -1, which is no index.
\<close>

definition multi_GetById :: "bool \<Rightarrow> int \<Rightarrow> int \<Rightarrow> 'm MultiPassQueue \<Rightarrow>
  (Chunk option \<times> nat \<times> string) outcome \<times> 'm MultiPassQueue \<times> notice list" where
  "multi_GetById again partitionId chunkId Q =
     (if 0 \<le> partitionId \<and> nat partitionId < length (cq_partition_consumer Q) then
        section_of batch_sec (if again then QGetLoop partitionId chunkId else QGet partitionId chunkId)
          (cq_partition_consumer Q ! nat partitionId) Q
      else (Throw UndefinedBehaviour, Q, []))"

section \<open>Single rows\<close>

text \<open>
  The connection of a thread: an error for the caller, or the one it has, or a new one. The code of
  a failed connection is 0 only when the client library reports no error; the code then goes on
  with NULL.
\<close>

definition thread_connection ::
  "'m mysql \<Rightarrow> 'm option \<Rightarrow> 'm option \<Rightarrow> u32 \<Rightarrow> int \<Rightarrow> 'm MultiPassQueue \<Rightarrow> fault + ((nat \<times> string) + 'm S2Connection)" where
  "thread_connection my h1 h2 partitionId threadId Q =
     (case mp_consumer_threads_num Q of
        None \<Rightarrow> Inl UndefinedBehaviour
      | Some n \<Rightarrow>
          if n \<le> threadId then
            Inr (Inl (S2C_ERROR_INV_ARG, ''threadId '' @ int_to_string threadId @ '' is too large''))
          else if threadId < 0 \<or> length (mp_consumers Q) \<le> nat threadId then Inl UndefinedBehaviour
          else case mp_consumers Q ! nat threadId of
            Some c \<Rightarrow> Inr (Inr c)
          | None \<Rightarrow>
              and_then (ConnectWithRetryMA my h1 h2
                  (FillCredentials (cq_aggregators Q) (sint partitionId) (cq_credentials Q)) (cq_credentials Q)) (\<lambda>x.
              case x of
                Inr c \<Rightarrow> Inr (Inr c)
              | Inl err \<Rightarrow> if fst err \<noteq> 0 then Inr (Inl err) else Inl UndefinedBehaviour))"

definition put_connection :: "int \<Rightarrow> 'm S2Connection \<Rightarrow> 'm MultiPassQueue \<Rightarrow> 'm MultiPassQueue" where
  "put_connection threadId c Q = Q\<lparr>mp_consumers := (mp_consumers Q)[nat threadId := Some c]\<rparr>"

text \<open>The \<^verbatim>\<open>try\<close> around the call of the connection: the chunk, or \<^verbatim>\<open>nullptr\<close> and the error.\<close>

definition row_answer ::
  "int \<Rightarrow> 'm MultiPassQueue \<Rightarrow> (fault + Chunk) \<times> 'm S2Connection \<Rightarrow>
   (fault + Chunk option \<times> nat \<times> string) \<times> 'm MultiPassQueue" where
  "row_answer threadId Q r =
     (case r of (x, c) \<Rightarrow>
        (case x of
           Inr ch \<Rightarrow> Inr (Some ch, 0, '''')
         | Inl (S2ClientError code msg) \<Rightarrow> Inr (None, code, msg)
         | Inl e \<Rightarrow> Inl e, put_connection threadId c Q))"

definition multi_GetSingleRow ::
  "'m mysql \<Rightarrow> 'm option \<Rightarrow> 'm option \<Rightarrow> (u64 \<Rightarrow> u8 list option) \<Rightarrow> u32 \<Rightarrow> i64 \<Rightarrow> int \<Rightarrow> 'm MultiPassQueue \<Rightarrow>
   (fault + Chunk option \<times> nat \<times> string) \<times> 'm MultiPassQueue" where
  "multi_GetSingleRow my h1 h2 alloc partitionId rowId threadId Q =
     (case (thread_connection my h1 h2 partitionId threadId Q, cq_row_schema Q) of
        (Inl e, _) \<Rightarrow> (Inl e, Q)
      | (Inr (Inl err), _) \<Rightarrow> (Inr (None, err), Q)
      | (Inr (Inr c), None) \<Rightarrow> (Inl UndefinedBehaviour, Q)
      | (Inr (Inr c), Some schema) \<Rightarrow>
          row_answer threadId Q (GetSingleRow my alloc schema (cq_result_table Q) (cq_query Q) (cq_key_column Q)
            partitionId rowId (cq_read_type Q) (mp_serverVersion Q) c))"

text \<open>
  \<open>None\<close> when reading the rows does not end. The number of keys, an \<^verbatim>\<open>int64_t\<close> that is passed on as an
  \<^verbatim>\<open>int\<close>, is the length of the list: arrays of \<open>2 ^ 31\<close> keys or more are left aside.
\<close>

definition multi_GetMultipleRows ::
  "'m mysql \<Rightarrow> 'm option \<Rightarrow> 'm option \<Rightarrow> (u64 \<Rightarrow> u8 list option) \<Rightarrow> u64 \<Rightarrow> u32 \<Rightarrow> i64 list \<Rightarrow> int \<Rightarrow> 'm MultiPassQueue \<Rightarrow>
   ((fault + Chunk option \<times> nat \<times> string) \<times> 'm MultiPassQueue) option" where
  "multi_GetMultipleRows my h1 h2 alloc chunkSize partitionId rowIds threadId Q =
     (case (thread_connection my h1 h2 partitionId threadId Q, cq_row_schema Q) of
        (Inl e, _) \<Rightarrow> Some (Inl e, Q)
      | (Inr (Inl err), _) \<Rightarrow> Some (Inr (None, err), Q)
      | (Inr (Inr c), schema) \<Rightarrow>
          (case (alloc chunkSize, schema) of
             (None, _) \<Rightarrow> Some (Inr (None, S2C_ERROR_MEMORY_ALLOCATION,
               ''GetMultipleRows cannot allocate chunk size: '' @ nat_to_string (unat chunkSize)),
               put_connection threadId c Q)
           | (Some ptr, None) \<Rightarrow> Some (Inl UndefinedBehaviour, Q)
           | (Some ptr, Some s) \<Rightarrow>
               map_option (row_answer threadId Q)
                 (GetMultipleRows my (NewChunk ptr chunkSize 0 partitionId) s (cq_result_table Q) (cq_query Q)
                   (cq_key_column Q) partitionId rowIds (cq_read_type Q) c)))"


section \<open>The destructor\<close>

text \<open>
  The readers are stopped, and every consumer's batch queue is freed when the reading has started:
  \<open>free_section\<close> is what \<^verbatim>\<open>FreeBatchData\<close> does until it waits for a reader.
\<close>

definition free_multi_pass :: "'m MultiPassQueue \<Rightarrow>
  ((bool, BatchQueue) section_result \<times> Chunk list) option list \<times> 'm MultiPassQueue" where
  "free_multi_pass Q =
     (let Q' = StopReaders Q in
      (map (\<lambda>q. if cq_error_before_read Q' then Some ((Return True, q, []), []) else free_section q)
         (cq_consumer_queues Q'), Q'))"

section \<open>Producers and readers\<close>

lemma multi_queues_result:
  assumes "multi_queues capacity n cl = (Inr (parts, queues, pc), cl')"
  shows "WorkerPartitions (sint (cl_numWorkers cl)) (sint (cl_workerId cl)) (sint (cl_numPartitions cl)) = Inr parts"
    "consumer_queues (ThreadSafeBatchQueue capacity) n parts [0..n - 1] (replicate (unat (cl_numPartitions cl)) (- 1)) =
       Inr (queues, pc)" "cl' = cl"
  using assms by (auto simp: multi_queues_def act_simps split: sum.splits prod.splits)

lemma multi_readers_result:
  assumes "multi_readers my inits cb t q src k rt cols sz n creds parts queues pc schema cl = (Inr (Some Q), cl')"
  obtains readers version as where
    "list_all2 (\<lambda>p r. \<exists>c k q. queue_index (length queues) pc p = Inr k \<and> r = new_reader c k (word_of_int p) sz q (Some schema))
       parts readers"
    "Q = new_multi_pass creds t q k rt version queues pc n schema as readers"
  using assms
  by (auto simp: multi_readers_def andThen_Inr_iff give_def look_def split: option.splits dest!: create_readers_result)

lemma CreateMultiPassQueue_parts:
  assumes "CreateMultiPassQueue my inits t q src k rt cols capacity sz n cb cl = Some (Inr (Some Q), cl')"
  obtains parts where
    "WorkerPartitions (sint (cl_numWorkers cl)) (sint (cl_workerId cl)) (sint (cl_numPartitions cl)) = Inr parts"
    "consumer_queues (ThreadSafeBatchQueue capacity) n parts [0..n - 1] (replicate (unat (cl_numPartitions cl)) (- 1)) =
       Inr (cq_consumer_queues Q, cq_partition_consumer Q)"
    "list_all2 (\<lambda>p r. \<exists>c k q. queue_index (length (cq_consumer_queues Q)) (cq_partition_consumer Q) p = Inr k \<and>
        r = new_reader c k (word_of_int p) sz q (cq_row_schema Q)) parts (cq_readers Q)"
proof -
  obtain creds parts queues pc cl0 where a:
    "multi_queues capacity n cl = (Inr (parts, queues, pc), cl0)"
    "(case ExplainRowSchema my q (cl_conn cl) of
        None \<Rightarrow> None
      | Some (x, c) \<Rightarrow>
          Some (andThen (or_set_error cb (andThen (lift x) (\<lambda>s. give (Some s))) (give None)) (\<lambda>schema.
            case schema of
              None \<Rightarrow> give None
            | Some s \<Rightarrow> multi_readers my inits cb t q src k rt cols sz n creds parts queues pc s) (cl\<lparr>cl_conn := c\<rparr>)))
      = Some (Inr (Some Q), cl')"
    using assms
    by (auto simp: CreateMultiPassQueue_def act_simps split: sum.splits prod.splits)
  then obtain schema cl1 where
    "multi_readers my inits cb t q src k rt cols sz n creds parts queues pc schema cl1 = (Inr (Some Q), cl')"
    by (auto simp: andThen_Inr_iff give_def split: option.splits)
  then obtain readers version as where r:
    "list_all2 (\<lambda>p r. \<exists>c k q. queue_index (length queues) pc p = Inr k \<and> r = new_reader c k (word_of_int p) sz q (Some schema))
       parts readers"
    "Q = new_multi_pass creds t q k rt version queues pc n schema as readers"
    by (rule multi_readers_result)
  note s = multi_queues_result [OF a(1)]
  show thesis
    by (rule that [OF s(1)]) (use r s(2) in \<open>simp_all add: new_multi_pass_def\<close>)
qed

text \<open>
  The queue of a multi-pass read: the batch queue of every consumer is created for exactly the
  partitions whose readers push to it, each of them once and under the number it unregisters with,
  so the queue can run by the protocol of theory \<open>BatchProtocol\<close>.
\<close>

lemma multi_pass_producers:
  assumes "CreateMultiPassQueue my inits t q src k rt cols capacity sz n cb cl = Some (Inr (Some Q), cl')"
    and "0 < n" "n \<le> INT_MAX" "0 < sint (cl_numWorkers cl)"
    and "0 \<le> sint (cl_workerId cl)" "sint (cl_workerId cl) < sint (cl_numWorkers cl)"
    and "sint (cl_numPartitions cl) + sint (cl_numWorkers cl) \<le> INT_MAX + 1" "i < nat n"
  shows "\<exists>ids. cq_consumer_queues Q ! i = ThreadSafeBatchQueue capacity ids \<and> distinct ids \<and>
    map (\<lambda>r. sint (rt_partition r)) (filter (\<lambda>r. rt_queue r = i) (cq_readers Q)) = ids"
proof -
  let ?parts = "filter (\<lambda>p. p mod sint (cl_numWorkers cl) = sint (cl_workerId cl)) [0..sint (cl_numPartitions cl) - 1]"
  obtain parts where p: "WorkerPartitions (sint (cl_numWorkers cl)) (sint (cl_workerId cl)) (sint (cl_numPartitions cl)) = Inr parts"
    and c: "consumer_queues (ThreadSafeBatchQueue capacity) n parts [0..n - 1]
       (replicate (unat (cl_numPartitions cl)) (- 1)) = Inr (cq_consumer_queues Q, cq_partition_consumer Q)"
    and r: "list_all2 (\<lambda>p r. \<exists>c k q. queue_index (length (cq_consumer_queues Q)) (cq_partition_consumer Q) p = Inr k \<and>
        r = new_reader c k (word_of_int p) sz q (cq_row_schema Q)) parts (cq_readers Q)"
    using CreateMultiPassQueue_parts [OF assms(1)] .
  have parts: "parts = ?parts" using p WorkerPartitions_eq [OF assms(4-7)] by simp
  have d: "distinct parts" and in_range: "\<forall>p \<in> set parts. 0 \<le> p \<and> nat p < unat (cl_numPartitions cl)"
    using worker_partitions_in_range unfolding parts by (simp, blast)
  note rq = readers_and_queues [OF assms(2,3) d in_range c r]
  let ?ids = "consumer_loop (nat n) i parts"
  have sub: "0 \<le> p \<and> p < sint (cl_numPartitions cl)" if "p \<in> set ?ids" for p
    using that assms(8) unfolding parts by (auto simp: consumer_loop_set)
      (metis (no_types, lifting) nth_mem mem_Collect_eq set_filter atLeastAtMost_iff set_upto zle_diff1_eq)+
  have small: "sint (word_of_int p :: u32) = p" if "p \<in> set ?ids" for p
    using sub [OF that] sint_lt [of "cl_numPartitions cl"] by (simp add: int_word_sint)
  have "map (\<lambda>r. sint (rt_partition r)) (filter (\<lambda>r. rt_queue r = i) (cq_readers Q)) = map sint (map word_of_int ?ids :: u32 list)"
    unfolding rq(4) [OF assms(8), symmetric] by simp
  also have "\<dots> = ?ids" using small by (simp add: map_idI)
  finally have "map (\<lambda>r. sint (rt_partition r)) (filter (\<lambda>r. rt_queue r = i) (cq_readers Q)) = ?ids" .
  moreover have "distinct ?ids"
    using assms(8) d by (simp add: consumer_loop_from_start distinct_map inj_on_def nth_eq_iff_index_eq)
  ultimately show ?thesis using rq(3) [OF assms(8)] by blast
qed

text \<open>Asking for a chunk of a partition that belongs to another worker is undefined behaviour: the
  consumer it is looked up under is -1.
\<close>

theorem foreign_partition_undefined:
  assumes "0 \<le> p" "nat p < length (cq_partition_consumer Q)" "cq_partition_consumer Q ! nat p = - 1"
  shows "fst (multi_GetById again p chunkId Q) = Throw UndefinedBehaviour"
  using assms by (simp add: multi_GetById_def section_of_def)


text \<open>A thread number that is too large is answered with an error and changes nothing; a negative one
  passes the check and indexes the threads out of bounds.
\<close>

theorem thread_id_checked:
  assumes "mp_consumer_threads_num Q = Some n"
  shows "(n \<le> threadId \<longrightarrow> multi_GetSingleRow my h1 h2 alloc p rowId threadId Q =
      (Inr (None, S2C_ERROR_INV_ARG, ''threadId '' @ int_to_string threadId @ '' is too large''), Q)) \<and>
    (threadId < 0 \<and> threadId < n \<longrightarrow>
      fst (multi_GetSingleRow my h1 h2 alloc p rowId threadId Q) = Inl UndefinedBehaviour)"
  using assms by (simp add: multi_GetSingleRow_def thread_connection_def)

section \<open>Examples\<close>

definition example_creds :: Credentials where
  "example_creds = \<lparr>cred_host = ''h'', cred_port = 3306, cred_db = ''d'', cred_user = ''u'', cred_password = ''p'',
     cred_ssl_ca = None\<rparr>"

definition example_multi_pass :: "text_row list list MultiPassQueue" where
  "example_multi_pass = new_multi_pass example_creds ''t'' ''q'' ''k'' ReadTypeColumnStoreTable ''7.8''
     [ThreadSafeBatchQueue 4 [0]] [0, - 1] 1 [] [] [new_reader (catalog_connection []) 0 0 16 ''q'' None]"

theorem foreign_partition_undefined_witness:
  "fst (multi_GetById False 1 0 example_multi_pass) = Throw UndefinedBehaviour"
  by (rule foreign_partition_undefined) (simp_all add: example_multi_pass_def new_multi_pass_def)

theorem thread_id_checked_witness:
  "fst (multi_GetSingleRow catalog_mysql None None (\<lambda>n. None) 0 5 1 example_multi_pass) =
      Inr (None, S2C_ERROR_INV_ARG, ''threadId '' @ int_to_string 1 @ '' is too large'') \<and>
   fst (multi_GetSingleRow catalog_mysql None None (\<lambda>n. None) 0 5 (- 1) example_multi_pass) = Inl UndefinedBehaviour"
  using thread_id_checked [of example_multi_pass 1 1 catalog_mysql None None "\<lambda>n. None" 0 5]
    thread_id_checked [of example_multi_pass 1 "- 1" catalog_mysql None None "\<lambda>n. None" 0 5]
  by (simp add: example_multi_pass_def new_multi_pass_def)

lemma example_multi_creation:
  assumes "answers_like_catalog my"
  shows "\<exists>Q cl' qry. CreateMultiPassQueue my (\<lambda>p. (Some (hs p), None)) ''t'' ''q'' None ''k'' ReadTypeColumnStoreTable [] cap
      16 2 True (example_client [[[Some example_plan_text]], []]) = Some (Inr (Some Q), cl') \<and>
    filter (\<lambda>r. rt_queue r = 1) (cq_readers Q) =
      [new_reader (catalog_connection (hs 1)\<lparr>c_stmt := True\<rparr>) 1 1 16 qry (Some example_schema)]"
proof -
  have w: "WorkerPartitions 1 0 3 = Inr [0, 1, 2]"
    using WorkerPartitions_eq [of 1 0 3] by (simp add: INT_MAX_def upto.simps)
  have c: "ConsumerPartitions 2 0 [0, 1, 2] = Inr [0, 2]" "ConsumerPartitions 2 1 [0, 1, 2] = Inr [1]"
    by (simp_all add: ConsumerPartitions_eq INT_MAX_def consumer_loop.simps numeral_2_eq_2)
  have q: "multi_queues cap 2 (example_client m) =
      (Inr ([0, 1, 2], [ThreadSafeBatchQueue cap [0, 2], ThreadSafeBatchQueue cap [1]], [0, 1, 0]), example_client m)" for m
  proof -
    have "replicate 3 (- 1 :: int) = [- 1, - 1, - 1]" by (simp add: numeral_3_eq_3)
    with w c show ?thesis by (simp add: multi_queues_def act_simps example_client_def upto.simps)
  qed
  have cr: "client_credentials (example_client m) = Inr example_creds" for m
    by (simp add: client_credentials_def example_client_def catalog_connection_def new_S2Connection_def example_creds_def)
  have r: "\<exists>Q cl' qry. multi_readers my (\<lambda>p. (Some (hs p), None)) True ''t'' ''q'' None ''k'' ReadTypeColumnStoreTable []
      16 2 example_creds [0, 1, 2] queues [0, 1, 0] schema (example_client [[]]) = (Inr (Some Q), cl') \<and>
      filter (\<lambda>r. rt_queue r = 1) (cq_readers Q) =
      [new_reader (catalog_connection (hs 1)\<lparr>c_stmt := True\<rparr>) 1 1 16 qry (Some schema)]"
    if "length queues = 2" for schema and queues :: "BatchQueue list"
    using that assms [unfolded answers_like_catalog_def]
    by (simp add: multi_readers_def or_set_error_def act_simps with_conn_def GetAggregators_def query_def
        store_result_def call_def Let_def example_client_def catalog_connection_def new_S2Connection_def
        multi_readQuery_def FillCredentials_def queue_index_def
        create_reader_def CreateTableReader_def Connect_creds_def Connect_def numeral_2_eq_2
        new_multi_pass_def new_reader_def example_creds_def)
  have e: "ExplainRowSchema my ''q'' (cl_conn (example_client [[[Some example_plan_text]], []])) =
      Some (Inr example_schema, catalog_connection [[]])"
    using example_explain [OF assms, of "''q''" "[[]]"] by (simp add: example_client_def)
  have cl: "example_client m\<lparr>cl_conn := catalog_connection m'\<rparr> = example_client m'" for m m'
    by (simp add: example_client_def)
  show ?thesis
    using r [of "[ThreadSafeBatchQueue cap [0, 2], ThreadSafeBatchQueue cap [1]]" example_schema] q cr e cl by (simp add: CreateMultiPassQueue_def act_simps or_set_error_def)
qed

end
