(* ===== verification/ParallelRead.thy ===== *)
theory ParallelRead
  imports MultiPassQueue
begin

text \<open>
  The C interface of reading (\<^verbatim>\<open>parallel_read.cpp\<close>): what the controller calls before and after a
  read, what a worker calls to get a queue, and what its threads call to get chunks.
\<close>

section \<open>Before and after a read\<close>

text \<open>
  The part of \<^verbatim>\<open>ParallelReadInit\<close> after the read type is known. A materialized result table is reported
  as an error, but the statement that makes it is executed all the same.
\<close>

definition make_table ::
  "'m mysql \<Rightarrow> string \<Rightarrow> string \<Rightarrow> string \<Rightarrow> ParallelReadType \<Rightarrow> bool \<Rightarrow> string list \<Rightarrow> string list \<Rightarrow>
   ('m S2Client, unit) act" where
  "make_table my resultTableName selectQuery keyColumnName readType materialized partitionByCols partitionOrderByCols =
     (if readType = ReadTypeOriginalTable then give () else
      let tableType = (if readType = ReadTypeColumnStoreTable then RegularTable
                       else if materialized then AggResultTableMaterialized else AggResultTable) in
      andThen (if tableType = AggResultTableMaterialized
               then SetError S2C_ERROR_INV_ARG ''Cannot use Materialized Result Table'' False else give ()) (\<lambda>_.
      andThen (with_conn (ExecuteDDL my (MakeCreateTableQuery resultTableName selectQuery keyColumnName tableType
        partitionByCols partitionOrderByCols))) (\<lambda>_. give ())))"

text \<open>The read type is returned also when an error was caught: what was found, or else what was passed.\<close>

definition ParallelReadInit ::
  "'m mysql \<Rightarrow> string \<Rightarrow> string \<Rightarrow> string option \<Rightarrow> string \<Rightarrow> ParallelReadType \<Rightarrow> bool \<Rightarrow> string list \<Rightarrow> string list \<Rightarrow>
   ('m S2Client, ParallelReadType) act" where
  "ParallelReadInit my resultTableName selectQuery sourceTable keyColumnName readType materialized partitionByCols
     partitionOrderByCols =
     andThen (SetError 0 '''' False) (\<lambda>_.
     or_set_error False
       (andThen (with_conn (GetParallelReadType my selectQuery sourceTable materialized partitionByCols
          partitionOrderByCols readType)) (\<lambda>found.
        or_set_error False
          (andThen (make_table my resultTableName selectQuery keyColumnName found materialized partitionByCols
             partitionOrderByCols) (\<lambda>_. give found))
          (give found)))
       (give readType))"

definition ParallelReadFree :: "'m mysql \<Rightarrow> string \<Rightarrow> ParallelReadType \<Rightarrow> bool \<Rightarrow> ('m S2Client, unit) act" where
  "ParallelReadFree my resultTableName readType cb =
     andThen (SetError 0 '''' False) (\<lambda>_.
     or_set_error cb
       (if readType = ReadTypeResultTable
        then andThen (with_conn (ExecuteDDL my (MakeDropResultQuery resultTableName))) (\<lambda>_. give ())
        else if readType = ReadTypeColumnStoreTable
        then andThen (with_conn (ExecuteDDL my (MakeDropTableQuery resultTableName))) (\<lambda>_. give ())
        else give ())
       (give ()))"


section \<open>Getting a queue\<close>

datatype 'm queue = Streaming "'m StreamingQueue" | MultiPass "'m MultiPassQueue"

text \<open>The \<^verbatim>\<open>try\<close> around the creation of a queue.\<close>

definition queue_or_null ::
  "bool \<Rightarrow> ('q \<Rightarrow> 'm queue) \<Rightarrow> ((fault + 'q option) \<times> 'm S2Client) option \<Rightarrow>
   ((fault + 'm queue option) \<times> 'm S2Client) option" where
  "queue_or_null cb mk r =
     map_option (\<lambda>(x, cl). or_set_error cb (andThen (lift x) (\<lambda>q. give (map_option mk q))) (give None) cl) r"

definition ParallelReadGetQueue ::
  "'m mysql \<Rightarrow> (int \<Rightarrow> 'm option \<times> 'm option) \<Rightarrow> string option \<Rightarrow> string \<Rightarrow> string option \<Rightarrow> string \<Rightarrow> ParallelReadType \<Rightarrow>
   string list \<Rightarrow> u64 \<Rightarrow> i32 \<Rightarrow> int \<Rightarrow> bool \<Rightarrow> bool \<Rightarrow> 'm S2Client \<Rightarrow> ((fault + 'm queue option) \<times> 'm S2Client) option" where
  "ParallelReadGetQueue my inits resultTableName selectQuery sourceTable keyColumnName readType partitionOrderByCols
     chunkSize queueCapacity nReaderThreads isMultiPass cb cl =
     (let cl0 = snd (SetError 0 '''' False cl) in
      if isMultiPass then
        (case resultTableName of
           None \<Rightarrow> Some (Inl UndefinedBehaviour, cl0)
         | Some t \<Rightarrow> queue_or_null cb MultiPass
             (CreateMultiPassQueue my inits t selectQuery sourceTable keyColumnName readType partitionOrderByCols
                queueCapacity chunkSize nReaderThreads cb cl0))
      else queue_or_null cb Streaming
        (CreateStreamingQueue my inits None resultTableName selectQuery readType partitionOrderByCols
           queueCapacity chunkSize nReaderThreads True True cb cl0))"

definition QueryGetQueue ::
  "'m mysql \<Rightarrow> 'm option \<Rightarrow> string \<Rightarrow> u64 \<Rightarrow> i32 \<Rightarrow> bool \<Rightarrow> bool \<Rightarrow> 'm S2Client \<Rightarrow>
   ((fault + 'm queue option) \<times> 'm S2Client) option" where
  "QueryGetQueue my h qry chunkSize queueCapacity usePreparedProtocol cb cl =
     (let cl0 = snd (SetError 0 '''' False cl) in
      if sint queueCapacity < 1 then
        Some (andThen (SetError S2C_ERROR_INV_ARG ''Queue capacity must be positive'' cb) (\<lambda>_. give None) cl0)
      else queue_or_null cb Streaming
        (CreateStreamingQueue my (\<lambda>p. (None, None)) h None qry ReadTypeResultTable [] queueCapacity chunkSize 1
           False usePreparedProtocol cb cl0))"

section \<open>Getting chunks\<close>

text \<open>
  What the four functions do with the chunk and the error they got: the error goes to the callback,
  the chunk is moved into the caller's; the result is whether there was one.
\<close>

definition hand_over ::
  "bool \<Rightarrow> Chunk \<Rightarrow> Chunk option \<times> nat \<times> string \<Rightarrow> fault + bool \<times> Chunk \<times> callback list" where
  "hand_over cb chunk r =
     (case r of (res, code, msg) \<Rightarrow>
        if code \<noteq> 0 \<and> \<not> cb then Inl UndefinedBehaviour
        else Inr (res \<noteq> None, case res of None \<Rightarrow> chunk | Some c \<Rightarrow> MoveChunk chunk c,
               if code \<noteq> 0 then [(code, cstr msg, S2C_SEVERITY_ERROR)] else []))"

definition hand_over_section ::
  "bool \<Rightarrow> Chunk \<Rightarrow> (Chunk option \<times> nat \<times> string) outcome \<Rightarrow> (bool \<times> Chunk \<times> callback list) outcome" where
  "hand_over_section cb chunk r =
     (case r of
        Wait v \<Rightarrow> Wait v
      | Throw e \<Rightarrow> Throw e
      | Return x \<Rightarrow> (case hand_over cb chunk x of Inl e \<Rightarrow> Throw e | Inr y \<Rightarrow> Return y))"

text \<open>
  \<^verbatim>\<open>*partitionId\<close> is that of the chunk that was got, which \<^verbatim>\<open>MoveChunk\<close> copies as well, so it is not
  returned on its own.
\<close>

definition GetNextChunk ::
  "'m queue \<Rightarrow> int \<Rightarrow> Chunk \<Rightarrow> bool \<Rightarrow> (bool \<times> Chunk \<times> callback list) outcome \<times> 'm queue \<times> notice list" where
  "GetNextChunk queue consumerId chunk cb =
     (case queue of
        Streaming Q \<Rightarrow> (case cq_Get simple_sec consumerId Q of (r, Q', ns) \<Rightarrow> (hand_over_section cb chunk r, Streaming Q', ns))
      | MultiPass Q \<Rightarrow> (case cq_Get batch_sec consumerId Q of (r, Q', ns) \<Rightarrow> (hand_over_section cb chunk r, MultiPass Q', ns)))"

definition GetChunkMulti ::
  "bool \<Rightarrow> 'm queue \<Rightarrow> u32 \<Rightarrow> u32 \<Rightarrow> Chunk \<Rightarrow> bool \<Rightarrow>
   (bool \<times> Chunk \<times> callback list) outcome \<times> 'm queue \<times> notice list" where
  "GetChunkMulti again queue partitionId chunkId chunk cb =
     (case queue of
        Streaming Q \<Rightarrow>
          (case streaming_GetById (sint partitionId) (sint chunkId) (0, '''') Q of (r, Q') \<Rightarrow>
             (hand_over_section cb chunk (Return r), Streaming Q', []))
      | MultiPass Q \<Rightarrow>
          (case multi_GetById again (sint partitionId) (sint chunkId) Q of (r, Q', ns) \<Rightarrow>
             (hand_over_section cb chunk r, MultiPass Q', ns)))"

definition GetChunkRow ::
  "'m mysql \<Rightarrow> 'm option \<Rightarrow> 'm option \<Rightarrow> (u64 \<Rightarrow> u8 list option) \<Rightarrow> 'm queue \<Rightarrow> u32 \<Rightarrow> i64 \<Rightarrow> int \<Rightarrow> Chunk \<Rightarrow> bool \<Rightarrow>
   (fault + bool \<times> Chunk \<times> callback list) \<times> 'm queue" where
  "GetChunkRow my h1 h2 alloc queue partitionId rowId threadId chunk cb =
     (case queue of
        Streaming Q \<Rightarrow>
          (case streaming_GetSingleRow partitionId rowId threadId (0, '''') Q of (r, Q') \<Rightarrow>
             (hand_over cb chunk r, Streaming Q'))
      | MultiPass Q \<Rightarrow>
          (case multi_GetSingleRow my h1 h2 alloc partitionId rowId threadId Q of (r, Q') \<Rightarrow>
             (and_then r (hand_over cb chunk), MultiPass Q')))"

definition GetChunkMultipleRows ::
  "'m mysql \<Rightarrow> 'm option \<Rightarrow> 'm option \<Rightarrow> (u64 \<Rightarrow> u8 list option) \<Rightarrow> 'm queue \<Rightarrow> u32 \<Rightarrow> i64 list \<Rightarrow> int \<Rightarrow> Chunk \<Rightarrow> u64 \<Rightarrow>
   bool \<Rightarrow> ((fault + bool \<times> Chunk \<times> callback list) \<times> 'm queue) option" where
  "GetChunkMultipleRows my h1 h2 alloc queue partitionId rowIds threadId chunk chunkSize cb =
     (case queue of
        Streaming Q \<Rightarrow>
          (case streaming_GetMultipleRows chunkSize partitionId rowIds threadId (0, '''') Q of (r, Q') \<Rightarrow>
             Some (hand_over cb chunk r, Streaming Q'))
      | MultiPass Q \<Rightarrow>
          map_option (\<lambda>(r, Q'). (and_then r (hand_over cb chunk), MultiPass Q'))
            (multi_GetMultipleRows my h1 h2 alloc chunkSize partitionId rowIds threadId Q))"

definition c_GetRowSchema :: "'m queue \<Rightarrow> RowSchema option" where
  "c_GetRowSchema queue = (case queue of Streaming Q \<Rightarrow> cq_row_schema Q | MultiPass Q \<Rightarrow> cq_row_schema Q)"

text \<open>
  The queue is deleted by the destructor of its class: the chunks that are freed of every consumer's queue
  (\<open>None\<close> when freeing a batch queue has no end), and the queue.
\<close>

definition ChunkQueueFree :: "'m queue \<Rightarrow> Chunk list option list \<times> 'm queue" where
  "ChunkQueueFree queue =
     (case queue of
        Streaming Q \<Rightarrow> (case free_streaming Q of (freed, Q') \<Rightarrow> (map (Some \<circ> fst) freed, Streaming Q'))
      | MultiPass Q \<Rightarrow> (case free_multi_pass Q of (freed, Q') \<Rightarrow> (map (map_option snd) freed, MultiPass Q')))"


section \<open>The contract\<close>

text \<open>C39. A thread of a worker gets the chunk at the front of its queue; the chunk is moved into the
  caller's, all but the field \<open>variable_offset\<close>, which keeps the caller's value, and one reader that
  waits for space is woken.
\<close>

theorem next_chunk_moves_front:
  assumes "0 \<le> i" "nat i < length (cq_consumer_queues Q)" "sq_items (cq_consumer_queues Q ! nat i) = c # rest"
  shows "GetNextChunk (Streaming Q) i out cb =
    (Return (True, c\<lparr>variable_offset := variable_offset out\<rparr>, []),
     Streaming (Q\<lparr>cq_consumer_queues := (cq_consumer_queues Q)
       [nat i := (cq_consumer_queues Q ! nat i)\<lparr>sq_items := rest\<rparr>]\<rparr>),
     [NotifyOne FullCV])"
proof -
  have "MoveChunk out c = c\<lparr>variable_offset := variable_offset out\<rparr>" by (simp add: MoveChunk_def)
  with assms show ?thesis
    by (simp add: GetNextChunk_def cq_Get_def section_of_def sq_Pop_def got_def hand_over_section_def hand_over_def)
qed

text \<open>The functions for multi-pass and random reading, called on a queue for single-pass reading: the
  error is stored in the queue, where nothing reads it, and the caller sees only that there is no
  chunk, as at the end of the data.
\<close>

theorem wrong_mode_not_reported:
  "GetChunkMulti again (Streaming Q) p k out cb = (Return (False, out, []), Streaming (Q\<lparr>cq_error :=
     (S2C_ERROR_INV_ARG, ''Cannot use streaming queue in multi-pass mode'')\<rparr>), []) \<and>
   GetChunkRow my h1 h2 alloc (Streaming Q) p rowId t out cb = (Inr (False, out, []), Streaming (Q\<lparr>cq_error :=
     (S2C_ERROR_INV_ARG, ''Cannot use streaming queue in random read mode'')\<rparr>))"
  by (simp add: GetChunkMulti_def GetChunkRow_def streaming_GetById_def streaming_GetSingleRow_def hand_over_def
      hand_over_section_def cq_SetError_def)

text \<open>C40. \<^verbatim>\<open>ParallelReadInit\<close> for a read of the original table makes no table; otherwise it executes one
  statement, the one that makes the table, also for a materialized result table, although it
  reports that such a table cannot be used.
\<close>

theorem init_makes_one_table:
  assumes "GetParallelReadType my q src mat by_cols order_cols readType (cl_conn cl) = (Inr t, c1)"
    and "ExecuteDDL my (MakeCreateTableQuery name q key
      (if t = ReadTypeColumnStoreTable then RegularTable else if mat then AggResultTableMaterialized else AggResultTable)
      by_cols order_cols) c1 = (Inr n, c2)"
  shows "ParallelReadInit my name q src key readType mat by_cols order_cols cl =
    (Inr t, cl\<lparr>cl_conn := if t = ReadTypeOriginalTable then c1 else c2,
       cl_error := if mat \<and> t \<notin> {ReadTypeOriginalTable, ReadTypeColumnStoreTable}
         then (S2C_ERROR_INV_ARG, ''Cannot use Materialized Result Table'') else (0, '''')\<rparr>)"
  using assms
  by (auto simp: ParallelReadInit_def make_table_def SetError_def or_set_error_def act_simps with_conn_def Let_def
      split: if_splits)

text \<open>\<^verbatim>\<open>ExecuteDDLQuery\<close> returns the number of affected rows and clears the error of the client, or it
  returns -1, stores the server's error where \<^verbatim>\<open>S2Errno\<close> finds it, and reports it once.
\<close>

theorem ddl_result_or_error:
  "case ExecuteDDL my q (cl_conn cl) of
     (Inr n, c) \<Rightarrow> ExecuteDDLQuery my q cb cl = (Inr n, cl\<lparr>cl_conn := c, cl_error := (0, '''')\<rparr>)
   | (Inl (S2ClientError code msg), c) \<Rightarrow> ExecuteDDLQuery my q cb cl =
       (Inr (- 1), cl\<lparr>cl_conn := c, cl_error := (code, msg),
         cl_reports := cl_reports cl @ (if cb then [(code, cstr msg, S2C_SEVERITY_ERROR)] else [])\<rparr>)
   | (Inl e, c) \<Rightarrow> fst (ExecuteDDLQuery my q cb cl) = Inl e"
  by (simp add: ExecuteDDLQuery_def or_set_error_def act_simps SetError_def report_def with_conn_def
      split: prod.splits sum.splits fault.splits)

lemma loaded_error: "loaded cb (y, c) = (x, c') \<Longrightarrow> cl_error c' = cl_error c"
  by (auto simp: loaded_def or_report_def act_simps report_def split: sum.splits fault.splits if_splits)

text \<open>A load that fails reports to the callback only: \<^verbatim>\<open>S2Errno\<close> still tells the outcome of an earlier
  operation.
\<close>

theorem load_leaves_errno:
  assumes "LoadDataWrite my print_e json_dumps chunk schema table cb cl = Some (x, cl')"
  shows "S2Errno cl' = S2Errno cl"
  using assms by (auto simp: LoadDataWrite_def client_LoadDataWrite_def S2Errno_def dest!: loaded_error)


section \<open>Examples\<close>

definition example_streaming :: "text_row list list StreamingQueue" where
  "example_streaming = new_streaming example_creds None ''q'' ReadTypeResultTable
     [\<lparr>sq_items = [example_chunk], sq_capacity = 4, sq_producers = 1\<rparr>] [0] None
     [new_reader (catalog_connection []) 0 0 16 ''q'' None\<lparr>rt_error := (2013, ''lost'')\<rparr>]"

theorem next_chunk_moves_front_witness:
  "fst (GetNextChunk (Streaming example_streaming) 0 (example_chunk\<lparr>variable_offset := 7\<rparr>) True) =
    Return (True, example_chunk\<lparr>variable_offset := 7\<rparr>, [])"
  using next_chunk_moves_front [of 0 example_streaming example_chunk "[]" "example_chunk\<lparr>variable_offset := 7\<rparr>" True]
  by (simp add: example_streaming_def new_streaming_def)

theorem failed_readers_reported_witness:
  "fst (cq_Get simple_sec 0 (example_streaming\<lparr>cq_consumer_queues := [\<lparr>sq_items = [], sq_capacity = 4, sq_producers = 0\<rparr>]\<rparr>)) =
    Return (None, S2C_ERROR_READER_FAILED, ''Some readers failed:'' @ [CHR 0x0A] @ '' - lost'' @ [CHR 0x0A])"
proof -
  let ?Q = "example_streaming\<lparr>cq_consumer_queues := [\<lparr>sq_items = [], sq_capacity = 4, sq_producers = 0\<rparr>]\<rparr>"
  have "simple_sec QPop (cq_consumer_queues ?Q ! nat 0) =
      (Throw (OutOfRange ''Queue is empty''), cq_consumer_queues ?Q ! 0, [])"
    by (simp add: sq_Pop_def)
  with failed_readers_reported [of 0 ?Q simple_sec "''Queue is empty''" "cq_consumer_queues ?Q ! 0" "[]"]
  show ?thesis by (simp add: example_streaming_def new_streaming_def new_reader_def)
qed

lemma example_GetParallelReadType:
  "GetParallelReadType catalog_mysql ''q'' None True [] [] ReadTypeResultTable (catalog_connection m) =
    (Inr ReadTypeResultTable, catalog_connection m)"
  by (simp add: GetParallelReadType_def give_def)

lemma example_ExecuteDDL: "ExecuteDDL catalog_mysql s (catalog_connection m) = (Inr 3, catalog_connection m)"
  by (simp add: ExecuteDDL_def query_def act_simps call_def catalog_connection_def new_S2Connection_def)

theorem init_makes_one_table_witness:
  "\<exists>cl. ParallelReadInit catalog_mysql ''t'' ''q'' None ''k'' ReadTypeResultTable True [] [] (example_client []) =
      (Inr ReadTypeResultTable, cl) \<and> S2Errno cl = 1"
proof -
  have c: "cl_conn (example_client []) = catalog_connection []" by (simp add: example_client_def)
  from init_makes_one_table [of catalog_mysql "''q''" None True "[]" "[]" ReadTypeResultTable "example_client []",
      unfolded c, OF example_GetParallelReadType example_ExecuteDDL]
  show ?thesis by (simp add: S2Errno_def S2C_ERROR_INV_ARG_def)
qed

theorem load_leaves_errno_witness:
  "\<exists>x cl. LoadDataWrite catalog_mysql (\<lambda>d. '''') (\<lambda>j. '''') example_chunk [] ''t'' True (example_client []) = Some (x, cl) \<and>
    cl_reports cl \<noteq> [] \<and> S2Errno cl = 0"
proof -
  have "\<exists>x cl. LoadDataWrite catalog_mysql (\<lambda>d. '''') (\<lambda>j. '''') example_chunk [] ''t'' True (example_client []) = Some (x, cl) \<and>
      cl_reports cl \<noteq> []"
    by (simp add: LoadDataWrite_def client_LoadDataWrite_def WriteChunk_def check_infile_def act_simps example_client_def catalog_connection_def
        new_S2Connection_def catalog_mysql_def loaded_def or_report_def report_def conn_error_def FreeLastFetched_def)
  then obtain x cl where "LoadDataWrite catalog_mysql (\<lambda>d. '''') (\<lambda>j. '''') example_chunk [] ''t'' True (example_client []) =
      Some (x, cl)" "cl_reports cl \<noteq> []" by blast
  with load_leaves_errno [OF this(1)] show ?thesis by (simp add: S2Errno_def example_client_def)
qed

end
