(* ===== verification/Delivery.thy ===== *)
theory Delivery
  imports TableReader SimpleQueue "HOL-Library.Sublist"
begin

text \<open>
  The composition of a single-pass read: the reading threads (\<^verbatim>\<open>ResultTableReader::Read\<close>) push into
  the queue of a consumer (\<^verbatim>\<open>ThreadSafeSimpleQueue\<close>) while the threads of the consumer pop, in any
  interleaving. The theory follows the log of the queue: what one reader has done is a beginning of
  what \<open>Read\<close> does, and the end of the read is the exception of \<^verbatim>\<open>Pop\<close>.
\<close>

section \<open>One step and the log\<close>

lemma sys_step_log:
  assumes "sys_step sec s s'"
  obtains (idle) "sys_log s' = sys_log s" "sys_q s' = sys_q s"
    | (sec) t op op' r q' ns where "sec op' (sys_q s) = (r, q', ns)" "op' = op \<or> op' = resumed op"
        "sys_q s' = q'" "sys_log s' = sys_log (ended t op r q' s)"
  using assms
proof cases
  case (step_call t op r q' ns)
  then show ?thesis using sec [of op r q' ns op t] notified_frame [OF step_call(4)] by simp
next
  case (step_resume xs t op ys r q' ns)
  have "sys_log (ended t op r q' (s\<lparr>sys_ready := xs @ ys\<rparr>)) = sys_log (ended t op r q' s)"
    by (simp add: ended_def split: outcome.split)
  with step_resume show ?thesis
    using sec [of "resumed op" r q' ns op t] notified_frame [OF step_resume(3)] by simp
next
  case (step_spurious xs t op c ys)
  with idle show ?thesis by simp
qed

fun is_delete :: "'v qop \<Rightarrow> bool" where
  "is_delete (QDelete p) = True"
| "is_delete _ = False"

definition deletes :: "'v qop list \<Rightarrow> nat" where
  "deletes ops = length (filter is_delete ops)"

lemma deletes_simps [simp]:
  "deletes [] = 0" "deletes (op # ops) = (if is_delete op then Suc (deletes ops) else deletes ops)"
  "deletes (xs @ ys) = deletes xs + deletes ys" "deletes (map QPush vs) = 0"
  by (simp_all add: deletes_def)

type_synonym 'v log = "(nat \<times> 'v qop \<times> 'v answer outcome) list"

definition ops_of :: "'v log \<Rightarrow> 'v qop list" where
  "ops_of l = map (\<lambda>(t, op, r). op) l"

definition ops_by :: "nat \<Rightarrow> 'v log \<Rightarrow> 'v qop list" where
  "ops_by i l = ops_of (filter (\<lambda>(t, op, r). t = i) l)"

lemma ops_simps [simp]:
  "ops_of [] = []" "ops_of ((t, op, r) # l) = op # ops_of l" "ops_of (l @ l') = ops_of l @ ops_of l'"
  "ops_by i [] = []" "ops_by i ((t, op, r) # l) = (if t = i then op # ops_by i l else ops_by i l)"
  "ops_by i (l @ l') = ops_by i l @ ops_by i l'"
  by (simp_all add: ops_of_def ops_by_def)

text \<open>
  What the log of a simple queue tells of the queue: no push and no registration fails; the number
  of producers counts the registrations down; and a \<open>Pop\<close> that threw found everything popped and
  all producers gone.
\<close>

definition log_ok :: "u32 \<Rightarrow> ('v, 'v SimpleQueue) sys \<Rightarrow> bool" where
  "log_ok n s \<longleftrightarrow>
     (\<forall>(t, op, r) \<in> set (sys_log s). op \<noteq> QPop \<longrightarrow> (\<exists>a. r = Return a)) \<and>
     sq_producers (sys_q s) = n - of_nat (deletes (ops_of (sys_log s))) \<and>
     (\<forall>t e. (t, QPop, Throw e) \<in> set (sys_log s) \<longrightarrow>
        (\<exists>l1 l2. sys_log s = l1 @ (t, QPop, Throw e) # l2 \<and>
           pushed l1 = popped l1 \<and> n = of_nat (deletes (ops_of l1))))"

lemma section_log_ok:
  assumes "log_ok n s" "simple_sec op' (sys_q s) = (r, q', ns)" "op' = op \<or> op' = resumed op"
    and "simple.no_get (sys_log (ended t op r q' s))"
    and "pushed (sys_log s) = popped (sys_log s) @ sq_items (sys_q s)"
    and "sys_q s' = q'" "sys_log s' = sys_log (ended t op r q' s)"
  shows "log_ok n s'"
proof -
  have later: "\<exists>l1 l2. sys_log s @ x = l1 @ (u, QPop, Throw e) # l2 \<and>
      pushed l1 = popped l1 \<and> n = of_nat (deletes (ops_of l1))"
    if "(u, QPop, Throw e) \<in> set (sys_log s)" for u e x
    using assms(1) that by (fastforce simp: log_ok_def)
  note old = assms(1) [unfolded log_ok_def]
  show ?thesis
  proof (cases op)
    case (QPush v)
    then have "sq_producers q' = sq_producers (sys_q s)" "r = Return None \<or> (\<exists>c. r = Wait c)"
      using assms(2,3) by (auto simp: sq_Push_def split: if_splits)
    then show ?thesis
      using old assms(6,7) QPush later [where x = "[(t, QPush v, Return None)]"]
      by (auto simp: log_ok_def ended_def)
  next
    case (QDelete p)
    then have "sq_producers q' = sq_producers (sys_q s) - 1" "r = Return None"
      using assms(2,3) by (auto simp: sq_DeleteProducer_def Let_def)
    then show ?thesis
      using old assms(6,7) QDelete later [where x = "[(t, QDelete p, Return None)]"]
      by (auto simp: log_ok_def ended_def)
  next
    case QPop
    then have op': "op' = QPop" using assms(3) by auto
    show ?thesis
    proof (cases r)
      case (Throw e)
      then have q: "sq_items (sys_q s) = []" "sq_producers (sys_q s) = 0" "q' = sys_q s"
        using assms(2) op' by (auto simp: sq_Pop_def split: list.splits if_splits)
      have log: "sys_log s' = sys_log s @ [(t, QPop, Throw e)]"
        using assms(7) Throw QPop by (simp add: ended_def)
      have "pushed (sys_log s) = popped (sys_log s)" "n = of_nat (deletes (ops_of (sys_log s)))"
        using assms(5) q old by simp_all
      then show ?thesis
        using old q assms(6) log later [where x = "[(t, QPop, Throw e)]"] by (auto simp: log_ok_def)
    next
      case (Return a)
      moreover have "sq_producers q' = sq_producers (sys_q s)"
        using assms(2) op' Return by (auto simp: sq_Pop_def split: list.splits if_splits)
      ultimately show ?thesis
        using old assms(6,7) QPop later [where x = "[(t, QPop, Return a)]"]
        by (auto simp: log_ok_def ended_def)
    next
      case (Wait c)
      moreover have "q' = sys_q s"
        using assms(2) op' Wait by (auto simp: sq_Pop_def split: list.splits if_splits)
      ultimately show ?thesis
        using old assms(6,7) QPop by (auto simp: log_ok_def ended_def)
    qed
  next
    case (QGet p i)
    then have "r = Throw AssertionFailed" using assms(2,3) by (auto simp: sq_Get_def)
    with assms(4) QGet show ?thesis by (auto simp: ended_def simple.no_get_def)
  next
    case (QGetLoop p i)
    then have "r = Throw AssertionFailed" using assms(2,3) by (auto simp: sq_Get_def)
    with assms(4) QGetLoop show ?thesis by (auto simp: ended_def simple.no_get_def)
  qed
qed

lemma reachable_log_ok:
  assumes "sys_reachable simple_sec (ThreadSafeSimpleQueue capacity n) s"
  shows "simple.no_get (sys_log s) \<Longrightarrow> log_ok n s"
  using assms
proof (induction rule: sys_reachable.induct)
  case reach_init
  show ?case by (simp add: log_ok_def ThreadSafeSimpleQueue_def)
next
  case (reach_step s s')
  from reach_step.hyps(2) show ?case
  proof (cases rule: sys_step_log)
    case idle
    with reach_step show ?thesis by (simp add: log_ok_def)
  next
    case (sec t op op' r q' ns)
    with reach_step.prems have ng: "simple.no_get (sys_log (ended t op r q' s))" by simp
    then have ng0: "simple.no_get (sys_log s)" by (rule simple.log_grows)
    have "pushed (sys_log s) = popped (sys_log s) @ sq_items (sys_q s)"
      using simple.reachable_contents [OF reach_step.hyps(1) TrueI ng0] by (simp add: ThreadSafeSimpleQueue_def)
    with section_log_ok [OF reach_step.IH [OF ng0] sec(1,2) ng _ sec(3,4)] show ?thesis .
  qed
qed


section \<open>What the readers have done\<close>

text \<open>
  Thread \<open>i < length progs\<close> is a reader and has done the first of the operations \<open>progs ! i\<close>; every
  other thread is a consumer and only pops.
\<close>

definition runs_readers :: "'v qop list list \<Rightarrow> 'v log \<Rightarrow> bool" where
  "runs_readers progs l \<longleftrightarrow>
     (\<forall>(t, op, r) \<in> set l. length progs \<le> t \<longrightarrow> op = QPop) \<and>
     (\<forall>i < length progs. prefix (ops_by i l) (progs ! i))"

fun push_values :: "'v qop list \<Rightarrow> 'v list" where
  "push_values [] = []"
| "push_values (QPush v # ops) = v # push_values ops"
| "push_values (_ # ops) = push_values ops"

lemma push_values_simps [simp]:
  "push_values (xs @ ys) = push_values xs @ push_values ys" "push_values (map QPush vs) = vs"
  by (induction xs rule: push_values.induct) (simp_all, induction vs, simp_all)

lemma prefix_push_values: "prefix xs ys \<Longrightarrow> prefix (push_values xs) (push_values ys)"
  by (auto simp: prefix_def)

lemma runs_readers_prefix: "runs_readers progs (l @ l') \<Longrightarrow> runs_readers progs l"
  by (auto simp: runs_readers_def dest: append_prefixD)

lemma runs_readers_no_get:
  assumes "runs_readers progs l" "\<forall>ops \<in> set progs. \<forall>op \<in> set ops. \<forall>p i. op \<noteq> QGet p i \<and> op \<noteq> QGetLoop p i"
  shows "simple.no_get l"
proof -
  have "\<forall>p i. op \<noteq> QGet p i \<and> op \<noteq> QGetLoop p i" if "(t, op, r) \<in> set l" for t op r
  proof (cases "t < length progs")
    case True
    have "op \<in> set (ops_by t l)" using that by (force simp: ops_by_def ops_of_def)
    moreover have "prefix (ops_by t l) (progs ! t)" using assms(1) True by (simp add: runs_readers_def)
    ultimately have "op \<in> set (progs ! t)" by (meson set_mono_prefix subsetD)
    with assms(2) nth_mem [OF True] show ?thesis by blast
  next
    case False
    then have "op = QPop" using assms(1) that by (force simp: runs_readers_def)
    then show ?thesis by simp
  qed
  then show ?thesis by (auto simp: simple.no_get_def) blast+
qed

text \<open>When every reader pushes values of its own kind, the values of one kind are those of one reader.\<close>

lemma pushed_by_reader:
  assumes "\<forall>(t, op, r) \<in> set l. op \<noteq> QPop \<longrightarrow> t < n \<and> (\<exists>a. r = Return a)"
    and "\<forall>t < n. \<forall>v \<in> set (push_values (ops_by t l)). kind v = K t"
    and "inj_on K {..<n}" "i < n"
  shows "filter (\<lambda>v. kind v = K i) (pushed l) = push_values (ops_by i l)"
  using assms(1,2)
proof (induction l rule: pushed.induct)
  case (2 t v a l)
  have t: "t < n" using "2.prems"(1) by auto
  have "kind v = K t" using "2.prems"(2) t by simp
  moreover have "K t = K i \<longleftrightarrow> t = i" using t assms(3,4) by (auto simp: inj_on_def)
  moreover have "filter (\<lambda>v. kind v = K i) (pushed l) = push_values (ops_by i l)"
    using 2 by (auto split: if_splits)
  ultimately show ?case by simp
qed (auto split: if_splits)

lemma deletes_of_readers:
  "\<forall>(t, op, r) \<in> set l. op \<noteq> QPop \<longrightarrow> t < n \<Longrightarrow>
   deletes (ops_of l) = (\<Sum>i < n. deletes (ops_by i l))"
proof (induction l)
  case (Cons e l)
  obtain t op r where e: "e = (t, op, r)" by (cases e)
  have IH: "deletes (ops_of l) = (\<Sum>i < n. deletes (ops_by i l))" using Cons by simp
  show ?case
  proof (cases "is_delete op")
    case True
    then have t: "t < n" using Cons.prems e by (auto elim: is_delete.elims)
    have "(\<Sum>i < n. deletes (ops_by i (e # l))) =
        (\<Sum>i < n. deletes (ops_by i l) + (if i = t then 1 else 0))"
      using True e by (intro sum.cong) auto
    also have "\<dots> = Suc (\<Sum>i < n. deletes (ops_by i l))"
      using t by (simp add: sum.distrib)
    finally show ?thesis using True IH e by simp
  next
    case False
    then have "(\<Sum>i < n. deletes (ops_by i (e # l))) = (\<Sum>i < n. deletes (ops_by i l))"
      using e by (intro sum.cong) auto
    with False IH e show ?thesis by simp
  qed
qed simp


section \<open>A read of one consumer\<close>

text \<open>
  Partition by partition: the reader \<open>r\<close> reads the rows \<open>rs\<close>, undisturbed and without a failure of
  the server, and \<open>ops\<close> is what it does to its queue (\<open>Read\<close> is the body of the reading thread).
\<close>

definition undisturbed_read ::
  "'m mysql \<Rightarrow> RowSchema \<Rightarrow> 'm ResultTableReader \<Rightarrow> row list \<Rightarrow> Chunk qop list \<Rightarrow> bool" where
  "undisturbed_read my cs r rs ops \<longleftrightarrow>
     (\<exists>r1 stopped alloc r'.
        rt_row_schema r = Some cs \<and>
        (if rt_is_parallel r then PrepareRead my True r else (Inr (), r)) = (Inr (), r1) \<and>
        fst (rt_error r1) = 0 \<and> delivers my rs None (rt_conn r1) \<and>
        undisturbed stopped alloc (rt_chunk_size r) \<and> rows_fit_in (rt_chunk_size r) cs rs \<and>
        length rs < 2 ^ 31 - 1 \<and>
        Read my stopped alloc r = Some (ops, Inr r'))"

lemma undisturbed_read_ops:
  assumes "undisturbed_read my cs r rs ops"
  obtains chunks where "ops = map QPush chunks @ [QDelete (sint (rt_partition r))]"
    "chunk_sequence cs (rt_partition r) 0 rs chunks" "\<forall>c \<in> set chunks. partition_id c = rt_partition r"
proof -
  obtain r1 stopped alloc r' where h: "rt_row_schema r = Some cs"
    "(if rt_is_parallel r then PrepareRead my True r else (Inr (), r)) = (Inr (), r1)"
    "fst (rt_error r1) = 0" "delivers my rs None (rt_conn r1)"
    "undisturbed stopped alloc (rt_chunk_size r)" "rows_fit_in (rt_chunk_size r) cs rs" "length rs < 2 ^ 31 - 1"
    and ops: "Read my stopped alloc r = Some (ops, Inr r')"
    using assms unfolding undisturbed_read_def by blast
  from Read_pushes [OF h] ops obtain chunks where
    "ops = map QPush chunks @ [QDelete (sint (rt_partition r))]" "chunk_sequence cs (rt_partition r) 0 rs chunks"
    by auto
  moreover from this(2) have "\<forall>c \<in> set chunks. partition_id c = rt_partition r"
    by (auto simp: chunk_sequence_def numbered_def in_set_conv_nth)
  ultimately show ?thesis using that by blast
qed

text \<open>A consumer has seen the end of the read when its \<open>Pop\<close> has thrown.\<close>

definition read_finished :: "'v log \<Rightarrow> bool" where
  "read_finished l \<longleftrightarrow> (\<exists>(t, op, r) \<in> set l. op = QPop \<and> (\<exists>e. r = Throw e))"

definition chunks_of :: "u32 \<Rightarrow> Chunk list \<Rightarrow> Chunk list" where
  "chunks_of p chunks = filter (\<lambda>c. partition_id c = p) chunks"

definition reader_programs ::
  "nat \<Rightarrow> (nat \<Rightarrow> u32) \<Rightarrow> (nat \<Rightarrow> Chunk list) \<Rightarrow> Chunk qop list list \<Rightarrow> bool" where
  "reader_programs n P chunks progs \<longleftrightarrow> length progs = n \<and> n < 2 ^ 32 \<and> inj_on P {..<n} \<and>
     (\<forall>i < n. progs ! i = map QPush (chunks i) @ [QDelete (sint (P i))] \<and>
        (\<forall>c \<in> set (chunks i). partition_id c = P i))"

text \<open>Log entries of the readers, none of which failed.\<close>

definition readers_log :: "'v qop list list \<Rightarrow> 'v log \<Rightarrow> bool" where
  "readers_log progs l \<longleftrightarrow> runs_readers progs l \<and> (\<forall>(t, op, r) \<in> set l. op \<noteq> QPop \<longrightarrow> (\<exists>a. r = Return a))"

lemma readers_log_prefix: "readers_log progs (l @ l') \<Longrightarrow> readers_log progs l"
  by (auto simp: readers_log_def dest: runs_readers_prefix)

lemma no_get: "reader_programs n P chunks progs \<Longrightarrow> runs_readers progs l \<Longrightarrow> simple.no_get l"
  by (erule runs_readers_no_get) (auto simp: reader_programs_def set_conv_nth [of progs])

lemma own_program:
  assumes "reader_programs n P chunks progs" "readers_log progs l" "i < n"
  shows "prefix (ops_by i l) (map QPush (chunks i) @ [QDelete (sint (P i))])"
  using assms by (metis readers_log_def runs_readers_def reader_programs_def)

lemma beginning:
  "reader_programs n P chunks progs \<Longrightarrow> readers_log progs l \<Longrightarrow> i < n \<Longrightarrow>
   prefix (push_values (ops_by i l)) (chunks i)"
  using prefix_push_values [OF own_program] by simp

lemma only_readers_push:
  assumes "reader_programs n P chunks progs" "readers_log progs l"
  shows "\<forall>(t, op, r) \<in> set l. op \<noteq> QPop \<longrightarrow> t < n \<and> (\<exists>a. r = Return a)"
  using assms by (fastforce simp: readers_log_def runs_readers_def reader_programs_def not_le [symmetric])

lemma pushed_chunks:
  assumes "reader_programs n P chunks progs" "readers_log progs l" "i < n"
  shows "chunks_of (P i) (pushed l) = push_values (ops_by i l)"
  unfolding chunks_of_def
proof (rule pushed_by_reader [where n = n])
  have "\<forall>c \<in> set (chunks t). partition_id c = P t" if "t < n" for t
    using assms(1) that by (simp add: reader_programs_def)
  then show "\<forall>t<n. \<forall>v\<in>set (push_values (ops_by t l)). partition_id v = P t"
    using beginning [OF assms(1,2)] by (meson set_mono_prefix subsetD)
  show "inj_on P {..<n}" using assms(1) by (simp add: reader_programs_def)
qed (use only_readers_push [OF assms(1,2)] assms(3) in auto)

text \<open>A reader that has left has pushed everything; when as many have left as there are, all have.\<close>

lemma prefix_of_prog:
  assumes "prefix xs (map QPush cs @ [QDelete p])"
  shows "deletes xs \<le> 1 \<and> (deletes xs = 1 \<longrightarrow> push_values xs = cs)"
proof -
  have "xs = map QPush cs @ [QDelete p] \<or> prefix xs (map QPush cs)" using assms by simp
  then show ?thesis by (auto dest: prefix_map_rightE)
qed

lemma all_deleted:
  assumes "reader_programs n P chunks progs" "readers_log progs l" "i < n"
    and "(of_nat n :: u32) = of_nat (deletes (ops_of l))"
  shows "deletes (ops_by i l) = 1"
proof -
  have one: "deletes (ops_by j l) \<le> 1" if "j < n" for j
    using prefix_of_prog [OF own_program [OF assms(1,2) that]] by simp
  have sum: "deletes (ops_of l) = (\<Sum>j < n. deletes (ops_by j l))"
    by (rule deletes_of_readers) (use only_readers_push [OF assms(1,2)] in auto)
  moreover have "(\<Sum>j < n. deletes (ops_by j l)) \<le> (\<Sum>j < n. 1)" by (rule sum_mono) (use one in simp)
  ultimately have le: "deletes (ops_of l) \<le> n" by simp
  have "take_bit 32 n = take_bit 32 (deletes (ops_of l))" using assms(4) by (simp add: word_of_nat_eq_iff)
  moreover have "n < 2 ^ 32" using assms(1) by (simp add: reader_programs_def)
  ultimately have total: "deletes (ops_of l) = n" using le by (simp add: take_bit_nat_eq_self)
  have "(\<Sum>j < n. 1 - deletes (ops_by j l)) = (\<Sum>j < n. 1) - (\<Sum>j < n. deletes (ops_by j l))"
    by (rule sum_subtractf_nat) (use one in simp)
  also have "\<dots> = 0" by (simp add: trans [OF sum [symmetric] total])
  finally have "\<forall>j \<in> {..<n}. 1 - deletes (ops_by j l) = 0" by (simp only: sum_eq_0_iff finite_lessThan)
  with assms(3) have "1 - deletes (ops_by i l) = 0" by blast
  then show ?thesis using one [OF assms(3)] by simp
qed

lemma all_left:
  assumes "reader_programs n P chunks progs" "readers_log progs l" "i < n"
    and "(of_nat n :: u32) = of_nat (deletes (ops_of l))"
  shows "push_values (ops_by i l) = chunks i"
  using prefix_of_prog [OF own_program [OF assms(1,2,3)]] all_deleted [OF assms] by simp

lemma delivered:
  assumes "reader_programs n P chunks progs" "runs_readers progs (sys_log s)" "i < n"
    and "sys_reachable simple_sec (ThreadSafeSimpleQueue capacity (of_nat n)) s"
  shows "prefix (chunks_of (P i) (popped (sys_log s))) (chunks i) \<and>
    (read_finished (sys_log s) \<longrightarrow> chunks_of (P i) (popped (sys_log s)) = chunks i)"
proof -
  let ?l = "sys_log s"
  have ng: "simple.no_get ?l" using no_get [OF assms(1,2)] .
  note ok = reachable_log_ok [OF assms(4) ng, unfolded log_ok_def]
  have log: "readers_log progs ?l" using ok assms(2) by (simp add: readers_log_def)
  have "prefix (popped ?l) (pushed ?l)"
    using simple.reachable_contents [OF assms(4) TrueI ng] by (simp add: ThreadSafeSimpleQueue_def)
  then have "prefix (chunks_of (P i) (popped ?l)) (chunks_of (P i) (pushed ?l))"
    by (auto simp: chunks_of_def prefix_def)
  with pushed_chunks [OF assms(1) log assms(3)] beginning [OF assms(1) log assms(3)]
  have pre: "prefix (chunks_of (P i) (popped ?l)) (chunks i)" by (simp add: prefix_order.trans)
  moreover have "chunks_of (P i) (popped ?l) = chunks i" if fin: "read_finished ?l"
  proof -
    from fin obtain t e where "(t, QPop, Throw e) \<in> set ?l" by (auto simp: read_finished_def)
    with ok obtain l1 l2 where l: "?l = l1 @ (t, QPop, Throw e) # l2" "pushed l1 = popped l1"
      "(of_nat n :: u32) = of_nat (deletes (ops_of l1))"
      by blast
    have log1: "readers_log progs l1" using log unfolding l(1) by (rule readers_log_prefix)
    have "chunks_of (P i) (popped l1) = chunks i"
      using pushed_chunks [OF assms(1) log1 assms(3)] all_left [OF assms(1) log1 assms(3) l(3)] l(2) by simp
    then have "prefix (chunks i) (chunks_of (P i) (popped ?l))"
      unfolding l(1) by (auto simp: chunks_of_def prefix_def)
    with pre show ?thesis by (rule prefix_order.antisym)
  qed
  ultimately show ?thesis by blast
qed


text \<open>When the queue is empty and its producers have left, the consumer has everything.\<close>

lemma drained:
  assumes "reader_programs n P chunks progs" "runs_readers progs (sys_log s)" "i < n"
    and "sys_reachable simple_sec (ThreadSafeSimpleQueue capacity (of_nat n)) s"
    and "sq_items (sys_q s) = []" "sq_producers (sys_q s) = 0"
  shows "chunks_of (P i) (popped (sys_log s)) = chunks i"
proof -
  have ng: "simple.no_get (sys_log s)" using no_get [OF assms(1,2)] .
  note ok = reachable_log_ok [OF assms(4) ng, unfolded log_ok_def]
  have log: "readers_log progs (sys_log s)" using ok assms(2) by (simp add: readers_log_def)
  have "pushed (sys_log s) = popped (sys_log s)"
    using simple.reachable_contents [OF assms(4) TrueI ng] assms(5) by (simp add: ThreadSafeSimpleQueue_def)
  moreover have "(of_nat n :: u32) = of_nat (deletes (ops_of (sys_log s)))" using ok assms(6) by simp
  ultimately show ?thesis
    using pushed_chunks [OF assms(1) log assms(3)] all_left [OF assms(1) log assms(3)] by simp
qed

lemma drained_left:
  assumes "reader_programs n P chunks progs" "runs_readers progs (sys_log s)" "i < n"
    and "sys_reachable simple_sec (ThreadSafeSimpleQueue capacity (of_nat n)) s"
    and "sq_producers (sys_q s) = 0"
  shows "QDelete (sint (P i)) \<in> set (ops_by i (sys_log s))"
proof -
  note ok = reachable_log_ok [OF assms(4) no_get [OF assms(1,2)], unfolded log_ok_def]
  have log: "readers_log progs (sys_log s)" using ok assms(2) by (simp add: readers_log_def)
  have "(of_nat n :: u32) = of_nat (deletes (ops_of (sys_log s)))" using ok assms(5) by simp
  from all_deleted [OF assms(1) log assms(3) this] have "filter is_delete (ops_by i (sys_log s)) \<noteq> []"
    by (auto simp: deletes_def)
  then obtain op where "op \<in> set (ops_by i (sys_log s))" "is_delete op"
    by (auto simp: filter_empty_conv)
  moreover have "set (ops_by i (sys_log s)) \<subseteq> set (map QPush (chunks i) @ [QDelete (sint (P i))])"
    using own_program [OF assms(1) log assms(3)] by (rule set_mono_prefix)
  ultimately show ?thesis by auto
qed

text \<open>The rows of a consumer's partitions are delivered exactly once, in order, whatever the interleaving: the
  reading threads of a consumer's partitions push into its bounded queue while the consumer's threads
  pop. At any time the chunks the consumer has got of a partition are the first of a sequence of
  non-empty, consecutively numbered chunks that holds exactly the rows of that partition; and when
  \<^verbatim>\<open>Pop\<close> has told the consumer that the read is over, it has got them all.
\<close>

lemma readers_delivered:
  assumes "sys_reachable simple_sec (ThreadSafeSimpleQueue capacity (of_nat (length readers))) s"
    and "distinct (map rt_partition readers)" "length readers < 2 ^ 32"
    and "length progs = length readers"
    and "\<forall>i < length readers. undisturbed_read my cs (readers ! i) (rows i) (progs ! i)"
    and "runs_readers progs (sys_log s)" "i < length readers"
  shows "\<exists>chunks. chunk_sequence cs (rt_partition (readers ! i)) 0 (rows i) chunks \<and>
    prefix (chunks_of (rt_partition (readers ! i)) (popped (sys_log s))) chunks \<and>
    (read_finished (sys_log s) \<longrightarrow> chunks_of (rt_partition (readers ! i)) (popped (sys_log s)) = chunks)"
proof -
  let ?P = "\<lambda>i. rt_partition (readers ! i)"
  have "\<forall>i < length readers. \<exists>cks. progs ! i = map QPush cks @ [QDelete (sint (?P i))] \<and>
      chunk_sequence cs (?P i) 0 (rows i) cks \<and> (\<forall>c \<in> set cks. partition_id c = ?P i)"
    using assms(5) undisturbed_read_ops by metis
  then obtain chunks where c: "\<forall>i < length readers. progs ! i = map QPush (chunks i) @ [QDelete (sint (?P i))] \<and>
      chunk_sequence cs (?P i) 0 (rows i) (chunks i) \<and> (\<forall>c \<in> set (chunks i). partition_id c = ?P i)"
    by metis
  have "inj_on ?P {..<length readers}"
    using assms(2) by (auto simp: inj_on_def distinct_conv_nth)
  with c assms(3,4) have "reader_programs (length readers) ?P chunks progs" by (simp add: reader_programs_def)
  from delivered [OF this assms(6,7,1)] c assms(7) show ?thesis by blast
qed

section \<open>An example\<close>

lemma push_pop_steps:
  assumes "sys_reachable simple_sec q0 s" "sys_wait s = []" "sys_ready s = []" "sys_q s = q"
    and "sq_items q = []" "0 < unat (sq_capacity q)"
  shows "\<exists>s'. sys_reachable simple_sec q0 s' \<and> sys_wait s' = [] \<and> sys_ready s' = [] \<and> sys_q s' = q \<and>
    sys_log s' = sys_log s @ concat (map (\<lambda>v. [(0, QPush v, Return None), (1, QPop, Return (Some v))]) vs)"
  using assms(1-4)
proof (induction vs arbitrary: s)
  case Nil
  then show ?case by (intro exI [of _ s]) simp
next
  case (Cons v vs)
  let ?s1 = "ended 0 (QPush v) (Return None) (q\<lparr>sq_items := [v]\<rparr>) s"
  let ?s2 = "ended 1 QPop (Return (Some v)) q ?s1"
  have q: "q\<lparr>sq_items := []\<rparr> = q" using assms(5) by simp
  have "sys_step simple_sec s ?s1"
    by (rule step_call_idle [where op = "QPush v" and r = "Return None" and ns = "[NotifyOne EmptyCV]"])
       (use Cons.prems assms(5,6) in \<open>auto simp: sq_Push_def inside_def ended_def\<close>)
  with Cons.prems(1) have r1: "sys_reachable simple_sec q0 ?s1" by (rule reach_step)
  have "sys_step simple_sec ?s1 ?s2"
    by (rule step_call_idle [where op = QPop and r = "Return (Some v)" and ns = "[NotifyOne FullCV]"])
       (use Cons.prems q in \<open>auto simp: sq_Pop_def inside_def ended_def\<close>)
  with r1 have "sys_reachable simple_sec q0 ?s2" by (rule reach_step)
  moreover have "sys_wait ?s2 = []" "sys_ready ?s2 = []" "sys_q ?s2 = q"
    using Cons.prems by (simp_all add: ended_def)
  ultimately obtain s' where "sys_reachable simple_sec q0 s'" "sys_wait s' = []" "sys_ready s' = []" "sys_q s' = q"
    "sys_log s' = sys_log ?s2 @ concat (map (\<lambda>v. [(0, QPush v, Return None), (1, QPop, Return (Some v))]) vs)"
    using Cons.IH by blast
  then show ?case by (intro exI [of _ s']) (simp add: ended_def)
qed

text \<open>One reader pushes and one consumer pops in turn, to the end.\<close>

definition turns :: "'v list \<Rightarrow> int \<Rightarrow> 'v log" where
  "turns vs p = concat (map (\<lambda>v. [(0, QPush v, Return None), (1, QPop, Return (Some v))]) vs) @
     [(0, QDelete p, Return None), (1, QPop, Throw (OutOfRange ''Queue is empty''))]"

lemma turns_reachable:
  assumes "0 < unat capacity"
  shows "\<exists>s. sys_reachable simple_sec (ThreadSafeSimpleQueue capacity 1) s \<and> sys_log s = turns vs p \<and>
    sys_q s = ThreadSafeSimpleQueue capacity 0"
proof -
  let ?q0 = "ThreadSafeSimpleQueue capacity 1" and ?q1 = "ThreadSafeSimpleQueue capacity 0"
  from push_pop_steps [OF reach_init [of simple_sec ?q0], of ?q0 vs]
  obtain s where s: "sys_reachable simple_sec ?q0 s" "sys_wait s = []" "sys_ready s = []" "sys_q s = ?q0"
    "sys_log s = concat (map (\<lambda>v. [(0, QPush v, Return None), (1, QPop, Return (Some v))]) vs)"
    using assms by (auto simp: ThreadSafeSimpleQueue_def)
  let ?s1 = "ended 0 (QDelete p) (Return None) ?q1 s"
  let ?s2 = "ended 1 QPop (Throw (OutOfRange ''Queue is empty'')) ?q1 ?s1"
  have "sys_step simple_sec s ?s1"
    by (rule step_call_idle [where op = "QDelete p" and r = "Return None" and ns = "[NotifyAll EmptyCV]"])
       (use s in \<open>auto simp: sq_DeleteProducer_def ThreadSafeSimpleQueue_def inside_def ended_def\<close>)
  with s(1) have r1: "sys_reachable simple_sec ?q0 ?s1" by (rule reach_step)
  have "sys_step simple_sec ?s1 ?s2"
    by (rule step_call_idle [where op = QPop and r = "Throw (OutOfRange ''Queue is empty'')" and ns = "[]"])
       (use s in \<open>auto simp: sq_Pop_def ThreadSafeSimpleQueue_def inside_def ended_def\<close>)
  with r1 have "sys_reachable simple_sec ?q0 ?s2" by (rule reach_step)
  with s(5) show ?thesis by (intro exI [of _ ?s2]) (simp add: ended_def turns_def)
qed

lemma turns_log:
  "ops_by 0 (turns vs p) = map QPush vs @ [QDelete p]" "popped (turns vs p) = vs"
  "read_finished (turns vs p)" "runs_readers [map QPush vs @ [QDelete p]] (turns vs p)"
proof -
  show o: "ops_by 0 (turns vs p) = map QPush vs @ [QDelete p]"
    by (induction vs) (simp_all add: turns_def)
  show "popped (turns vs p) = vs" by (induction vs) (simp_all add: turns_def)
  show "read_finished (turns vs p)" by (auto simp: read_finished_def turns_def)
  show "runs_readers [map QPush vs @ [QDelete p]] (turns vs p)"
    using o by (auto simp: runs_readers_def turns_def)
qed

end
