(* ===== verification/SinglePass.thy ===== *)
theory SinglePass
  imports Delivery StreamingQueue
begin

text \<open>
  A single-pass parallel read from end to end: \<^verbatim>\<open>StreamingQueue::CreateChunkQueue\<close> makes the queues of
  the consumers and the readers, the reading threads run \<^verbatim>\<open>ResultTableReader::Read\<close>, and the threads of a
  consumer take chunks until they are told that the read is over.
\<close>

section \<open>The readers of a worker\<close>

lemma word_of_int_inj_on: "inj_on (word_of_int :: int \<Rightarrow> u32) {0..<2 ^ 32}"
  by (rule inj_onI) (simp add: word_of_int_eq_iff take_bit_int_eq_self)

lemma worker_partitions_distinct:
  fixes k :: u32
  shows "distinct (map (word_of_int :: int \<Rightarrow> u32) (filter P [0..sint k - 1])) \<and>
    length (filter P [0..sint k - 1]) < 2 ^ 32"
proof
  have k: "sint k < 2 ^ 31" using sint_lt [of k] by simp
  then have "set (filter P [0..sint k - 1]) \<subseteq> {0..<2 ^ 32}" by auto
  then have "inj_on (word_of_int :: int \<Rightarrow> u32) (set (filter P [0..sint k - 1]))"
    using word_of_int_inj_on by (rule inj_on_subset [rotated])
  then show "distinct (map (word_of_int :: int \<Rightarrow> u32) (filter P [0..sint k - 1]))"
    by (simp add: distinct_map)
  have "length (filter P [0..sint k - 1]) \<le> length [0..sint k - 1]" by (rule length_filter_le)
  also have "\<dots> < 2 ^ 32" using k by simp
  finally show "length (filter P [0..sint k - 1]) < 2 ^ 32" .
qed

lemma readers_of_consumer:
  assumes "map rt_partition rs = map (word_of_int :: int \<Rightarrow> u32) (filter P [0..sint (k :: u32) - 1])"
  shows "distinct (map rt_partition (filter R rs)) \<and> length (filter R rs) < 2 ^ 32"
proof -
  have "length rs = length (filter P [0..sint k - 1])" using arg_cong [OF assms, of length] by simp
  with worker_partitions_distinct [of P k] assms have "distinct (map rt_partition rs)" "length rs < 2 ^ 32" by simp_all
  then show ?thesis using le_less_trans [OF length_filter_le [of R rs]] by (simp add: distinct_map_filter)
qed

section \<open>The contract\<close>

text \<open>C2. A single-pass read delivers every row exactly once and in order, whatever the interleaving.
  Take the queue of one consumer of a streaming queue that \<^verbatim>\<open>CreateChunkQueue\<close> has made, and let its
  readers, none of them stopped or failing, read the rows \<open>rows p\<close> of their partitions while the
  consumer's threads pop. In every state they can reach, the chunks the consumer has got of a
  partition are the first of a sequence of non-empty, consecutively numbered chunks that holds exactly
  the rows of that partition; and once \<^verbatim>\<open>Pop\<close> has told the consumer that the read is over, it has got
  them all. Every row has values of its columns' types, and a chunk holds its rows in the
  layout of the schema: a reader gets their values, except from a chunk whose first variable-length value is null
  or empty.
\<close>

theorem single_pass_delivers:
  assumes "CreateStreamingQueue my inits h t q rt cols capacity sz n True prep cb cl = Some (Inr (Some Q), cl')"
    and "0 < n" "n \<le> INT_MAX" "0 < sint (cl_numWorkers cl)"
    and "0 \<le> sint (cl_workerId cl)" "sint (cl_workerId cl) < sint (cl_numWorkers cl)"
    and "sint (cl_numPartitions cl) + sint (cl_numWorkers cl) \<le> INT_MAX + 1"
    and "i < nat n" "readers = filter (\<lambda>r. rt_queue r = i) (cq_readers Q)"
    and "sys_reachable simple_sec (cq_consumer_queues Q ! i) s"
    and "list_all2 (\<lambda>r ops. undisturbed_read my cs r (rows (rt_partition r)) ops) readers progs"
    and "runs_readers progs (sys_log s)" "r \<in> set readers"
  shows "\<exists>chunks. chunk_sequence cs (rt_partition r) 0 (rows (rt_partition r)) chunks \<and>
    prefix (chunks_of (rt_partition r) (popped (sys_log s))) chunks \<and>
    (read_finished (sys_log s) \<longrightarrow> chunks_of (rt_partition r) (popped (sys_log s)) = chunks)"
proof -
  note Q = streaming_producers [OF assms(1-7)]
  have d: "distinct (map rt_partition readers)" "length readers < 2 ^ 32"
    unfolding assms(9) using readers_of_consumer [of "cq_readers Q"] Q by blast+
  have "cq_consumer_queues Q ! i = ThreadSafeSimpleQueue capacity (of_nat (length readers))"
    using Q assms(8,9) by simp
  then have reach: "sys_reachable simple_sec (ThreadSafeSimpleQueue capacity (of_nat (length readers))) s"
    using assms(10) by simp
  have len: "length progs = length readers" using assms(11) by (simp add: list_all2_lengthD)
  have u: "\<forall>j < length readers. undisturbed_read my cs (readers ! j) (rows (rt_partition (readers ! j))) (progs ! j)"
    using assms(11) by (simp add: list_all2_conv_all_nth)
  obtain j where "j < length readers" "r = readers ! j" using assms(13) by (auto simp: in_set_conv_nth)
  with readers_delivered [OF reach d len u assms(12)] show ?thesis by blast
qed

section \<open>An example\<close>

text \<open>
  A server with statements over the catalog server: a handle holds the rows still to be fetched, and
  the value of the only column is the length of the row.
\<close>

definition serving_mysql :: "text_row list list mysql" where
  "serving_mysql = catalog_mysql\<lparr>mysql_stmt_prepare := \<lambda>q m. (False, m), mysql_stmt_execute := \<lambda>m. (False, m),
     mysql_stmt_field_count := \<lambda>m. 1, mysql_stmt_result_metadata := \<lambda>m. Some (Some [demo_field]),
     mysql_stmt_bind_result := \<lambda>bs m. (False, m),
     mysql_stmt_fetch := \<lambda>m. case m of [] \<Rightarrow> ((100, []), [])
       | r # rs \<Rightarrow> ((0, [Fetched 8 (CellBytes (to_le 8 (word_of_int (int (length r)) :: u64)))]), rs)\<rparr>"

lemma serving_answers: "answers_like_catalog serving_mysql"
  using catalog_answers by (simp add: answers_like_catalog_def serving_mysql_def)

definition serving_row :: "text_row list \<Rightarrow> row" where
  "serving_row r = demo_row (int (length r))"

definition serving_connection :: "text_row list list \<Rightarrow> text_row list list S2Connection" where
  "serving_connection m = catalog_connection m\<lparr>c_stmt := True\<rparr>"

definition serving_at :: "text_row list list \<Rightarrow> text_row list list S2Connection" where
  "serving_at rs = (case rs of
     [] \<Rightarrow> serving_connection []\<lparr>c_stmt := False\<rparr>
   | r # rs' \<Rightarrow> serving_connection rs'\<lparr>c_last_fetched_row := Some (fst (serving_row r)),
       c_last_fetched_lengths := Some (snd (serving_row r)), c_last_columns_num := 1\<rparr>)"

lemmas serving_defs = serving_at_def serving_connection_def catalog_connection_def new_S2Connection_def
  serving_mysql_def catalog_mysql_def

lemma serving_Advance:
  assumes "c = serving_connection rs \<or> (\<exists>r. c = serving_at (r # rs))"
  shows "Advance serving_mysql c = (Inr (rs \<noteq> []), serving_at rs)"
  using assms
  by (elim disjE exE; cases rs)
     (simp_all add: Advance_def AdvanceBinary_def FreeLastFetched_def serving_defs act_simps set_row_def call_def
       demo_field_def bind_of_def MYSQL_NO_DATA_def CleanupStatement_def serving_row_def demo_row_def)

lemma serving_delivers: "delivers serving_mysql (map serving_row rs) None (serving_at rs)"
proof (induction rs)
  case Nil
  show ?case by (simp add: delivers_Nil_iff serving_defs)
next
  case (Cons r rs)
  have "Advance serving_mysql (serving_at (r # rs)) = (Inr (rs \<noteq> []), serving_at rs)"
    by (rule serving_Advance) blast
  with Cons show ?case
    using delivers.more_rows [of "serving_at (r # rs)" "fst (serving_row r)" "snd (serving_row r)" serving_mysql
        "rs \<noteq> []" "serving_at rs" "map serving_row rs" None]
    by (simp add: serving_at_def)
qed


lemma serving_Prepare:
  "Prepare serving_mysql q True True (serving_connection (r # rs)) = (Inr True, serving_at (r # rs))"
  using serving_Advance [of "serving_connection (r # rs)" "r # rs"]
  by (simp add: Prepare_def CleanupStatement_def FreeLastFetched_def serving_connection_def catalog_connection_def
      new_S2Connection_def act_simps call_def serving_mysql_def catalog_mysql_def)

lemma serving_read:
  assumes "r = new_reader (serving_connection (h # hs)) k p 16 qry (Some example_schema)" "length hs < 100"
  obtains chunks where
    "undisturbed_read serving_mysql example_schema r (map serving_row (h # hs)) (map QPush chunks @ [QDelete (sint p)])"
proof -
  let ?alloc = "\<lambda>k::nat. Some (replicate (unat (16 :: u64)) 0)"
  let ?rows = "map serving_row (h # hs)" and ?r1 = "r\<lparr>rt_conn := serving_at (h # hs)\<rparr>"
  have rows: "?rows = map demo_row (map (int \<circ> length) (h # hs))" by (simp add: serving_row_def)
  have schema: "example_schema = demo_schema" by (simp add: example_schema_def demo_schema_def)
  have f: "rt_row_schema r = Some example_schema" "rt_is_parallel r" "rt_chunk_size r = 16" "rt_partition r = p"
    "fst (rt_error r) = 0"
    using assms(1) by (simp_all add: new_reader_def)
  have "PrepareRead serving_mysql True r = (Inr (), ?r1)"
    using serving_Prepare [of qry h hs] assms(1) by (simp add: PrepareRead_def act_simps on_conn_def new_reader_def)
  then have p: "(if rt_is_parallel r then PrepareRead serving_mysql True r else (Inr (), r)) = (Inr (), ?r1)"
    using f by simp
  have h: "fst (rt_error ?r1) = 0" "delivers serving_mysql ?rows None (rt_conn ?r1)"
    "undisturbed (\<lambda>k. False) ?alloc (rt_chunk_size r)" "rows_fit_in (rt_chunk_size r) example_schema ?rows"
    "length ?rows < 2 ^ 31 - 1"
    using f assms(2) serving_delivers [of "h # hs"] undisturbed_demo [of 16]
      demo_rows_fit_in [of 16 "map (int \<circ> length) (h # hs)"]
    unfolding rows schema by simp_all
  from Read_pushes [OF f(1) p h] obtain chunks r' where
    "Read serving_mysql (\<lambda>k. False) ?alloc r = Some (map QPush chunks @ [QDelete (sint p)], Inr r')"
    unfolding f(4) by blast
  with f(1) p h have "undisturbed_read serving_mysql example_schema r ?rows (map QPush chunks @ [QDelete (sint p)])"
    unfolding undisturbed_read_def by blast
  then show thesis by (rule that)
qed

theorem single_pass_delivers_witness:
  "\<exists>Q cl' s. CreateStreamingQueue serving_mysql (\<lambda>p. (Some [[], [[]]], None)) None (Some ''t'') ''q'' ReadTypeOriginalTable
      [] 4 16 2 True True True (example_client [[[Some example_plan_text]], []]) = Some (Inr (Some Q), cl') \<and>
    sys_reachable simple_sec (cq_consumer_queues Q ! 1) s \<and>
    chunk_sequence example_schema 1 0 [demo_row 0, demo_row 1] (chunks_of 1 (popped (sys_log s)))"
proof -
  let ?m = "[[[Some example_plan_text]], []]"
  obtain Q cl' qry where Q: "CreateStreamingQueue serving_mysql (\<lambda>p. (Some [[], [[]]], None)) None (Some ''t'') ''q''
      ReadTypeOriginalTable [] 4 16 2 True True True (example_client ?m) = Some (Inr (Some Q), cl')"
    and r: "filter (\<lambda>r. rt_queue r = 1) (cq_readers Q) =
      [new_reader (catalog_connection [[], [[]]]\<lparr>c_stmt := True\<rparr>) 1 1 16 qry (Some example_schema)]"
    using example_creation [OF serving_answers, of "\<lambda>p. [[], [[]]]"] by blast
  define r0 where "r0 = new_reader (serving_connection [[], [[]]]) 1 1 16 qry (Some example_schema)"
  have r: "filter (\<lambda>r. rt_queue r = 1) (cq_readers Q) = [r0]" "rt_partition r0 = 1"
    using r by (simp_all add: r0_def serving_connection_def new_reader_def)
  have n: "0 < (2::int)" "(2::int) \<le> INT_MAX" "0 < sint (cl_numWorkers (example_client ?m))"
    "0 \<le> sint (cl_workerId (example_client ?m))"
    "sint (cl_workerId (example_client ?m)) < sint (cl_numWorkers (example_client ?m))"
    "sint (cl_numPartitions (example_client ?m)) + sint (cl_numWorkers (example_client ?m)) \<le> INT_MAX + 1"
    "1 < nat 2"
    by (simp_all add: example_client_def INT_MAX_def)
  have q: "cq_consumer_queues Q ! 1 = ThreadSafeSimpleQueue 4 1"
    using streaming_producers [OF Q n(1-6)] r(1) by simp
  obtain chunks where u: "undisturbed_read serving_mysql example_schema r0 (map serving_row [[], [[]]])
      (map QPush chunks @ [QDelete (sint (1 :: u32))])"
    by (rule serving_read [of r0 "[]" "[[[]]]" 1 1 qry]) (simp_all add: r0_def)
  obtain s where s: "sys_reachable simple_sec (cq_consumer_queues Q ! 1) s" "sys_log s = turns chunks (sint (1 :: u32))"
    using turns_reachable [of 4 chunks "sint (1 :: u32)"] q by auto
  have "list_all2 (\<lambda>r ops. undisturbed_read serving_mysql example_schema r
      ((\<lambda>p. map serving_row [[], [[]]]) (rt_partition r)) ops) [r0] [map QPush chunks @ [QDelete (sint (1 :: u32))]]"
    using u by simp
  from single_pass_delivers [OF Q n r(1) [symmetric] s(1) this, of r0] s(2) turns_log [of chunks "sint (1 :: u32)"] r(2)
  have "chunk_sequence example_schema 1 0 [demo_row 0, demo_row 1] (chunks_of 1 (popped (sys_log s)))"
    by (auto simp: serving_row_def)
  with Q s(1) show ?thesis by (intro exI [of _ Q] exI [of _ cl'] exI [of _ s] conjI)
qed

end
