(* ===== verification/MultiPass.thy ===== *)
theory MultiPass
  imports MultiPassQueue SinglePass
begin

text \<open>
  A multi-pass parallel read from end to end: \<^verbatim>\<open>MultiPassQueue::CreateChunkQueue\<close> makes the batch queues
  of the consumers and the readers, the reading threads run \<^verbatim>\<open>ResultTableReader::Read\<close>, and the threads
  of a consumer ask for chunks by the number of their partition and their own (\<^verbatim>\<open>GetById\<close>).
\<close>

section \<open>What the consumers have got\<close>

fun got_chunks :: "int \<Rightarrow> Chunk log \<Rightarrow> Chunk list" where
  "got_chunks p [] = []"
| "got_chunks p ((t, QGet p' v, Return (Some c)) # l) = (if p' = p then c # got_chunks p l else got_chunks p l)"
| "got_chunks p (_ # l) = got_chunks p l"

lemma got_chunks_append [simp]: "got_chunks p (l @ l') = got_chunks p l @ got_chunks p l'"
  by (induction p l rule: got_chunks.induct) auto

text \<open>The exception by which \<^verbatim>\<open>Get\<close> tells that nothing is left and nothing will come.\<close>

definition end_entry :: "nat \<times> Chunk qop \<times> Chunk answer outcome \<Rightarrow> bool" where
  "end_entry = (\<lambda>(t, op, r). (\<exists>p v. op = QGet p v) \<and> r = Throw (OutOfRange ''Queue is empty''))"

definition saw_end :: "Chunk log \<Rightarrow> bool" where
  "saw_end l \<longleftrightarrow> (\<exists>e \<in> set l. end_entry e)"

text \<open>As \<open>runs_readers\<close>, but the consumers get chunks of partitions of theirs.\<close>

definition runs_getters :: "int list \<Rightarrow> Chunk qop list list \<Rightarrow> Chunk log \<Rightarrow> bool" where
  "runs_getters ids progs l \<longleftrightarrow>
     (\<forall>(t, op, r) \<in> set l. length progs \<le> t \<longrightarrow> (\<exists>p v. op = QGet p v \<and> p \<in> set ids \<and> 0 \<le> v)) \<and>
     (\<forall>i < length progs. prefix (ops_by i l) (progs ! i))"

lemma runs_getters_prefix: "runs_getters ids progs (l @ l') \<Longrightarrow> runs_getters ids progs l"
  by (auto simp: runs_getters_def dest: append_prefixD)

text \<open>As long as the partition has not been read to its end, every chunk that was got is the one asked for.\<close>

definition gets_right :: "Chunk list \<Rightarrow> int \<Rightarrow> Chunk log \<Rightarrow> bool" where
  "gets_right cs p l \<longleftrightarrow>
     (\<forall>l1 e l2. l = l1 @ e # l2 \<longrightarrow> (\<forall>t v a. e = (t, QGet p v, Return a) \<longrightarrow> QDelete p \<notin> set (ops_of l1) \<longrightarrow>
        nat v < length cs \<and> a = Some (cs ! nat v)))"

lemma split_snoc:
  "(\<forall>l1 x l2. l @ [e] = l1 @ x # l2 \<longrightarrow> P l1 x) \<longleftrightarrow> (\<forall>l1 x l2. l = l1 @ x # l2 \<longrightarrow> P l1 x) \<and> P l e"
proof
  assume h: "\<forall>l1 x l2. l @ [e] = l1 @ x # l2 \<longrightarrow> P l1 x"
  then have "P l1 x" if "l = l1 @ x # l2" for l1 x l2 using that by simp
  with h show "(\<forall>l1 x l2. l = l1 @ x # l2 \<longrightarrow> P l1 x) \<and> P l e" by blast
next
  assume h: "(\<forall>l1 x l2. l = l1 @ x # l2 \<longrightarrow> P l1 x) \<and> P l e"
  show "\<forall>l1 x l2. l @ [e] = l1 @ x # l2 \<longrightarrow> P l1 x"
  proof (intro allI impI)
    fix l1 x l2
    assume "l @ [e] = l1 @ x # l2"
    with h show "P l1 x" by (cases l2 rule: rev_cases) auto
  qed
qed

lemma gets_right_snoc:
  "gets_right cs p (l @ [(t, op, r)]) \<longleftrightarrow> gets_right cs p l \<and>
     (\<forall>v a. op = QGet p v \<longrightarrow> r = Return a \<longrightarrow> QDelete p \<notin> set (ops_of l) \<longrightarrow>
        nat v < length cs \<and> a = Some (cs ! nat v))"
  unfolding gets_right_def split_snoc by auto

section \<open>The programs of the readers\<close>

definition multi_programs :: "int list \<Rightarrow> (nat \<Rightarrow> Chunk list) \<Rightarrow> Chunk qop list list \<Rightarrow> bool" where
  "multi_programs ids chunks progs \<longleftrightarrow> length progs = length ids \<and> distinct ids \<and>
     (\<forall>i < length ids. progs ! i = map QPush (chunks i) @ [QDelete (ids ! i)] \<and> length (chunks i) \<le> 2 ^ 31 \<and>
        (\<forall>k < length (chunks i). unat (chunk_id (chunks i ! k)) = k \<and> value_partition (chunks i ! k) = ids ! i))"

lemma next_op:
  assumes "prefix (xs @ [op]) (map QPush cs @ [QDelete p])"
  shows "deletes xs = 0 \<and> prefix (push_values xs) cs \<and>
    (op = QDelete p \<or> length (push_values xs) < length cs \<and> op = QPush (cs ! length (push_values xs)))"
proof -
  obtain zs where e: "map QPush cs @ [QDelete p] = xs @ op # zs" using assms by (auto simp: prefix_def)
  show ?thesis
  proof (cases zs rule: rev_cases)
    case Nil
    then have "xs = map QPush cs" "op = QDelete p" using e by simp_all
    then show ?thesis by simp
  next
    case (snoc zs' z)
    then have "map QPush cs = xs @ op # zs'" using e by simp
    then obtain cs1 c cs2 where "cs = cs1 @ c # cs2" "xs = map QPush cs1" "op = QPush c"
      by (auto simp: map_eq_append_conv map_eq_Cons_conv)
    then show ?thesis by simp
  qed
qed

section \<open>The invariant of one partition\<close>

text \<open>
  Of the partition \<open>p\<close> that thread \<open>i\<close> reads: its producer is active until the reader has left; the
  chunks in its row of slots are those of the reader; what was got and what is in the row is
  together what was pushed, each once; and every chunk that was got was the right one.
\<close>

definition reader_inv :: "Chunk list \<Rightarrow> int \<Rightarrow> nat \<Rightarrow> Chunk log \<Rightarrow> bool \<Rightarrow> Chunk option list \<Rightarrow> bool" where
  "reader_inv cs p i l b row \<longleftrightarrow> (b \<longleftrightarrow> deletes (ops_by i l) = 0) \<and>
     (\<forall>c. Some c \<in> set row \<longrightarrow> c = cs ! unat (chunk_id c)) \<and>
     mset (got_chunks p l) + mset (set_values row) = mset (push_values (ops_by i l)) \<and>
     gets_right cs p l \<and> (saw_end l \<longrightarrow> mset (got_chunks p l) = mset cs)"

lemma saw_end_snoc: "saw_end (l @ [e]) \<longleftrightarrow> saw_end l \<or> end_entry e"
  by (auto simp: saw_end_def)

lemma reader_inv_other:
  assumes "reader_inv cs p i l b row" "t \<noteq> i" "got_chunks p [(t, op, r)] = []" "\<forall>v a. op = QGet p v \<longrightarrow> r \<noteq> Return a"
    and "end_entry (t, op, r) \<Longrightarrow> mset (got_chunks p l) = mset cs"
  shows "reader_inv cs p i (l @ [(t, op, r)]) b row"
  using assms unfolding reader_inv_def gets_right_snoc saw_end_snoc by auto

lemma set_values_insert:
  assumes "k < length row" "row ! k = None"
  shows "mset (set_values (row[k := Some c])) = add_mset c (mset (set_values row))"
  using set_values_update [of k "row[k := Some c]" c] assms list_update_id [of row k] by simp

lemma reader_inv_push:
  assumes "reader_inv cs p i l b row" "k < length row" "row ! k = None" "c = cs ! unat (chunk_id c)"
  shows "reader_inv cs p i (l @ [(i, QPush c, Return a)]) b (row[k := Some c])"
  using assms set_values_insert [OF assms(2,3), of c] set_update_subset_insert [of row k "Some c"]
  unfolding reader_inv_def gets_right_snoc saw_end_snoc by (auto simp: end_entry_def)

lemma reader_inv_delete:
  assumes "reader_inv cs p i l b row"
  shows "reader_inv cs p i (l @ [(i, QDelete p, Return a)]) False row"
  using assms unfolding reader_inv_def gets_right_snoc saw_end_snoc by (auto simp: end_entry_def)

lemma reader_inv_get:
  assumes "reader_inv cs p i l b row" "k < length row" "row ! k = Some c" "t \<noteq> i"
    and "prefix (push_values (ops_by i l)) cs" "\<forall>op \<in> set (ops_by i l). is_delete op \<longrightarrow> op = QDelete p"
    and "unat (chunk_id c) < length (push_values (ops_by i l))" "b \<Longrightarrow> unat (chunk_id c) = nat v"
  shows "reader_inv cs p i (l @ [(t, QGet p v, Return (Some c))]) b (row[k := None])"
proof -
  note inv = assms(1) [unfolded reader_inv_def]
  have c: "c = cs ! unat (chunk_id c)" using inv assms(2,3) nth_mem by fastforce
  have m: "mset (set_values row) = add_mset c (mset (set_values (row[k := None])))"
    using set_values_update [OF assms(2,3)] .
  have le: "length (push_values (ops_by i l)) \<le> length cs" using assms(5) by (rule prefix_length_le)
  have "\<not> saw_end l"
  proof
    assume "saw_end l"
    then have "mset cs + mset (set_values row) = mset (push_values (ops_by i l))" using inv by auto
    then have "length cs + length (set_values row) = length (push_values (ops_by i l))"
      by (metis size_mset size_union)
    with le m show False by (metis add_eq_self_zero le_add1 le_antisym length_0_conv mset_zero_iff add_mset_not_empty)
  qed
  moreover have "nat v < length cs \<and> Some c = Some (cs ! nat v)" if "QDelete p \<notin> set (ops_of l)"
  proof -
    have "set (ops_by i l) \<subseteq> set (ops_of l)" unfolding ops_by_def ops_of_def by (simp add: image_mono)
    with that assms(6) have "deletes (ops_by i l) = 0" by (auto simp: deletes_def filter_empty_conv)
    then show ?thesis using inv assms(7,8) c le by simp
  qed
  moreover have "Some d \<in> set row" if "Some d \<in> set (row[k := None])" for d
    using that set_update_subset_insert [of row k None] by auto
  ultimately show ?thesis
    using inv m assms(4) unfolding reader_inv_def gets_right_snoc saw_end_snoc by (auto simp: end_entry_def)
qed

section \<open>The sections on the slots\<close>

abbreviation bq_row :: "BatchQueue \<Rightarrow> nat \<Rightarrow> Chunk option list" where
  "bq_row q i \<equiv> slot_row (bsz q) (bq_data q) i"

lemma row_update:
  assumes "shape_ok q" "i < bq_totalProducers q" "k < bsz q" "bq_data q' = (bq_data q)[i * bsz q + k := x]"
    and "bq_batchSize q' = bq_batchSize q" "j < bq_totalProducers q"
  shows "bq_row q' j = (if j = i then (bq_row q i)[k := x] else bq_row q j)"
  using slot_row_update [OF shape_data [OF assms(1)] assms(2,6,3), of x] assms(4,5) by simp

lemma push_slot:
  assumes "shape_ok q" "distinct (bq_producerIds q)" "i < bq_totalProducers q"
    and "value_partition c = bq_producerIds q ! i" "unat (chunk_id c) < 2 ^ 31" "bq_Push c q = (Return a, q', ns)"
  shows "\<exists>k. k < bsz q \<and> bq_row q i ! k = None \<and> bq_data q' = (bq_data q)[i * bsz q + k := Some c] \<and>
    bq_active q' = bq_active q \<and> bq_activeProducers q' = bq_activeProducers q"
proof -
  let ?k = "unat (chunk_id c) mod bsz q"
  have B: "0 < bq_batchSize q" "0 < bsz q" using assms(1) by (simp_all add: shape_ok_def)
  then have k: "?k < bsz q" by simp
  have "value_id c = int (unat (chunk_id c))"
    unfolding value_id_def using assms(5) by (rule sint_ucast_int)
  then have "value_index q c = int (i * bsz q + ?k)"
    unfolding value_index_def assms(4) using targetIndex_nth [OF assms(2,3) B(1)] by simp
  then have vi: "nat (value_index q c) = i * bsz q + ?k" by (metis nat_int)
  show ?thesis
    using assms(6) k vi slot_row_nth(1) [OF shape_data [OF assms(1)] assms(3) k]
    by (intro exI [of _ ?k]) (auto simp: bq_Push_def Let_def split: if_splits)
qed

lemma get_slot:
  assumes "shape_ok q" "distinct (bq_producerIds q)" "i < bq_totalProducers q" "0 \<le> v"
    and "bq_GetLoop (bq_producerIds q ! i) v q = (Return a, q', ns)"
  shows "\<exists>k c. k < bsz q \<and> bq_row q i ! k = Some c \<and> a = Some c \<and> bq_data q' = (bq_data q)[i * bsz q + k := None] \<and>
    bq_active q' = bq_active q \<and> bq_activeProducers q' = bq_activeProducers q"
proof -
  let ?k = "nat v mod bsz q"
  have B: "0 < bq_batchSize q" "0 < bsz q" using assms(1) by (simp_all add: shape_ok_def)
  then have k: "?k < bsz q" by simp
  have ti: "nat (targetIndex q (bq_producerIds q ! i) v) = i * bsz q + ?k"
    using targetIndex_nth [OF assms(2,3) B(1) assms(4)] by (metis nat_int)
  obtain c where c: "bq_data q ! (i * bsz q + ?k) = Some c"
    using assms(5) by (auto simp: bq_GetLoop_def Let_def ti split: if_splits option.splits)
  obtain r q1 where rv: "readValue (i * bsz q + ?k) q = (r, q1)" by fastforce
  obtain d rest where d: "bq_queue q1 = d # rest"
    using assms(5) rv by (auto simp: bq_GetLoop_def Let_def ti split: if_splits option.splits list.splits)
  obtain q2 ns2 where fb: "finish_batch (q1\<lparr>bq_queue := rest\<rparr>) = (q2, ns2)" by fastforce
  note f = finish_batch_frame [OF fb]
  have "a = r" "q' = q2"
    using assms(5) rv c d fb by (auto simp: bq_GetLoop_def Let_def ti split: if_splits)
  then show ?thesis
    using rv c k f slot_row_nth(1) [OF shape_data [OF assms(1)] assms(3) k]
    by (intro exI [of _ ?k] exI [of _ c]) (auto simp: readValue_def Let_def)
qed

lemma get_other:
  assumes "batch_sec op' q = (r, q', ns)" "op' = QGet p v \<or> op' = QGetLoop p v" "\<forall>a. r \<noteq> Return a"
  shows "q' = q"
    "r = Throw (OutOfRange ''Queue is empty'') \<Longrightarrow> bq_itemsToRead q = 0 \<and> bq_activeProducers q = 0"
proof -
  show "q' = q"
    using assms by (auto simp: bq_Get_def bq_GetLoop_def Let_def split: if_splits option.splits list.splits prod.splits)
  have "bq_GetLoop p v q \<noteq> (Throw (OutOfRange ''Queue is empty''), q', ns)"
    by (auto simp: bq_GetLoop_def Let_def split: option.splits list.splits prod.splits)
  then show "bq_itemsToRead q = 0 \<and> bq_activeProducers q = 0" if "r = Throw (OutOfRange ''Queue is empty'')"
    using assms(1,2) that by (auto simp: bq_Get_def split: if_splits)
qed

lemma get_return:
  assumes "batch_sec op' q = (Return a, q', ns)" "op' = QGet p v \<or> op' = QGetLoop p v"
  shows "bq_GetLoop p v q = (Return a, q', ns)"
  using assms by (auto simp: bq_Get_def split: if_splits)

lemma delete_slot:
  assumes "shape_ok q" "distinct (bq_producerIds q)" "i < bq_totalProducers q"
    and "bq_DeleteProducer (bq_producerIds q ! i) q = (r, q', ns)"
  shows "r = Return None" "bq_data q' = bq_data q" "bq_active q' = (bq_active q)[i := False]"
    "bq_activeProducers q' = bq_activeProducers q - 1"
proof -
  note pn = producer_number_nth [OF assms(2,3)]
  let ?q1 = "q\<lparr>bq_active := (bq_active q)[i := False], bq_activeProducers := bq_activeProducers q - 1\<rparr>"
  have i: "i < length (bq_active q)" using assms(1,3) by (simp add: shape_ok_def)
  obtain q2 ns2 where fb: "finish_batch ?q1 = (q2, ns2)" by fastforce
  note f = finish_batch_frame [OF fb]
  have "r = Return None" "q' = q2" using assms(4) i fb pn by (simp_all add: bq_DeleteProducer_def Let_def)
  then show "r = Return None" "bq_data q' = bq_data q" "bq_active q' = (bq_active q)[i := False]"
    "bq_activeProducers q' = bq_activeProducers q - 1"
    using f by simp_all
qed

lemma wait_changes_nothing:
  assumes "batch_sec op q = (Wait c, q', ns)"
  shows "q' = q"
  using assms
  by (cases op) (auto simp: bq_Push_def bq_Pop_def bq_Get_def bq_GetLoop_def bq_DeleteProducer_def Let_def
      split: if_splits option.splits list.splits prod.splits)


section \<open>The invariant of the queue\<close>

definition multi_inv :: "int list \<Rightarrow> (nat \<Rightarrow> Chunk list) \<Rightarrow> Chunk log \<Rightarrow> BatchQueue \<Rightarrow> bool" where
  "multi_inv ids chunks l q \<longleftrightarrow> bq_producerIds q = ids \<and> bq_batchSize q < 2 ^ 31 \<and>
     (\<exists>nx. batch_inv q nx \<and> (\<forall>i < length ids. nx (ids ! i) = length (push_values (ops_by i l)))) \<and>
     bq_activeProducers q = int (length (filter id (bq_active q))) \<and>
     (\<forall>i < length ids. reader_inv (chunks i) (ids ! i) i l (bq_active q ! i) (bq_row q i))"

lemma multi_invI:
  assumes "bq_producerIds q' = ids" "bq_batchSize q' < 2 ^ 31" "batch_inv q' nx"
    and "\<And>i. i < length ids \<Longrightarrow> nx (ids ! i) = length (push_values (ops_by i l))"
    and "bq_activeProducers q' = int (length (filter id (bq_active q')))"
    and "\<And>i. i < length ids \<Longrightarrow> reader_inv (chunks i) (ids ! i) i l (bq_active q' ! i) (bq_row q' i)"
  shows "multi_inv ids chunks l q'"
  unfolding multi_inv_def using assms by blast

lemma multi_inv_init:
  assumes "0 < sint B" "distinct ids"
  shows "multi_inv ids chunks [] (ThreadSafeBatchQueue B ids)"
proof -
  let ?q = "ThreadSafeBatchQueue B ids"
  have "bq_active ?q ! i" "set (bq_row ?q i) \<subseteq> {None}" "set_values (bq_row ?q i) = []" if "i < length ids" for i
    using that by (auto simp: ThreadSafeBatchQueue_def slot_row_def set_values_def)
  then have "reader_inv (chunks i) (ids ! i) i [] (bq_active ?q ! i) (bq_row ?q i)" if "i < length ids" for i
    using that by (force simp: reader_inv_def gets_right_def saw_end_def)
  moreover have "bq_batchSize ?q < 2 ^ 31" using sint_lt [of B] by (simp add: ThreadSafeBatchQueue_def)
  ultimately show ?thesis
    using batch_inv_init [OF assms] by (auto simp: multi_inv_def) (simp_all add: ThreadSafeBatchQueue_def)
qed

lemma own_multi_program:
  assumes "multi_programs ids chunks progs" "runs_getters ids progs l" "i < length ids"
  shows "prefix (ops_by i l) (map QPush (chunks i) @ [QDelete (ids ! i)])"
  using assms by (metis multi_programs_def runs_getters_def)

lemma pushed_beginning:
  assumes "multi_programs ids chunks progs" "runs_getters ids progs l" "i < length ids"
  shows "prefix (push_values (ops_by i l)) (chunks i)"
    "\<forall>op \<in> set (ops_by i l). is_delete op \<longrightarrow> op = QDelete (ids ! i)"
proof -
  note p = own_multi_program [OF assms]
  show "prefix (push_values (ops_by i l)) (chunks i)" using prefix_push_values [OF p] by simp
  have "set (ops_by i l) \<subseteq> set (map QPush (chunks i) @ [QDelete (ids ! i)])" using p by (rule set_mono_prefix)
  then show "\<forall>op \<in> set (ops_by i l). is_delete op \<longrightarrow> op = QDelete (ids ! i)" by auto
qed

text \<open>When nothing is left in the queue and no producer either, everything was got.\<close>

lemma all_got:
  assumes "multi_inv ids chunks l q" "multi_programs ids chunks progs" "runs_getters ids progs l"
    and "bq_itemsToRead q = 0" "bq_activeProducers q = 0" "i < length ids"
  shows "mset (got_chunks (ids ! i) l) = mset (chunks i)"
proof -
  obtain nx where inv: "batch_inv q nx" using assms(1) by (auto simp: multi_inv_def)
  then have sh: "shape_ok q" and it: "bq_itemsToRead q = int (filled (bq_data q))" by (simp_all add: batch_inv_def)
  have i: "i < bq_totalProducers q" using assms(1,6) by (simp add: multi_inv_def bq_totalProducers_def)
  have ri: "reader_inv (chunks i) (ids ! i) i l (bq_active q ! i) (bq_row q i)"
    using assms(1,6) by (simp add: multi_inv_def)
  have none: "\<forall>x \<in> set (bq_data q). x = None"
    using filled_0 [of "bq_data q"] it assms(4) by (auto simp: in_set_conv_nth)
  have "set (bq_row q i) \<subseteq> set (bq_data q)"
    unfolding slot_row_def by (meson order_trans set_drop_subset set_take_subset)
  with none have "set_values (bq_row q i) = []" by (auto simp: set_values_def filter_empty_conv)
  moreover have "\<not> bq_active q ! i"
  proof -
    have "filter id (bq_active q) = []" using assms(1,5) by (simp add: multi_inv_def)
    moreover have "bq_active q ! i \<in> set (bq_active q)" using sh i by (simp add: shape_ok_def)
    ultimately show ?thesis by (auto simp: filter_empty_conv)
  qed
  then have "push_values (ops_by i l) = chunks i"
    using ri prefix_of_prog [OF own_multi_program [OF assms(2,3,6)]] by (auto simp: reader_inv_def)
  ultimately show ?thesis using ri by (simp add: reader_inv_def)
qed

text \<open>The steps, one lemma for each kind.\<close>

lemma multi_push:
  assumes "multi_inv ids chunks l q" "multi_programs ids chunks progs" "i < length ids"
    and "deletes (ops_by i l) = 0" "length (push_values (ops_by i l)) < length (chunks i)"
    and "c = chunks i ! length (push_values (ops_by i l))"
    and "bq_Push c q = (r, q', ns)" "\<forall>cv. r \<noteq> Wait cv"
  shows "r = Return None \<and> multi_inv ids chunks (l @ [(i, QPush c, r)]) q'"
proof -
  let ?n = "length (push_values (ops_by i l))" and ?l = "l @ [(i, QPush c, r)]"
  obtain nx where nx: "batch_inv q nx" "\<forall>j < length ids. nx (ids ! j) = length (push_values (ops_by j l))"
    using assms(1) by (auto simp: multi_inv_def)
  have q: "bq_producerIds q = ids" "bq_batchSize q < 2 ^ 31" and i: "i < bq_totalProducers q"
    and ri: "\<forall>j < length ids. reader_inv (chunks j) (ids ! j) j l (bq_active q ! j) (bq_row q j)"
    using assms(1,3) by (simp_all add: multi_inv_def bq_totalProducers_def)
  have sh: "shape_ok q" and d: "distinct ids" using nx(1) q(1) by (simp_all add: batch_inv_def)
  have c: "value_partition c = bq_producerIds q ! i" "unat (chunk_id c) = nx (bq_producerIds q ! i)"
    "unat (chunk_id c) = ?n" "?n < 2 ^ 31"
    using assms(2,3,5,6) nx(2) q(1) by (auto simp: multi_programs_def)
  have act: "bq_active q ! i" using ri assms(3,4) by (simp add: reader_inv_def)
  have "r = Return None \<and> batch_inv q' (nx(ids ! i := Suc (nx (ids ! i))))"
    using push_next [OF nx(1) i act q(2) c(1,2)] c assms(7,8) q(1) by (auto split: if_splits)
  then have r: "r = Return None" and inv': "batch_inv q' (nx(ids ! i := Suc (nx (ids ! i))))" by simp_all
  note ids = section_ids(1) [OF assms(7)]
  obtain k where k: "k < bsz q" "bq_row q i ! k = None" "bq_data q' = (bq_data q)[i * bsz q + k := Some c]"
    "bq_active q' = bq_active q" "bq_activeProducers q' = bq_activeProducers q"
    using push_slot [OF sh _ i c(1)] assms(7) d q(1) r c(3,4) by auto
  have "reader_inv (chunks j) (ids ! j) j ?l (bq_active q' ! j) (bq_row q' j)" if j: "j < length ids" for j
  proof -
    have row: "bq_row q' j = (if j = i then (bq_row q i)[k := Some c] else bq_row q j)"
      using row_update [OF sh i k(1,3)] ids j q(1) by (simp add: bq_totalProducers_def)
    show ?thesis
    proof (cases "j = i")
      case True
      have "k < length (bq_row q i)" using slot_row_nth(2) [OF shape_data [OF sh] i k(1)] k(1) by simp
      with reader_inv_push [of "chunks i" "ids ! i" i l "bq_active q ! i" "bq_row q i" k c] ri assms(3,6) c(3) k(2,4) row r
      show ?thesis unfolding True by simp
    next
      case False
      with reader_inv_other [of "chunks j" "ids ! j" j l "bq_active q ! j" "bq_row q j" i "QPush c" r] ri j k(4) row
      show ?thesis by (simp add: end_entry_def)
    qed
  qed
  moreover have "(nx(ids ! i := Suc (nx (ids ! i)))) (ids ! j) = length (push_values (ops_by j ?l))"
    if "j < length ids" for j
    using nx(2) d assms(3) that by (auto simp: nth_eq_iff_index_eq)
  moreover have "bq_activeProducers q' = int (length (filter id (bq_active q')))"
    using assms(1) k(4,5) by (simp add: multi_inv_def)
  ultimately show ?thesis
    using multi_invI [OF _ _ inv'] ids q r by simp
qed


lemma filter_id_False:
  "i < length xs \<Longrightarrow> xs ! i \<Longrightarrow> Suc (length (filter id (xs[i := False]))) = length (filter id xs)"
  by (induction xs arbitrary: i) (auto simp: nth_Cons' split: nat.split)

lemma multi_delete:
  assumes "multi_inv ids chunks l q" "i < length ids" "deletes (ops_by i l) = 0"
    and "bq_DeleteProducer (ids ! i) q = (r, q', ns)"
  shows "r = Return None \<and> multi_inv ids chunks (l @ [(i, QDelete (ids ! i), r)]) q'"
proof -
  obtain nx where nx: "batch_inv q nx" "\<forall>j < length ids. nx (ids ! j) = length (push_values (ops_by j l))"
    using assms(1) by (auto simp: multi_inv_def)
  have q: "bq_producerIds q = ids" "bq_batchSize q < 2 ^ 31" and i: "i < bq_totalProducers q"
    and ri: "\<forall>j < length ids. reader_inv (chunks j) (ids ! j) j l (bq_active q ! j) (bq_row q j)"
    using assms(1,2) by (simp_all add: multi_inv_def bq_totalProducers_def)
  have sh: "shape_ok q" and d: "distinct ids" using nx(1) q(1) by (simp_all add: batch_inv_def)
  have ai: "i < length (bq_active q)" using sh i by (simp add: shape_ok_def)
  have act: "bq_active q ! i" using ri assms(2,3) by (simp add: reader_inv_def)
  note s = delete_slot [OF sh _ i, unfolded q(1), OF d assms(4)]
  note ids = section_ids(4) [OF assms(4)]
  have inv': "batch_inv q' nx" using delete_keeps_inv [OF nx(1) i] assms(4) q(1) by simp
  have "reader_inv (chunks j) (ids ! j) j (l @ [(i, QDelete (ids ! i), r)]) (bq_active q' ! j) (bq_row q' j)"
    if j: "j < length ids" for j
  proof (cases "j = i")
    case True
    with reader_inv_delete [OF ri [rule_format, OF assms(2)]] s ids ai show ?thesis by simp
  next
    case False
    with reader_inv_other [of "chunks j" "ids ! j" j l "bq_active q ! j" "bq_row q j" i "QDelete (ids ! i)" r] ri j s ids
    show ?thesis by (simp add: end_entry_def)
  qed
  moreover have "nx (ids ! j) = length (push_values (ops_by j (l @ [(i, QDelete (ids ! i), r)])))" if "j < length ids" for j
    using nx(2) that by simp
  moreover have "bq_activeProducers q' = int (length (filter id (bq_active q')))"
    using assms(1) filter_id_False [OF ai act] s(3,4) by (simp add: multi_inv_def)
  ultimately show ?thesis using multi_invI [OF _ _ inv'] ids q s(1) by simp
qed

lemma multi_get:
  assumes "multi_inv ids chunks l q" "multi_programs ids chunks progs" "runs_getters ids progs l"
    and "i < length ids" "length ids \<le> t" "0 \<le> v"
    and "batch_sec op' q = (r, q', ns)" "op' = QGet (ids ! i) v \<or> op' = QGetLoop (ids ! i) v" "\<forall>cv. r \<noteq> Wait cv"
  shows "multi_inv ids chunks (l @ [(t, QGet (ids ! i) v, r)]) q'"
proof -
  let ?l = "l @ [(t, QGet (ids ! i) v, r)]"
  obtain nx where nx: "batch_inv q nx" "\<forall>j < length ids. nx (ids ! j) = length (push_values (ops_by j l))"
    using assms(1) by (auto simp: multi_inv_def)
  have q: "bq_producerIds q = ids" "bq_batchSize q < 2 ^ 31" and i: "i < bq_totalProducers q"
    and ri: "\<And>j. j < length ids \<Longrightarrow> reader_inv (chunks j) (ids ! j) j l (bq_active q ! j) (bq_row q j)"
    and ac: "bq_activeProducers q = int (length (filter id (bq_active q)))"
    using assms(1,4) by (simp_all add: multi_inv_def bq_totalProducers_def)
  have sh: "shape_ok q" and d: "distinct ids" using nx(1) q(1) by (simp_all add: batch_inv_def)
  have nx': "nx (ids ! j) = length (push_values (ops_by j ?l))" if "j < length ids" for j
    using nx(2) that assms(5) by simp
  show ?thesis
  proof (cases "\<exists>a. r = Return a")
    case False
    note g = get_other [OF assms(7,8)]
    have "reader_inv (chunks j) (ids ! j) j ?l (bq_active q ! j) (bq_row q j)" if j: "j < length ids" for j
    proof (rule reader_inv_other [OF ri [OF j]])
      show "mset (got_chunks (ids ! j) l) = mset (chunks j)" if "end_entry (t, QGet (ids ! i) v, r)"
        using all_got [OF assms(1-3) _ _ j] g(2) False that by (simp add: end_entry_def)
    qed (use assms(5) j False in \<open>cases r; auto\<close>)+
    then show ?thesis using multi_invI [OF _ _ nx(1) nx'] q ac g(1) False by simp
  next
    case True
    then obtain a where a: "r = Return a" ..
    have loop: "bq_GetLoop (bq_producerIds q ! i) v q = (Return a, q', ns)"
      using get_return assms(7,8) a q(1) by blast
    obtain k c where k: "k < bsz q" "bq_row q i ! k = Some c" "a = Some c"
      "bq_data q' = (bq_data q)[i * bsz q + k := None]" "bq_active q' = bq_active q"
      "bq_activeProducers q' = bq_activeProducers q"
      using get_slot [OF sh _ i assms(6) loop] d q(1) by auto
    note keeps = get_keeps_inv [OF nx(1) i assms(6) loop]
    note ids = section_ids(3) [OF loop]
    have slot: "bq_data q ! (i * bsz q + k) = Some c"
      using k(2) slot_row_nth(1) [OF shape_data [OF sh] i k(1)] by simp
    then have "slot_holds q nx i k c" using nx(1) i k(1) by (simp add: batch_inv_def)
    then have less: "unat (chunk_id c) < length (push_values (ops_by i l))"
      using nx(2) assms(4) q(1) by (simp add: slot_holds_def)
    have num: "unat (chunk_id c) = nat v" if "bq_active q ! i" using keeps k(3) that by simp
    have "reader_inv (chunks j) (ids ! j) j ?l (bq_active q' ! j) (bq_row q' j)" if j: "j < length ids" for j
    proof -
      have row: "bq_row q' j = (if j = i then (bq_row q i)[k := None] else bq_row q j)"
        using row_update [OF sh i k(1,4)] ids j q(1) by (simp add: bq_totalProducers_def)
      show ?thesis
      proof (cases "j = i")
        case True
        have "k < length (bq_row q i)" using slot_row_nth(2) [OF shape_data [OF sh] i k(1)] k(1) by simp
        from reader_inv_get [OF ri [OF assms(4)] this k(2) _ pushed_beginning [OF assms(2,3,4)] less num] assms(4,5) row
        show ?thesis unfolding True a k(3,5) by simp
      next
        case False
        then have "ids ! i \<noteq> ids ! j" using d j assms(4) by (simp add: nth_eq_iff_index_eq)
        with reader_inv_other [OF ri [OF j], of t "QGet (ids ! i) v" r] assms(5) j False row k(3,5) a
        show ?thesis by (simp add: end_entry_def)
      qed
    qed
    then show ?thesis using multi_invI [OF _ _ _ nx'] keeps ids q k(5,6) ac by simp
  qed
qed


lemma multi_step:
  assumes "multi_inv ids chunks l q" "multi_programs ids chunks progs" "runs_getters ids progs (l @ [(t, op, r)])"
    and "batch_sec op' q = (r, q', ns)" "op' = op \<or> op' = resumed op" "\<forall>cv. r \<noteq> Wait cv"
  shows "multi_inv ids chunks (l @ [(t, op, r)]) q'"
proof -
  have len: "length progs = length ids" using assms(2) by (simp add: multi_programs_def)
  show ?thesis
  proof (cases "t < length ids")
    case True
    have "prefix (ops_by t l @ [op]) (map QPush (chunks t) @ [QDelete (ids ! t)])"
      using own_multi_program [OF assms(2,3) True] by simp
    note n = next_op [OF this]
    then consider "op = QDelete (ids ! t)"
      | "length (push_values (ops_by t l)) < length (chunks t)" "op = QPush (chunks t ! length (push_values (ops_by t l)))"
      by blast
    then show ?thesis
    proof cases
      case 1
      with multi_delete [OF assms(1) True] n assms(4,5) show ?thesis by auto
    next
      case 2
      with multi_push [OF assms(1,2) True _ 2(1) refl] n assms(4-6) show ?thesis by auto
    qed
  next
    case False
    then obtain p v where op: "op = QGet p v" "p \<in> set ids" "0 \<le> v"
      using assms(3) len by (auto simp: runs_getters_def)
    then obtain i where i: "i < length ids" "p = ids ! i" by (auto simp: in_set_conv_nth)
    from multi_get [OF assms(1,2) runs_getters_prefix [OF assms(3)] i(1) _ op(3) assms(4)] assms(5,6) False op(1) i(2)
    show ?thesis by auto
  qed
qed

lemma reachable_multi_inv:
  assumes "sys_reachable batch_sec (ThreadSafeBatchQueue B ids) s" "0 < sint B" "multi_programs ids chunks progs"
  shows "runs_getters ids progs (sys_log s) \<Longrightarrow> multi_inv ids chunks (sys_log s) (sys_q s)"
  using assms(1)
proof (induction rule: sys_reachable.induct)
  case reach_init
  show ?case using multi_inv_init [OF assms(2)] assms(3) by (simp add: multi_programs_def)
next
  case (reach_step s s')
  from reach_step.hyps(2) show ?case
  proof (cases rule: sys_step_log)
    case idle
    with reach_step show ?thesis by simp
  next
    case (sec t op op' r q' ns)
    show ?thesis
    proof (cases "\<exists>cv. r = Wait cv")
      case True
      then have "q' = sys_q s" "sys_log s' = sys_log s"
        using wait_changes_nothing sec by (auto simp: ended_def)
      with reach_step sec(3) show ?thesis by simp
    next
      case False
      then have log: "sys_log s' = sys_log s @ [(t, op, r)]" using sec(4) by (cases r) (simp_all add: ended_def)
      then have g: "runs_getters ids progs (sys_log s @ [(t, op, r)])" using reach_step.prems by simp
      from multi_step [OF reach_step.IH [OF runs_getters_prefix [OF g]] assms(3) g sec(1,2)] False log sec(3)
      show ?thesis by simp
    qed
  qed
qed

section \<open>A read of one consumer\<close>

lemma getters_delivered:
  assumes "sys_reachable batch_sec (ThreadSafeBatchQueue B ids) s" "0 < sint B" "multi_programs ids chunks progs"
    and "runs_getters ids progs (sys_log s)" "i < length ids"
  shows "gets_right (chunks i) (ids ! i) (sys_log s) \<and>
    mset (got_chunks (ids ! i) (sys_log s)) \<subseteq># mset (chunks i) \<and>
    (saw_end (sys_log s) \<longrightarrow> mset (got_chunks (ids ! i) (sys_log s)) = mset (chunks i))"
proof -
  have r: "reader_inv (chunks i) (ids ! i) i (sys_log s) (bq_active (sys_q s) ! i) (bq_row (sys_q s) i)"
    using reachable_multi_inv [OF assms(1-4)] assms(5) by (simp add: multi_inv_def)
  then have "mset (got_chunks (ids ! i) (sys_log s)) \<subseteq># mset (push_values (ops_by i (sys_log s)))"
    unfolding reader_inv_def by (metis mset_subset_eq_add_left)
  moreover have "mset (push_values (ops_by i (sys_log s))) \<subseteq># mset (chunks i)"
    using pushed_beginning(1) [OF assms(3-5)] by (auto simp: prefix_def)
  ultimately show ?thesis using r by (auto simp: reader_inv_def intro: subset_mset.order_trans)
qed

lemma chunk_sequence_length:
  assumes "chunk_sequence cs p k rows chunks"
  shows "length chunks \<le> length rows"
proof -
  obtain parts where "concat parts = rows" "[] \<notin> set parts" "list_all2 (chunk_holds cs) parts chunks"
    using assms by (auto simp: chunk_sequence_def)
  moreover have "[] \<notin> set ps \<Longrightarrow> length ps \<le> length (concat ps)" for ps :: "row list list"
  proof (induction ps)
    case (Cons p ps)
    then show ?case by (cases p) auto
  qed simp
  ultimately show ?thesis by (metis list_all2_lengthD)
qed

lemma chunk_sequence_numbers:
  assumes "chunk_sequence cs p 0 rows chunks" "length rows < 2 ^ 31" "k < length chunks"
  shows "unat (chunk_id (chunks ! k)) = k" "partition_id (chunks ! k) = p"
proof -
  have "k < 2 ^ 64" using chunk_sequence_length [OF assms(1)] assms(2,3) by simp
  then show "unat (chunk_id (chunks ! k)) = k" "partition_id (chunks ! k) = p"
    using assms(1,3) by (simp_all add: chunk_sequence_def numbered_def unsigned_of_nat take_bit_nat_eq_self)
qed


text \<open>C3. A multi-pass read delivers the chunk asked for, and every row exactly once, whatever the
  interleaving. Take the batch queue of one consumer of a multi-pass queue that \<^verbatim>\<open>CreateChunkQueue\<close> has
  made, and let its readers, none of them stopped or failing, read the rows \<open>rows p\<close> of their
  partitions while the consumer's threads get chunks of these partitions by number. In every
  state they can reach there is a sequence of non-empty, consecutively numbered chunks that holds
  exactly the rows of the partition, such that: as long as the reader has not left the queue, a
  \<^verbatim>\<open>Get\<close> of chunk number \<open>v\<close> of the partition that returned has returned the chunk with number
  \<open>v\<close>; no chunk was got twice; and once \<^verbatim>\<open>Get\<close> has told the consumer that the queue is empty, all of
  them were got. Every row has values of its columns' types, and a chunk holds its rows in the
  layout of the schema: a reader gets their values, except from a chunk whose first variable-length value is null
  or empty.
\<close>

theorem multi_pass_delivers:
  assumes "CreateMultiPassQueue my inits t q src k rt cols capacity sz n cb cl = Some (Inr (Some Q), cl')"
    and "0 < n" "n \<le> INT_MAX" "0 < sint (cl_numWorkers cl)"
    and "0 \<le> sint (cl_workerId cl)" "sint (cl_workerId cl) < sint (cl_numWorkers cl)"
    and "sint (cl_numPartitions cl) + sint (cl_numWorkers cl) \<le> INT_MAX + 1"
    and "i < nat n" "0 < sint capacity" "readers = filter (\<lambda>r. rt_queue r = i) (cq_readers Q)"
    and "sys_reachable batch_sec (cq_consumer_queues Q ! i) s"
    and "list_all2 (\<lambda>r ops. undisturbed_read my cs r (rows (rt_partition r)) ops) readers progs"
    and "runs_getters (map (\<lambda>r. sint (rt_partition r)) readers) progs (sys_log s)" "r \<in> set readers"
  shows "\<exists>chunks. chunk_sequence cs (rt_partition r) 0 (rows (rt_partition r)) chunks \<and>
    gets_right chunks (sint (rt_partition r)) (sys_log s) \<and>
    mset (got_chunks (sint (rt_partition r)) (sys_log s)) \<subseteq># mset chunks \<and>
    (saw_end (sys_log s) \<longrightarrow> mset (got_chunks (sint (rt_partition r)) (sys_log s)) = mset chunks)"
proof -
  let ?ids = "map (\<lambda>r. sint (rt_partition r)) readers"
  have d: "distinct ?ids" and reach: "sys_reachable batch_sec (ThreadSafeBatchQueue capacity ?ids) s"
    using multi_pass_producers [OF assms(1-8)] assms(10,11) by auto
  have len: "length progs = length readers" using assms(12) by (simp add: list_all2_lengthD)
  have "\<exists>cks. progs ! j = map QPush cks @ [QDelete (?ids ! j)] \<and>
      chunk_sequence cs (rt_partition (readers ! j)) 0 (rows (rt_partition (readers ! j))) cks \<and>
      length (rows (rt_partition (readers ! j))) < 2 ^ 31"
    if j: "j < length readers" for j
  proof -
    have u: "undisturbed_read my cs (readers ! j) (rows (rt_partition (readers ! j))) (progs ! j)"
      using assms(12) j by (simp add: list_all2_conv_all_nth)
    then have "length (rows (rt_partition (readers ! j))) < 2 ^ 31" by (auto simp: undisturbed_read_def)
    with undisturbed_read_ops [OF u] j show ?thesis by (metis (no_types, lifting) nth_map)
  qed
  then obtain chunks where c: "\<And>j. j < length readers \<Longrightarrow> progs ! j = map QPush (chunks j) @ [QDelete (?ids ! j)] \<and>
      chunk_sequence cs (rt_partition (readers ! j)) 0 (rows (rt_partition (readers ! j))) (chunks j) \<and>
      length (rows (rt_partition (readers ! j))) < 2 ^ 31"
    by metis
  have "multi_programs ?ids chunks progs"
    unfolding multi_programs_def value_partition_def
  proof (intro conjI allI impI)
    fix j k
    assume j: "j < length ?ids"
    show "progs ! j = map QPush (chunks j) @ [QDelete (?ids ! j)]" using c j by simp
    show "length (chunks j) \<le> 2 ^ 31" using c [of j] chunk_sequence_length j by fastforce
    assume "k < length (chunks j)"
    then show "unat (chunk_id (chunks j ! k)) = k" "sint (partition_id (chunks j ! k)) = ?ids ! j"
      using chunk_sequence_numbers c [of j] j by auto
  qed (use len d in simp_all)
  note del = getters_delivered [OF reach assms(9) this assms(13)]
  obtain j where j: "j < length readers" "r = readers ! j" using assms(14) by (auto simp: in_set_conv_nth)
  with del [of j] c [OF j(1)] show ?thesis by auto
qed

section \<open>An example\<close>

text \<open>One reader pushes and one consumer gets in turn, in batches of one chunk, to the end.\<close>

definition one_slot :: "int \<Rightarrow> nat \<Rightarrow> BatchQueue" where
  "one_slot p k = ThreadSafeBatchQueue 1 [p]\<lparr>bq_currentBatch := int k\<rparr>"

definition get_turns :: "Chunk list \<Rightarrow> int \<Rightarrow> Chunk log" where
  "get_turns cs p = concat (map (\<lambda>c. [(0, QPush c, Return None),
     (1, QGet p (int (unat (chunk_id c))), Return (Some c))]) cs)"

lemma one_slot_sections:
  assumes "unat (chunk_id c) = k" "k < 2 ^ 31" "value_partition c = p"
  shows "batch_sec (QPush c) (one_slot p k) = (Return None, one_slot p k\<lparr>bq_queue := [c], bq_data := [Some c],
      bq_itemsToRead := 1\<rparr>, [NotifyOne EmptyCV, NotifyAll (DataCV 0)])"
    "batch_sec (QGet p (int k)) (one_slot p k\<lparr>bq_queue := [c], bq_data := [Some c], bq_itemsToRead := 1\<rparr>) =
      (Return (Some c), one_slot p (Suc k), [NotifyAll BusyCV, NotifyAll (DataCV 0)])"
    "batch_sec (QDelete p) (one_slot p k) = (Return None, one_slot p (Suc k)\<lparr>bq_active := [False],
      bq_activeProducers := 0\<rparr>, [NotifyAll BusyCV, NotifyAll (DataCV 0), NotifyAll EmptyCV])"
proof -
  have w: "value_batch (one_slot p k) c = int k"
    using value_conversions(2) [of c "one_slot p k"] assms by (simp add: one_slot_def ThreadSafeBatchQueue_def)
  have m: "v smod 1 = 0" "v sdiv 1 = v" for v :: int
    by (simp_all add: signed_modulo_int_def signed_divide_int_def sgn_mult_abs)
  note e = one_slot_def ThreadSafeBatchQueue_def bq_Get_def bq_GetLoop_def bq_Push_def bq_DeleteProducer_def Let_def
    value_index_def targetIndex_def producer_number_def bq_totalProducers_def in_data_def readValue_def
    finish_batch_def isBatchFinished_def resetBatch_def
  show "batch_sec (QPush c) (one_slot p k) = (Return None, one_slot p k\<lparr>bq_queue := [c], bq_data := [Some c],
      bq_itemsToRead := 1\<rparr>, [NotifyOne EmptyCV, NotifyAll (DataCV 0)])"
    using w assms(3) m by (simp add: e)
  show "batch_sec (QGet p (int k)) (one_slot p k\<lparr>bq_queue := [c], bq_data := [Some c], bq_itemsToRead := 1\<rparr>) =
      (Return (Some c), one_slot p (Suc k), [NotifyAll BusyCV, NotifyAll (DataCV 0)])"
    using m by (simp add: e)
  show "batch_sec (QDelete p) (one_slot p k) = (Return None, one_slot p (Suc k)\<lparr>bq_active := [False],
      bq_activeProducers := 0\<rparr>, [NotifyAll BusyCV, NotifyAll (DataCV 0), NotifyAll EmptyCV])"
    by (simp add: e)
qed

lemma get_turns_reachable:
  assumes "sys_reachable batch_sec q0 s" "sys_wait s = []" "sys_ready s = []" "sys_q s = one_slot p k"
    and "\<forall>j < length cs. unat (chunk_id (cs ! j)) = k + j \<and> value_partition (cs ! j) = p" "k + length cs < 2 ^ 31"
  shows "\<exists>s'. sys_reachable batch_sec q0 s' \<and> sys_wait s' = [] \<and> sys_ready s' = [] \<and>
    sys_q s' = one_slot p (k + length cs) \<and> sys_log s' = sys_log s @ get_turns cs p"
  using assms
proof (induction cs arbitrary: s k)
  case Nil
  then show ?case by (intro exI [of _ s]) (simp add: get_turns_def)
next
  case (Cons c cs)
  have c: "unat (chunk_id c) = k" "k < 2 ^ 31" "value_partition c = p" using Cons.prems(5,6) by auto
  note sec = one_slot_sections [OF c]
  let ?s1 = "ended 0 (QPush c) (Return None)
    (one_slot p k\<lparr>bq_queue := [c], bq_data := [Some c], bq_itemsToRead := 1\<rparr>) s"
  let ?s2 = "ended 1 (QGet p (int k)) (Return (Some c)) (one_slot p (Suc k)) ?s1"
  have "sys_step batch_sec s ?s1"
    by (rule step_call_idle [OF _ _ _ refl]) (use sec(1) Cons.prems in \<open>auto simp: inside_def ended_def\<close>)
  with Cons.prems(1) have r1: "sys_reachable batch_sec q0 ?s1" by (rule reach_step)
  have "sys_step batch_sec ?s1 ?s2"
    by (rule step_call_idle [OF _ _ _ refl]) (use sec(2) Cons.prems in \<open>auto simp: inside_def ended_def\<close>)
  with r1 have r2: "sys_reachable batch_sec q0 ?s2" by (rule reach_step)
  have "unat (chunk_id (cs ! j)) = Suc k + j \<and> value_partition (cs ! j) = p" if "j < length cs" for j
    using Cons.prems(5) [rule_format, of "Suc j"] that by simp
  then obtain s' where "sys_reachable batch_sec q0 s'" "sys_wait s' = []" "sys_ready s' = []"
    "sys_q s' = one_slot p (Suc k + length cs)" "sys_log s' = sys_log ?s2 @ get_turns cs p"
    using Cons.IH [OF r2, of "Suc k"] Cons.prems(2,3,6) by (auto simp: ended_def)
  then show ?case using c(1) [symmetric] by (intro exI [of _ s']) (simp add: ended_def get_turns_def)
qed


lemma get_turns_log:
  "ops_by 0 (get_turns cs p) = map QPush cs" "got_chunks p (get_turns cs p) = cs"
  "\<forall>(t, op, r) \<in> set (get_turns cs p). 1 \<le> t \<longrightarrow> t = 1 \<and> (\<exists>v. op = QGet p v \<and> 0 \<le> v)"
proof -
  show "ops_by 0 (get_turns cs p) = map QPush cs" by (induction cs) (simp_all add: get_turns_def)
  show "got_chunks p (get_turns cs p) = cs" by (induction cs) (simp_all add: get_turns_def)
  show "\<forall>(t, op, r) \<in> set (get_turns cs p). 1 \<le> t \<longrightarrow> t = 1 \<and> (\<exists>v. op = QGet p v \<and> 0 \<le> v)"
    by (auto simp: get_turns_def)
qed

lemma get_turns_to_the_end:
  assumes "\<forall>j < length cs. unat (chunk_id (cs ! j)) = j \<and> value_partition (cs ! j) = p" "length cs < 2 ^ 31"
  shows "\<exists>s. sys_reachable batch_sec (ThreadSafeBatchQueue 1 [p]) s \<and>
    runs_getters [p] [map QPush cs @ [QDelete p]] (sys_log s) \<and> saw_end (sys_log s) \<and> got_chunks p (sys_log s) = cs \<and>
    bq_itemsToRead (sys_q s) = 0 \<and> bq_activeProducers (sys_q s) = 0"
proof -
  let ?q0 = "ThreadSafeBatchQueue 1 [p]" and ?n = "length cs"
  have q0: "?q0 = one_slot p 0" by (simp add: one_slot_def ThreadSafeBatchQueue_def)
  obtain s where s: "sys_reachable batch_sec ?q0 s" "sys_wait s = []" "sys_ready s = []" "sys_q s = one_slot p ?n"
    "sys_log s = get_turns cs p"
    using get_turns_reachable [OF reach_init, of ?q0 p 0 cs] assms q0 by auto
  let ?q1 = "one_slot p (Suc ?n)\<lparr>bq_active := [False], bq_activeProducers := 0\<rparr>"
  let ?s1 = "ended 0 (QDelete p) (Return None) ?q1 s"
  let ?s2 = "ended 1 (QGet p 0) (Throw (OutOfRange ''Queue is empty'')) ?q1 ?s1"
  have del: "batch_sec (QDelete p) (one_slot p ?n) =
      (Return None, ?q1, [NotifyAll BusyCV, NotifyAll (DataCV 0), NotifyAll EmptyCV])"
    by (simp add: one_slot_def ThreadSafeBatchQueue_def bq_DeleteProducer_def Let_def producer_number_def
        bq_totalProducers_def finish_batch_def isBatchFinished_def resetBatch_def)
  have get: "batch_sec (QGet p 0) ?q1 = (Throw (OutOfRange ''Queue is empty''), ?q1, [])"
    by (simp add: bq_Get_def one_slot_def ThreadSafeBatchQueue_def)
  have log: "sys_log ?s2 = get_turns cs p @ [(0, QDelete p, Return None),
      (1, QGet p 0, Throw (OutOfRange ''Queue is empty''))]"
    using s(5) by (simp add: ended_def)
  have "sys_step batch_sec s ?s1"
    by (rule step_call_idle [OF _ _ _ refl]) (use del s in \<open>auto simp: inside_def ended_def\<close>)
  with s(1) have r1: "sys_reachable batch_sec ?q0 ?s1" by (rule reach_step)
  have "sys_step batch_sec ?s1 ?s2"
    by (rule step_call_idle [OF _ _ _ refl]) (use get s in \<open>auto simp: inside_def ended_def\<close>)
  with r1 have "sys_reachable batch_sec ?q0 ?s2" by (rule reach_step)
  moreover have "got_chunks p (sys_log ?s2) = cs" "saw_end (sys_log ?s2)"
    unfolding log by (simp_all add: get_turns_log saw_end_def end_entry_def)
  moreover have "bq_itemsToRead (sys_q ?s2) = 0" "bq_activeProducers (sys_q ?s2) = 0"
    by (simp_all add: ended_def one_slot_def ThreadSafeBatchQueue_def)
  moreover have "runs_getters [p] [map QPush cs @ [QDelete p]] (sys_log ?s2)"
    unfolding log runs_getters_def using get_turns_log(1) [of cs p] get_turns_log(3) [of cs p] by fastforce
  ultimately show ?thesis by blast
qed

theorem multi_pass_delivers_witness:
  "\<exists>Q cl' s. CreateMultiPassQueue serving_mysql (\<lambda>p. (Some [[], [[]]], None)) ''t'' ''q'' None ''k''
      ReadTypeColumnStoreTable [] 1 16 2 True (example_client [[[Some example_plan_text]], []]) = Some (Inr (Some Q), cl') \<and>
    sys_reachable batch_sec (cq_consumer_queues Q ! 1) s \<and>
    (\<exists>chunks. chunk_sequence example_schema 1 0 [demo_row 0, demo_row 1] chunks \<and>
      mset (got_chunks 1 (sys_log s)) = mset chunks)"
proof -
  let ?m = "[[[Some example_plan_text]], []]"
  obtain Q cl' qry where Q: "CreateMultiPassQueue serving_mysql (\<lambda>p. (Some [[], [[]]], None)) ''t'' ''q'' None ''k''
      ReadTypeColumnStoreTable [] 1 16 2 True (example_client ?m) = Some (Inr (Some Q), cl')"
    and r: "filter (\<lambda>r. rt_queue r = 1) (cq_readers Q) =
      [new_reader (catalog_connection [[], [[]]]\<lparr>c_stmt := True\<rparr>) 1 1 16 qry (Some example_schema)]"
    using example_multi_creation [OF serving_answers, of "\<lambda>p. [[], [[]]]" 1] by blast
  define r0 where "r0 = new_reader (serving_connection [[], [[]]]) 1 1 16 qry (Some example_schema)"
  have r: "filter (\<lambda>r. rt_queue r = 1) (cq_readers Q) = [r0]" "rt_partition r0 = 1"
    using r by (simp_all add: r0_def serving_connection_def new_reader_def)
  have n: "0 < (2::int)" "(2::int) \<le> INT_MAX" "0 < sint (cl_numWorkers (example_client ?m))"
    "0 \<le> sint (cl_workerId (example_client ?m))"
    "sint (cl_workerId (example_client ?m)) < sint (cl_numWorkers (example_client ?m))"
    "sint (cl_numPartitions (example_client ?m)) + sint (cl_numWorkers (example_client ?m)) \<le> INT_MAX + 1"
    "1 < nat 2" "0 < sint (1 :: u32)"
    by (simp_all add: example_client_def INT_MAX_def)
  have q: "cq_consumer_queues Q ! 1 = ThreadSafeBatchQueue 1 [1]"
    using multi_pass_producers [OF Q n(1-7)] r by auto
  let ?rows = "map serving_row [[], [[]]]"
  obtain chunks where u: "undisturbed_read serving_mysql example_schema r0 ?rows
      (map QPush chunks @ [QDelete (sint (1 :: u32))])"
    by (rule serving_read [of r0 "[]" "[[[]]]" 1 1 qry]) (simp_all add: r0_def)
  from undisturbed_read_ops [OF u] obtain cks where
    "map QPush chunks @ [QDelete (sint (1 :: u32))] = map QPush cks @ [QDelete (sint (rt_partition r0))]"
    and cs: "chunk_sequence example_schema (rt_partition r0) 0 ?rows cks" .
  then have "chunks = cks" by (simp add: inj_map_eq_map inj_on_def)
  with cs r(2) have cs: "chunk_sequence example_schema 1 0 ?rows chunks" by simp
  have len: "length chunks < 2 ^ 31" using chunk_sequence_length [OF cs] by simp
  have "\<forall>j < length chunks. unat (chunk_id (chunks ! j)) = j \<and> value_partition (chunks ! j) = 1"
    using chunk_sequence_numbers [OF cs] by (simp add: value_partition_def)
  from get_turns_to_the_end [OF this len] obtain s where s: "sys_reachable batch_sec (cq_consumer_queues Q ! 1) s"
    "runs_getters [1] [map QPush chunks @ [QDelete 1]] (sys_log s)" "saw_end (sys_log s)" "got_chunks 1 (sys_log s) = chunks"
    unfolding q by blast
  have "list_all2 (\<lambda>r ops. undisturbed_read serving_mysql example_schema r
      ((\<lambda>p. ?rows) (rt_partition r)) ops) [r0] [map QPush chunks @ [QDelete (sint (1 :: u32))]]"
    using u by simp
  from multi_pass_delivers [OF Q n r(1) [symmetric] s(1) this, of r0] s(2,3) r(2)
  have "\<exists>chunks. chunk_sequence example_schema 1 0 [demo_row 0, demo_row 1] chunks \<and>
      mset (got_chunks 1 (sys_log s)) = mset chunks"
    by (auto simp: serving_row_def)
  with Q s(1) show ?thesis by (intro exI [of _ Q] exI [of _ cl'] exI [of _ s] conjI)
qed

end
