(* ===== verification/RowTypes.thy ===== *)
theory RowTypes
  imports SinglePass
begin

text \<open>
  Schemas and rows agree: the schema a connection builds from the fields of a result
  (\<^verbatim>\<open>GetRowSchema\<close>) is well formed, and the rows it then fetches have the types the writer of
  chunks expects of that schema.
\<close>

section \<open>Well-formed schemas\<close>

text \<open>The size of a column is that of its type; only the size of a fixed-size string is the server's.\<close>

definition column_typed :: "Column \<Rightarrow> bool" where
  "column_typed c \<longleftrightarrow>
     (case col_type c of
        Int32 \<Rightarrow> col_size c = 4
      | Date \<Rightarrow> col_size c = 4
      | Variable \<Rightarrow> col_size c = 0
      | Fixed \<Rightarrow> True
      | Unsupported \<Rightarrow> True
      | _ \<Rightarrow> col_size c = 8)"

lemma field_type_typed: "col_size c = 0 \<Longrightarrow> column_typed (field_type f c)"
  by (cases "fld_type f") (simp_all add: column_typed_def field_type_def)

lemma FieldsToRowSchema_typed:
  "FieldsToRowSchema fs b cols = Inr schema \<Longrightarrow> list_all (\<lambda>c. col_size c = 0) cols \<Longrightarrow> length cols = length fs \<Longrightarrow>
   list_all column_typed schema \<and> list_all2 (\<lambda>f c. \<exists>c0. c = field_type f c0) fs schema"
proof (induction fs b cols arbitrary: schema rule: FieldsToRowSchema.induct)
  case (3 f fs b c cols)
  then obtain n rest where "FieldsToRowSchema fs b cols = Inr rest" "schema = field_type f (c\<lparr>col_name := n\<rparr>) # rest"
    by (auto simp: and_then_Inr_iff Let_def)
  moreover have "column_typed (field_type f (c\<lparr>col_name := n\<rparr>))"
    by (rule field_type_typed) (use 3 in simp)
  ultimately show ?case using 3 by auto
qed simp_all

lemma ShowColumns_typed:
  "ShowColumnsToRowSchemaHelper u s ds = Inr schema \<Longrightarrow> list_all column_typed schema"
proof (induction u s ds arbitrary: schema rule: ShowColumnsToRowSchemaHelper.induct)
  case (2 u s d ds)
  then obtain c cs where c: "column_of_split u s d = Inr c" "ShowColumnsToRowSchemaHelper u s ds = Inr cs"
    "schema = c # cs"
    by (auto simp: and_then_Inr_iff)
  have "column_typed c"
    using c(1) by (auto simp: column_of_split_def column_typed_def and_then_Inr_iff Let_def split: if_splits)
  with c 2 show ?case by simp
qed simp


section \<open>Rows\<close>

text \<open>
  What is asked of the values themselves: no value is longer than the size of its fixed-size column,
  those sizes fit an \<open>int\<close>, and dates can be converted.
\<close>

definition representable_cell :: "Column \<Rightarrow> cell option \<Rightarrow> u64 \<Rightarrow> bool" where
  "representable_cell c v l \<longleftrightarrow>
     (col_type c = Fixed \<longrightarrow> unat (col_size c) < 2 ^ 31 \<and> unat l \<le> unat (col_size c)) \<and>
     (case v of
        Some (CellTime t) \<Rightarrow>
          (col_type c = Date \<longrightarrow> (\<exists>d. toDateCAS t = Inr d)) \<and> (col_type c = DateTime \<longrightarrow> (\<exists>d. toDateTimeCAS t = Inr d))
      | _ \<Rightarrow> True)"

fun representable :: "RowSchema \<Rightarrow> cell option list \<Rightarrow> u64 list \<Rightarrow> bool" where
  "representable [] [] [] = True"
| "representable (c # cs) (v # vs) (l # ls) = (representable_cell c v l \<and> representable cs vs ls)"
| "representable _ _ _ = False"

text \<open>A value fetched for a field is one for the column the schema has for that field.\<close>

definition typed_cell :: "MYSQL_FIELD \<Rightarrow> cell option \<times> u64 \<Rightarrow> bool" where
  "typed_cell f x \<longleftrightarrow>
     (\<forall>c0. col_type (field_type f c0) \<noteq> Unsupported \<longrightarrow> representable_cell (field_type f c0) (fst x) (snd x) \<longrightarrow>
        cell_ok (field_type f c0) (fst x) (snd x))"

lemma typed_cells_row:
  assumes "list_all2 typed_cell fs xs" "list_all2 (\<lambda>f c. \<exists>c0. c = field_type f c0) fs cs"
    and "list_all (\<lambda>c. col_type c \<noteq> Unsupported) cs" "representable cs (map fst xs) (map snd xs)"
  shows "row_ok cs (map fst xs) (map snd xs)"
  using assms
proof (induction fs xs arbitrary: cs rule: list_all2_induct)
  case (Cons f fs x xs)
  then show ?case by (cases cs) (auto simp: typed_cell_def)
qed simp

text \<open>On the text protocol.\<close>

lemma text_cell_typed:
  assumes "text_cell my (fld_type f) v = Inr x"
  shows "typed_cell f x"
proof (cases v)
  case None
  with assms show ?thesis by (auto simp: text_cell_def typed_cell_def representable_cell_def)
next
  case (Some s)
  have wrap: "unat (of_nat n :: u64) \<le> n" for n by (simp add: unat_of_nat)
  have signed: "length bs = n" if "scan_signed n s = Inr bs" for n bs
    using that by (auto simp: scan_signed_def split: option.splits if_splits)
  show ?thesis
    using assms Some signed wrap unfolding typed_cell_def representable_cell_def
    by (cases "fld_type f")
      (auto simp: text_cell_def field_type_def bytes_of_def Let_def and_then_Inr_iff split: option.splits)
qed

lemma text_cells_typed:
  "text_cells my n fs r = Inr xs \<Longrightarrow> n \<le> length fs \<Longrightarrow> list_all2 typed_cell (take n fs) xs"
proof (induction my n fs r arbitrary: xs rule: text_cells.induct)
  case (2 my n f flds v row)
  then obtain x ys where "text_cell my (fld_type f) v = Inr x" "text_cells my n flds row = Inr ys" "xs = x # ys"
    by (auto simp: and_then_Inr_iff)
  with 2 text_cell_typed show ?case by simp
qed simp_all

lemma AdvanceText_row:
  assumes "AdvanceText my c = (Inr True, c')"
  obtains fs r xs where "mysql_fetch_fields my (c_conn c) = Some fs"
    "text_cells my (mysql_num_fields my (c_conn c)) fs r = Inr xs"
    "c_last_fetched_row c' = Some (map fst xs)" "c_last_fetched_lengths c' = Some (map snd xs)"
  using assms
  by (auto simp: AdvanceText_def FreeLastFetched_def act_simps set_row_def call_def conn_error_def
      split: option.splits if_splits sum.splits prod.splits)

text \<open>
  On the binary protocol: the client library stores a value for a bound buffer in the form of the type the
  buffer was bound for, as it documents, and \<^verbatim>\<open>mysql_stmt_fetch_column\<close> stores the length asked for.
\<close>

definition fetched_as :: "enum_field_types \<Rightarrow> fetched \<Rightarrow> bool" where
  "fetched_as t v \<longleftrightarrow>
     (case v of
        FetchedNull \<Rightarrow> True
      | Fetched len (CellBytes bs) \<Rightarrow>
          (t = MYSQL_TYPE_LONG \<longrightarrow> length bs = 4) \<and>
          (t = MYSQL_TYPE_LONGLONG \<or> t = MYSQL_TYPE_DOUBLE \<longrightarrow> length bs = 8) \<and>
          t \<notin> {MYSQL_TYPE_DATETIME, MYSQL_TYPE_DATE, MYSQL_TYPE_TIME, MYSQL_TYPE_NEWDATE, MYSQL_TYPE_DATETIME2}
      | Fetched len (CellTime d) \<Rightarrow>
          t \<in> {MYSQL_TYPE_DATETIME, MYSQL_TYPE_DATE, MYSQL_TYPE_TIME, MYSQL_TYPE_NEWDATE, MYSQL_TYPE_DATETIME2})"

definition fills_bound_buffers :: "'m mysql \<Rightarrow> enum_field_types list \<Rightarrow> bool" where
  "fills_bound_buffers my ts \<longleftrightarrow>
     (\<forall>m m1 status vs m2. mysql_stmt_bind_result my (map (\<lambda>t. (t, fst (bind_of my t))) ts) m = (False, m1) \<longrightarrow>
        mysql_stmt_fetch my m1 = ((status, vs), m2) \<longrightarrow> status = 0 \<or> status = MYSQL_DATA_TRUNCATED \<longrightarrow>
        list_all2 fetched_as ts vs) \<and>
     (\<forall>i len m z m'. mysql_stmt_fetch_column my i len m = (Some z, m') \<longrightarrow> (\<exists>bs. z = CellBytes bs \<and> length bs = unat len))"

lemma fetched_typed: "fetched_as (fld_type f) (Fetched len x) \<Longrightarrow> \<not> snd (bind_of my (fld_type f)) \<Longrightarrow> typed_cell f (Some x, len)"
  by (cases "fld_type f"; cases x)
     (auto simp: fetched_as_def bind_of_def typed_cell_def representable_cell_def field_type_def)

lemma refetched_typed: "snd (bind_of my (fld_type f)) \<Longrightarrow> length bs = unat len \<Longrightarrow> typed_cell f (Some (CellBytes bs), len)"
  by (cases "fld_type f") (auto simp: bind_of_def typed_cell_def representable_cell_def field_type_def)

lemma null_typed: "typed_cell f (None, l)"
  by (auto simp: typed_cell_def representable_cell_def)

lemma binary_cells_typed:
  assumes "\<forall>i len m z m'. mysql_stmt_fetch_column my i len m = (Some z, m') \<longrightarrow> (\<exists>bs. z = CellBytes bs \<and> length bs = unat len)"
  shows "binary_cells my i (map (\<lambda>f. snd (bind_of my (fld_type f))) fs) vs c = (Inr xs, c') \<Longrightarrow>
    list_all2 (\<lambda>f. fetched_as (fld_type f)) fs vs \<Longrightarrow> list_all2 typed_cell fs xs"
proof (induction fs arbitrary: i vs c xs)
  case Nil
  then show ?case by (simp add: act_simps)
next
  case (Cons f fs)
  then obtain v vs' where v: "vs = v # vs'" "fetched_as (fld_type f) v" "list_all2 (\<lambda>f. fetched_as (fld_type f)) fs vs'"
    by (auto simp: list_all2_Cons1)
  show ?case
  proof (cases v)
    case FetchedNull
    with Cons v null_typed show ?thesis by (fastforce simp: andThen_Inr_iff give_def)
  next
    case (Fetched len x)
    show ?thesis
    proof (cases "snd (bind_of my (fld_type f))")
      case False
      with Cons v Fetched fetched_typed [of f len x my] show ?thesis by (fastforce simp: andThen_Inr_iff give_def)
    next
      case True
      with Cons.prems(1) v(1) Fetched obtain z m' c1 ys where
        z: "mysql_stmt_fetch_column my i len (c_conn c) = (Some z, m')"
        and ys: "binary_cells my (Suc i) (map (\<lambda>f. snd (bind_of my (fld_type f))) fs) vs' c1 = (Inr ys, c')"
        "xs = (Some z, len) # ys"
        by (auto simp: act_simps call_def stmt_error_def split: prod.splits option.splits sum.splits)
      from z assms obtain bs where "z = CellBytes bs" "length bs = unat len" by blast
      with refetched_typed [OF True] ys Cons.IH v(3) show ?thesis by auto
    qed
  qed
qed

lemma AdvanceBinary_row:
  assumes "AdvanceBinary my c = (Inr True, c')"
  obtains fs n m m1 status vs m2 c1 c2 xs where "mysql_stmt_result_metadata my (c_conn c) = Some (Some fs)"
    "n = mysql_stmt_field_count my (c_conn c)" "n \<le> length fs"
    "mysql_stmt_bind_result my (map (\<lambda>t. (t, fst (bind_of my t))) (map fld_type (take n fs))) m = (False, m1)"
    "mysql_stmt_fetch my m1 = ((status, vs), m2)" "status = 0 \<or> status = MYSQL_DATA_TRUNCATED"
    "binary_cells my 0 (map (\<lambda>t. snd (bind_of my t)) (map fld_type (take n fs))) vs c1 = (Inr xs, c2)"
    "c_last_fetched_row c' = Some (map fst xs)" "c_last_fetched_lengths c' = Some (map snd xs)"
  using assms
  by (auto simp: AdvanceBinary_def FreeLastFetched_def CleanupStatement_def act_simps set_row_def call_def conn_error_def
      stmt_error_def Let_def comp_def split: option.splits if_splits sum.splits prod.splits)

text \<open>The fields of the result a connection reads.\<close>

definition result_fields :: "'m mysql \<Rightarrow> 'm S2Connection \<Rightarrow> MYSQL_FIELD list option" where
  "result_fields my c =
     (if c_use_binary_protocol c then
        (case mysql_stmt_result_metadata my (c_conn c) of
           Some (Some fs) \<Rightarrow> if mysql_stmt_field_count my (c_conn c) = length fs then Some fs else None
         | _ \<Rightarrow> None)
      else
        (case mysql_fetch_fields my (c_conn c) of
           Some fs \<Rightarrow> if mysql_num_fields my (c_conn c) \<le> length fs then Some (take (mysql_num_fields my (c_conn c)) fs) else None
         | None \<Rightarrow> None))"

lemma GetRowSchema_fields:
  assumes "GetRowSchema my b c = (Inr schema, c')" "result_fields my c = Some fs"
  shows "FieldsToRowSchema fs b (replicate (length fs) \<lparr>col_type = Int64, col_size = 0, col_name = ''''\<rparr>) = Inr schema"
  using assms
  by (auto simp: GetRowSchema_def result_fields_def act_simps Let_def min_absorb2 split: if_splits option.splits)

lemma Advance_typed:
  assumes "Advance my c = (Inr True, c')" "result_fields my c = Some fs"
    and "c_use_binary_protocol c \<Longrightarrow> fills_bound_buffers my (map fld_type fs)"
  obtains xs where "c_last_fetched_row c' = Some (map fst xs)" "c_last_fetched_lengths c' = Some (map snd xs)"
    "list_all2 typed_cell fs xs"
proof (cases "c_use_binary_protocol c")
  case False
  then have "AdvanceText my c = (Inr True, c')" using assms(1) by (simp add: Advance_def act_simps)
  then obtain fs' r xs where x: "mysql_fetch_fields my (c_conn c) = Some fs'"
    "text_cells my (mysql_num_fields my (c_conn c)) fs' r = Inr xs"
    "c_last_fetched_row c' = Some (map fst xs)" "c_last_fetched_lengths c' = Some (map snd xs)"
    by (rule AdvanceText_row)
  moreover have "fs = take (mysql_num_fields my (c_conn c)) fs'" "mysql_num_fields my (c_conn c) \<le> length fs'"
    using False assms(2) x(1) by (auto simp: result_fields_def split: if_splits)
  ultimately show thesis using that text_cells_typed [OF x(2)] by metis
next
  case True
  then have "AdvanceBinary my c = (Inr True, c')" using assms(1) by (simp add: Advance_def act_simps)
  then obtain fs' n m m1 status vs m2 c1 c2 xs where x: "mysql_stmt_result_metadata my (c_conn c) = Some (Some fs')"
    "n = mysql_stmt_field_count my (c_conn c)" "n \<le> length fs'"
    "mysql_stmt_bind_result my (map (\<lambda>t. (t, fst (bind_of my t))) (map fld_type (take n fs'))) m = (False, m1)"
    "mysql_stmt_fetch my m1 = ((status, vs), m2)" "status = 0 \<or> status = MYSQL_DATA_TRUNCATED"
    "binary_cells my 0 (map (\<lambda>t. snd (bind_of my t)) (map fld_type (take n fs'))) vs c1 = (Inr xs, c2)"
    "c_last_fetched_row c' = Some (map fst xs)" "c_last_fetched_lengths c' = Some (map snd xs)"
    by (rule AdvanceBinary_row)
  have fs: "take n fs' = fs" using True assms(2) x(1,2) by (auto simp: result_fields_def split: if_splits)
  note lib = assms(3) [OF True, unfolded fills_bound_buffers_def]
  have "list_all2 fetched_as (map fld_type fs) vs" using lib x(4-6) unfolding fs by blast
  then have "list_all2 (\<lambda>f. fetched_as (fld_type f)) fs vs" by (simp add: list_all2_map1)
  with binary_cells_typed [OF conjunct2 [OF lib], of 0 fs vs c1 xs c2] x(7) fs have "list_all2 typed_cell fs xs"
    by (simp add: comp_def)
  with that x(8,9) show thesis .
qed

text \<open>The schema of a parallel read is learnt from an \<^verbatim>\<open>EXPLAIN\<close> and as well formed.\<close>

lemma ExplainRowSchema_typed:
  assumes "ExplainRowSchema my q c = Some (Inr schema, c')"
  shows "list_all column_typed schema"
proof -
  obtain s where "ExplainToRowSchema (uninitialised my) s = Some (Inr schema)"
    using assms by (auto simp: ExplainRowSchema_def Let_def failed_def and_then_Inr_iff split: prod.splits sum.splits if_splits)
  then show ?thesis
    by (auto simp: ExplainToRowSchema_def Let_def and_then_Inr_iff split: option.splits sum.splits dest: ShowColumns_typed)
qed

section \<open>The contract\<close>

text \<open>C16. The schema of a result describes its rows, on both protocols: the schema \<^verbatim>\<open>GetRowSchema\<close> builds
  from the fields of a result gives every column the size of its type, and, when all its types are
  supported, every row the connection fetches of a result with these fields has exactly these columns,
  each value with the bytes the chunk writer reads of it (as long as fixed-size strings keep to the size the
  server declared and dates can be converted). On the binary protocol the client library is taken to fill
  the buffers as they were bound.
\<close>

theorem schema_describes_rows:
  assumes "GetRowSchema my b c = (Inr schema, c')" "result_fields my c = Some fs"
    and "list_all (\<lambda>col. col_type col \<noteq> Unsupported) schema"
    and "Advance my c1 = (Inr True, c2)" "result_fields my c1 = Some fs"
    and "c_use_binary_protocol c1 \<Longrightarrow> fills_bound_buffers my (map fld_type fs)"
  shows "list_all column_typed schema \<and>
    (\<exists>vs ls. c_last_fetched_row c2 = Some vs \<and> c_last_fetched_lengths c2 = Some ls \<and>
      (representable schema vs ls \<longrightarrow> row_ok schema vs ls))"
proof -
  have t: "list_all column_typed schema" "list_all2 (\<lambda>f c. \<exists>c0. c = field_type f c0) fs schema"
    using FieldsToRowSchema_typed [OF GetRowSchema_fields [OF assms(1,2)]] by (simp_all add: list_all_length)
  obtain xs where "c_last_fetched_row c2 = Some (map fst xs)" "c_last_fetched_lengths c2 = Some (map snd xs)"
    "list_all2 typed_cell fs xs" using Advance_typed [OF assms(4-6)] .
  with typed_cells_row t assms(3) show ?thesis by blast
qed


theorem schema_describes_rows_witness:
  "(\<exists>vs ls. c_last_fetched_row (text_at [5, 7]) = Some vs \<and> c_last_fetched_lengths (text_at [5, 7]) = Some ls \<and>
     row_ok [\<lparr>col_type = Variable, col_size = 0, col_name = ''a''\<rparr>] vs ls) \<and>
   (\<exists>vs ls. c_last_fetched_row (serving_at [[[None]], []]) = Some vs \<and>
     c_last_fetched_lengths (serving_at [[[None]], []]) = Some ls \<and> row_ok example_schema vs ls)"
proof
  let ?c = "text_connection [5, 7]" and ?fs = "[demo_field\<lparr>fld_type := MYSQL_TYPE_VAR_STRING\<rparr>]"
  let ?schema = "[\<lparr>col_type = Variable, col_size = 0, col_name = ''a''\<rparr>]"
  have f: "mysql_fetch_fields text_demo m = Some ?fs" "mysql_num_fields text_demo m = 1" for m
    by (simp_all add: text_demo_def)
  have c: "\<not> c_use_binary_protocol ?c" "c_res ?c" by (simp_all add: text_connection_def)
  have g: "GetRowSchema text_demo False ?c = (Inr ?schema, ?c)"
    using c f by (simp add: GetRowSchema_def act_simps Let_def field_type_def demo_field_def strndup_def)
  have r: "result_fields text_demo ?c = Some ?fs" using c f by (simp add: result_fields_def)
  have a: "Advance text_demo ?c = (Inr True, text_at [5, 7])" using text_Advance [of ?c "[5, 7]"] by simp
  show "\<exists>vs ls. c_last_fetched_row (text_at [5, 7]) = Some vs \<and> c_last_fetched_lengths (text_at [5, 7]) = Some ls \<and>
     row_ok ?schema vs ls"
    using schema_describes_rows [OF g r _ a r] c by (auto simp: text_at_def text_row_of_def representable_cell_def)
next
  let ?c = "serving_connection [[[None]], []]"
  have c: "c_use_binary_protocol ?c" "c_stmt ?c" by (simp_all add: serving_defs)
  have g: "GetRowSchema serving_mysql False ?c = (Inr example_schema, ?c)"
    by (simp add: GetRowSchema_def act_simps Let_def serving_defs field_type_def demo_field_def strndup_def
        example_schema_def)
  have r: "result_fields serving_mysql ?c = Some [demo_field]" by (simp add: result_fields_def serving_defs)
  have a: "Advance serving_mysql ?c = (Inr True, serving_at [[[None]], []])"
    using serving_Advance [of ?c "[[[None]], []]"] by simp
  have "fills_bound_buffers serving_mysql (map fld_type [demo_field])"
    by (auto simp: fills_bound_buffers_def fetched_as_def serving_mysql_def catalog_mysql_def demo_field_def
        MYSQL_DATA_TRUNCATED_def split: list.splits)
  then show "\<exists>vs ls. c_last_fetched_row (serving_at [[[None]], []]) = Some vs \<and>
     c_last_fetched_lengths (serving_at [[[None]], []]) = Some ls \<and> row_ok example_schema vs ls"
    using schema_describes_rows [OF g r _ a r]
    by (auto simp: serving_at_def serving_row_def demo_row_def representable_cell_def example_schema_def)
qed

end
