(* ===== verification/Failures.thy ===== *)
theory Failures
  imports SinglePass
begin

text \<open>
  Reads that fail: a reader that is not stopped either reads its partition to the end or records an
  error, whatever goes wrong (the server, the memory, a row that fits into no chunk), and a consumer
  that is told neither of a chunk nor of an error has got everything.
\<close>

section \<open>One reader\<close>

text \<open>
  The reader \<open>r\<close> is not stopped; its query may fail, the server may fail after some of the rows \<open>rs\<close>
  or after them (\<open>out\<close>), the memory may run out and a row may be too large. \<open>ops\<close> is what the reader does to its queue,
  \<open>r'\<close> the reader afterwards. An error with code 0 is none to this code, so the server's have others.
\<close>

definition unstopped_read ::
  "'m mysql \<Rightarrow> RowSchema \<Rightarrow> 'm ResultTableReader \<Rightarrow> row list \<Rightarrow> Chunk qop list \<Rightarrow> 'm ResultTableReader \<Rightarrow> bool" where
  "unstopped_read my cs r rs ops r' \<longleftrightarrow>
     (\<exists>r1 stopped alloc out.
        rt_row_schema r = Some cs \<and>
        (if rt_is_parallel r then PrepareRead my True r else (Inr (), r)) = (Inr (), r1) \<and>
        (fst (rt_error r1) = 0 \<longrightarrow> delivers my rs out (rt_conn r1)) \<and>
        (\<forall>msg. out \<noteq> Some (S2ClientError 0 msg)) \<and>
        unstopped stopped alloc (rt_chunk_size r) \<and> rows_ok cs rs \<and> length rs < 2 ^ 31 - 1 \<and>
        Read my stopped alloc r = Some (ops, Inr r'))"

lemma cut_short_recorded:
  assumes "cut_short out sz cs rows alloc (Inr err)" "\<forall>msg. out \<noteq> Some (S2ClientError 0 msg)"
  shows "\<exists>e. err = Some e \<and> fst e \<noteq> 0"
proof -
  have "\<exists>x. err = Some x \<and> fst x \<noteq> 0" if "out = Some e" "Inr err = caught e" for e
    using that assms(2) by (cases e)
      (auto simp: caught_def S2C_ERROR_UNKNOWN_FAILURE_def S2C_ERROR_MEMORY_ALLOCATION_def intro: gr0I)
  with assms(1) show ?thesis
    by (auto simp: cut_short_def caught_def S2C_ERROR_UNKNOWN_FAILURE_def S2C_ERROR_MEMORY_ALLOCATION_def)
qed

lemma unstopped_read_ops:
  assumes "unstopped_read my cs r rs ops r'"
  obtains chunks m where "ops = map QPush chunks @ [QDelete (sint (rt_partition r))]"
    "chunk_sequence cs (rt_partition r) 0 (take m rs) chunks" "\<forall>c \<in> set chunks. partition_id c = rt_partition r"
    "fst (rt_error r') = 0 \<longrightarrow> take m rs = rs"
proof -
  obtain r1 stopped alloc out where h: "rt_row_schema r = Some cs"
    "(if rt_is_parallel r then PrepareRead my True r else (Inr (), r)) = (Inr (), r1)"
    "fst (rt_error r1) = 0 \<longrightarrow> delivers my rs out (rt_conn r1)" "\<forall>msg. out \<noteq> Some (S2ClientError 0 msg)"
    "unstopped stopped alloc (rt_chunk_size r)" "rows_ok cs rs" "length rs < 2 ^ 31 - 1"
    and read: "Read my stopped alloc r = Some (ops, Inr r')"
    using assms unfolding unstopped_read_def by (elim exE conjE) (rule that; assumption)
  have part: "rt_partition r1 = rt_partition r" "rt_chunk_size r1 = rt_chunk_size r"
    using h(2) by (auto dest: PrepareRead_frame split: if_splits)
  show thesis
  proof (cases "fst (rt_error r1) = 0")
    case False
    then have "ops = [QDelete (sint (rt_partition r))]" "rt_error r' = rt_error r1"
      using read h(1,2) part by (auto simp: Read_def)
    with that [of "[]" 0] False show thesis by simp
  next
    case True
    have small: "0 + length rs < 2 ^ 31 - 1" using h(7) by simp
    obtain chunks m res c' where l: "read_loop my stopped alloc (rt_chunk_size r) (rt_partition r) cs 0 [] (rt_conn r1) =
        Some (chunks, res, c')" "chunk_sequence cs (rt_partition r) 0 (take m rs) chunks"
      "loop_ends out (rt_chunk_size r) cs rs alloc m res"
      using read_loop_stream [OF h(3) [rule_format, OF True] h(5,6) small, of "rt_partition r" "[]"] by auto
    show thesis
    proof (cases res)
      case (Inl e)
      then have "Read my stopped alloc r = Some (map QPush chunks, Inl e)"
        using True l(1) by (simp add: Read_def h(1,2) part)
      with read show thesis by simp
    next
      case (Inr err)
      with Read_by_loop [OF h(1,2) True] l(1) read have r: "ops = map QPush chunks @ [QDelete (sint (rt_partition r))]"
        "rt_error r' = (case err of None \<Rightarrow> rt_error r1 | Some e \<Rightarrow> e)"
        by auto
      have "fst (rt_error r') = 0 \<longrightarrow> take m rs = rs"
        using l(3) cut_short_recorded [OF _ h(4)] r(2) Inr by (fastforce simp: loop_ends_def)
      moreover have "\<forall>c \<in> set chunks. partition_id c = rt_partition r"
        using l(2) by (auto simp: chunk_sequence_def numbered_def in_set_conv_nth)
      ultimately show thesis using that [OF r(1) l(2)] by simp
    qed
  qed
qed

text \<open>An undisturbed read is one of these, and has no error.\<close>

lemma undisturbed_unstopped:
  assumes "undisturbed_read my cs r rs ops"
  obtains r' where "unstopped_read my cs r rs ops r'" "fst (rt_error r') = 0"
proof -
  obtain r1 stopped alloc r' where h: "rt_row_schema r = Some cs"
    "(if rt_is_parallel r then PrepareRead my True r else (Inr (), r)) = (Inr (), r1)"
    "fst (rt_error r1) = 0" "delivers my rs None (rt_conn r1)"
    "undisturbed stopped alloc (rt_chunk_size r)" "rows_fit_in (rt_chunk_size r) cs rs" "length rs < 2 ^ 31 - 1"
    and read: "Read my stopped alloc r = Some (ops, Inr r')"
    using assms unfolding undisturbed_read_def by blast
  have "unstopped stopped alloc (rt_chunk_size r)"
    using h(5) unfolding undisturbed_def unstopped_def by (metis option.inject)
  moreover have "rows_ok cs rs" using h(6) by (simp add: rows_fit_in_def)
  ultimately have "unstopped_read my cs r rs ops r'"
    unfolding unstopped_read_def using h read by (intro exI [of _ r1] exI [of _ stopped] exI [of _ alloc] exI [of _ None]) simp
  moreover have "fst (rt_error r') = 0" using Read_pushes [OF h] read by auto
  ultimately show thesis by (rule that)
qed

section \<open>What the consumer is told\<close>

lemma no_error_told:
  assumes "fst (cq_Get simple_sec (int i) Q) = Return (None, 0, msg)" "i < length (cq_consumer_queues Q)"
  shows "sq_items (cq_consumer_queues Q ! i) = [] \<and> sq_producers (cq_consumer_queues Q ! i) = 0 \<and>
    (\<forall>r \<in> set (cq_readers Q). fst (rt_error r) = 0)"
proof -
  let ?q = "cq_consumer_queues Q ! i"
  have pop: "sq_items ?q = [] \<and> sq_producers ?q = 0"
    using assms
    by (auto simp: cq_Get_def section_of_def got_def sq_Pop_def split: list.splits if_splits prod.splits)
  moreover have "\<forall>r \<in> set (cq_readers Q). fst (rt_error r) = 0"
    using assms pop
    by (auto simp: cq_Get_def section_of_def got_def sq_Pop_def readers_failed_def collect_errors_eq
        S2C_ERROR_READER_FAILED_def Let_def split: if_splits)
  ultimately show ?thesis by blast
qed

text \<open>
  \<open>now\<close> are the readers as a consumer sees them: those that have left the queue have recorded their error before
  that (\<^verbatim>\<open>Read\<close> assigns \<^verbatim>\<open>m_error\<close> before \<^verbatim>\<open>DeleteProducer\<close>); the others may show anything.
\<close>

definition errors_visible ::
  "'m ResultTableReader list \<Rightarrow> 'm ResultTableReader list \<Rightarrow> Chunk log \<Rightarrow> 'm ResultTableReader list \<Rightarrow> bool" where
  "errors_visible readers finals l now \<longleftrightarrow> length now = length readers \<and>
     (\<forall>j < length readers. QDelete (sint (rt_partition (readers ! j))) \<in> set (ops_by j l) \<longrightarrow>
        rt_error (now ! j) = rt_error (finals ! j))"

text \<open>C4. No row is lost silently: whatever goes wrong in the reading threads of a single-pass read that
  is not stopped (the query fails, the server fails between two rows, the memory runs out, a row is
  larger than the chunks), a consumer whose \<^verbatim>\<open>Get\<close> returns neither a chunk nor an error has got exactly
  the rows of each of its partitions, in order. Up to then what it has got of a partition are the first of the
  chunks that hold the rows read so far. (The memory may run out for a chunk or for the arrays of a row.)
  Every row has values of its columns' types, and a chunk holds its rows in the
  layout of the schema: a reader gets their values, except from a chunk whose first variable-length value is null
  or empty.
\<close>

theorem no_silent_loss:
  assumes "CreateStreamingQueue my inits h t q rt cols capacity sz n True prep cb cl = Some (Inr (Some Q), cl')"
    and "0 < n" "n \<le> INT_MAX" "0 < sint (cl_numWorkers cl)"
    and "0 \<le> sint (cl_workerId cl)" "sint (cl_workerId cl) < sint (cl_numWorkers cl)"
    and "sint (cl_numPartitions cl) + sint (cl_numWorkers cl) \<le> INT_MAX + 1"
    and "i < nat n" "readers = filter (\<lambda>r. rt_queue r = i) (cq_readers Q)"
    and "sys_reachable simple_sec (cq_consumer_queues Q ! i) s" "runs_readers progs (sys_log s)"
    and "length progs = length readers" "length finals = length readers"
    and "\<forall>j < length readers.
      unstopped_read my cs (readers ! j) (rows (rt_partition (readers ! j))) (progs ! j) (finals ! j)"
    and "i < length (cq_consumer_queues Q')" "cq_consumer_queues Q' ! i = sys_q s"
    and "errors_visible readers finals (sys_log s) (filter (\<lambda>r. rt_queue r = i) (cq_readers Q'))" "r \<in> set readers"
  shows "\<exists>chunks m. chunk_sequence cs (rt_partition r) 0 (take m (rows (rt_partition r))) chunks \<and>
    prefix (chunks_of (rt_partition r) (popped (sys_log s))) chunks \<and>
    (fst (cq_Get simple_sec (int i) Q') = Return (None, 0, '''') \<longrightarrow>
      chunks_of (rt_partition r) (popped (sys_log s)) = chunks \<and> take m (rows (rt_partition r)) = rows (rt_partition r))"
proof -
  let ?P = "\<lambda>j. rt_partition (readers ! j)" and ?n = "length readers" and ?now = "filter (\<lambda>r. rt_queue r = i) (cq_readers Q')"
  note Q = streaming_producers [OF assms(1-7)]
  have d: "distinct (map rt_partition readers)" "?n < 2 ^ 32"
    unfolding assms(9) using readers_of_consumer [of "cq_readers Q"] Q by blast+
  have "cq_consumer_queues Q ! i = ThreadSafeSimpleQueue capacity (of_nat ?n)" using Q assms(8,9) by simp
  then have reach: "sys_reachable simple_sec (ThreadSafeSimpleQueue capacity (of_nat ?n)) s" using assms(10) by simp
  have "\<forall>j < ?n. \<exists>cks m. progs ! j = map QPush cks @ [QDelete (sint (?P j))] \<and>
      chunk_sequence cs (?P j) 0 (take m (rows (?P j))) cks \<and> (\<forall>c \<in> set cks. partition_id c = ?P j) \<and>
      (fst (rt_error (finals ! j)) = 0 \<longrightarrow> take m (rows (?P j)) = rows (?P j))"
    using assms(14) by (metis unstopped_read_ops)
  then obtain chunks m where c: "\<And>j. j < ?n \<Longrightarrow> progs ! j = map QPush (chunks j) @ [QDelete (sint (?P j))] \<and>
      chunk_sequence cs (?P j) 0 (take (m j) (rows (?P j))) (chunks j) \<and> (\<forall>c \<in> set (chunks j). partition_id c = ?P j) \<and>
      (fst (rt_error (finals ! j)) = 0 \<longrightarrow> take (m j) (rows (?P j)) = rows (?P j))"
    by metis
  have "inj_on ?P {..<?n}" using d(1) by (auto simp: inj_on_def distinct_conv_nth)
  with c assms(12) d(2) have progs: "reader_programs ?n ?P chunks progs" by (simp add: reader_programs_def)
  obtain j where j: "j < ?n" "r = readers ! j" using assms(18) by (auto simp: in_set_conv_nth)
  have "chunks_of (?P j) (popped (sys_log s)) = chunks j \<and> take (m j) (rows (?P j)) = rows (?P j)"
    if told: "fst (cq_Get simple_sec (int i) Q') = Return (None, 0, '''')"
  proof -
    note t = no_error_told [OF told assms(15), unfolded assms(16)]
    have left: "QDelete (sint (?P j)) \<in> set (ops_by j (sys_log s))"
      using drained_left [OF progs assms(11) j(1) reach] t by simp
    then have "rt_error (?now ! j) = rt_error (finals ! j)" "j < length ?now"
      using assms(17) j(1) by (simp_all add: errors_visible_def)
    moreover from this(2) have "?now ! j \<in> set (cq_readers Q')" using nth_mem [of j ?now] by simp
    ultimately have "fst (rt_error (finals ! j)) = 0" using t by metis
    with c [OF j(1)] drained [OF progs assms(11) j(1) reach] t show ?thesis by simp
  qed
  with c [OF j(1)] delivered [OF progs assms(11) j(1) reach] j(2) show ?thesis by blast
qed


section \<open>An example\<close>

theorem no_silent_loss_witness:
  "\<exists>Q cl' s (Q' :: text_row list list StreamingQueue). CreateStreamingQueue serving_mysql (\<lambda>p. (Some [[], [[]]], None)) None (Some ''t'') ''q'' ReadTypeOriginalTable
      [] 4 16 2 True True True (example_client [[[Some example_plan_text]], []]) = Some (Inr (Some Q), cl') \<and>
    sys_reachable simple_sec (cq_consumer_queues Q ! 1) s \<and> cq_consumer_queues Q' ! 1 = sys_q s \<and>
    fst (cq_Get simple_sec 1 Q') = Return (None, 0, '''') \<and>
    chunk_sequence example_schema 1 0 [demo_row 0, demo_row 1] (chunks_of 1 (popped (sys_log s)))"
proof -
  let ?m = "[[[Some example_plan_text]], []]"
  obtain Q cl' qry where Q: "CreateStreamingQueue serving_mysql (\<lambda>p. (Some [[], [[]]], None)) None (Some ''t'') ''q''
      ReadTypeOriginalTable [] 4 16 2 True True True (example_client ?m) = Some (Inr (Some Q), cl')"
    and r: "filter (\<lambda>r. rt_queue r = 1) (cq_readers Q) =
      [new_reader (catalog_connection [[], [[]]]\<lparr>c_stmt := True\<rparr>) 1 1 16 qry (Some example_schema)]"
    using example_creation [OF serving_answers, of "\<lambda>p. [[], [[]]]"] by blast
  define r0 where "r0 = new_reader (serving_connection [[], [[]]]) 1 1 16 qry (Some example_schema)"
  have r: "filter (\<lambda>r. rt_queue r = 1) (cq_readers Q) = [r0]" "rt_partition r0 = 1"
    using r by (simp_all add: r0_def serving_connection_def new_reader_def)
  have n: "0 < (2::int)" "(2::int) \<le> INT_MAX" "0 < sint (cl_numWorkers (example_client ?m))"
    "0 \<le> sint (cl_workerId (example_client ?m))"
    "sint (cl_workerId (example_client ?m)) < sint (cl_numWorkers (example_client ?m))"
    "sint (cl_numPartitions (example_client ?m)) + sint (cl_numWorkers (example_client ?m)) \<le> INT_MAX + 1"
    "1 < nat 2"
    by (simp_all add: example_client_def INT_MAX_def)
  have q: "cq_consumer_queues Q ! 1 = ThreadSafeSimpleQueue 4 1" "length (cq_consumer_queues Q) = 2"
    using streaming_producers [OF Q n(1-6)] r(1) by simp_all
  let ?rows = "map serving_row [[], [[]]]"
  obtain chunks where "undisturbed_read serving_mysql example_schema r0 ?rows (map QPush chunks @ [QDelete (sint (1 :: u32))])"
    by (rule serving_read [of r0 "[]" "[[[]]]" 1 1 qry]) (simp_all add: r0_def)
  then obtain r' where u: "unstopped_read serving_mysql example_schema r0 ?rows
      (map QPush chunks @ [QDelete (sint (1 :: u32))]) r'" and e: "fst (rt_error r') = 0"
    by (rule undisturbed_unstopped)
  obtain s where s: "sys_reachable simple_sec (cq_consumer_queues Q ! 1) s" "sys_log s = turns chunks (sint (1 :: u32))"
    "sys_q s = ThreadSafeSimpleQueue 4 0"
    using turns_reachable [of 4 chunks "sint (1 :: u32)"] q by auto
  define Q' where "Q' = Q\<lparr>cq_consumer_queues := (cq_consumer_queues Q)[1 := sys_q s],
    cq_readers := map (\<lambda>r. r\<lparr>rt_error := rt_error r'\<rparr>) (cq_readers Q)\<rparr>"
  have q': "cq_consumer_queues Q' ! 1 = sys_q s" "1 < length (cq_consumer_queues Q')"
    "filter (\<lambda>r. rt_queue r = 1) (cq_readers Q') = [r0\<lparr>rt_error := rt_error r'\<rparr>]"
    using q(2) r(1) by (simp_all add: Q'_def filter_map comp_def)
  have get: "fst (cq_Get simple_sec (int 1) Q') = Return (None, 0, '''')"
    using q' s(3) e
    by (auto simp: cq_Get_def section_of_def got_def sq_Pop_def ThreadSafeSimpleQueue_def readers_failed_def
        collect_errors_eq Q'_def Let_def)
  have vis: "errors_visible [r0] [r'] (sys_log s) (filter (\<lambda>r. rt_queue r = 1) (cq_readers Q'))"
    unfolding q'(3) by (simp add: errors_visible_def)
  have "\<exists>cks m. chunk_sequence example_schema (rt_partition r0) 0 (take m ?rows) cks \<and>
      prefix (chunks_of (rt_partition r0) (popped (sys_log s))) cks \<and>
      (fst (cq_Get simple_sec (int 1) Q') = Return (None, 0, '''') \<longrightarrow>
        chunks_of (rt_partition r0) (popped (sys_log s)) = cks \<and> take m ?rows = ?rows)"
    by (rule no_silent_loss [OF Q n r(1) [symmetric] s(1), where finals = "[r']" and rows = "\<lambda>p. ?rows"
          and progs = "[map QPush chunks @ [QDelete (sint (1 :: u32))]]"])
       (use turns_log(4) [of chunks "sint (1 :: u32)"] s(2) u q' vis in simp_all)
  then have "chunk_sequence example_schema 1 0 ?rows (chunks_of 1 (popped (sys_log s)))"
    using get r(2) by auto
  moreover have "?rows = [demo_row 0, demo_row 1]" by (simp add: serving_row_def)
  ultimately show ?thesis
    using Q s(1) q'(1) get by (intro exI [of _ Q] exI [of _ cl'] exI [of _ s] exI [of _ Q'] conjI) simp_all
qed

end
