(* ===== verification/MultiFailures.thy ===== *)
theory MultiFailures
  imports MultiPass Failures
begin

text \<open>
  Multi-pass reads that fail: a consumer that asks for a chunk by number and is told neither of a chunk nor of an
  error has got that chunk already, or there is none with that number, and nothing of the partition is missing.
\<close>

section \<open>The queue of a partition\<close>

lemma partition_queue:
  assumes "CreateMultiPassQueue my inits t q src k rt cols capacity sz n cb cl = Some (Inr (Some Q), cl')"
    and "0 < n" "n \<le> INT_MAX" "0 < sint (cl_numWorkers cl)"
    and "0 \<le> sint (cl_workerId cl)" "sint (cl_workerId cl) < sint (cl_numWorkers cl)"
    and "sint (cl_numPartitions cl) + sint (cl_numWorkers cl) \<le> INT_MAX + 1" "r \<in> set (cq_readers Q)"
  shows "queue_index (length (cq_consumer_queues Q)) (cq_partition_consumer Q) (sint (rt_partition r)) = Inr (rt_queue r)"
proof -
  let ?P = "\<lambda>p. p mod sint (cl_numWorkers cl) = sint (cl_workerId cl)"
  obtain parts where p: "WorkerPartitions (sint (cl_numWorkers cl)) (sint (cl_workerId cl)) (sint (cl_numPartitions cl)) = Inr parts"
    and rd: "list_all2 (\<lambda>p r. \<exists>c k q. queue_index (length (cq_consumer_queues Q)) (cq_partition_consumer Q) p = Inr k \<and>
        r = new_reader c k (word_of_int p) sz q (cq_row_schema Q)) parts (cq_readers Q)"
    using CreateMultiPassQueue_parts [OF assms(1)] .
  obtain p c k q where r: "p \<in> set parts" "r = new_reader c k (word_of_int p) sz q (cq_row_schema Q)"
    "queue_index (length (cq_consumer_queues Q)) (cq_partition_consumer Q) p = Inr k"
    using list_all2_nthD2 [OF rd] list_all2_lengthD [OF rd] assms(8) by (metis in_set_conv_nth)
  have "parts = filter ?P [0..sint (cl_numPartitions cl) - 1]" using p WorkerPartitions_eq [OF assms(4-7)] by simp
  with r(1) have "0 \<le> p" "p < sint (cl_numPartitions cl)" by auto
  then have "sint (word_of_int p :: u32) = p" using sint_lt [of "cl_numPartitions cl"] by (simp add: int_word_sint)
  with r(2,3) show ?thesis by (simp add: new_reader_def)
qed

section \<open>What the consumer is told\<close>

lemma not_told:
  assumes "fst (multi_GetById again p v Q) = Return (None, 0, msg)"
    and "queue_index (length (cq_consumer_queues Q)) (cq_partition_consumer Q) p = Inr i"
  shows "\<forall>r \<in> set (cq_readers Q). fst (rt_error r) = 0"
    "bq_itemsToRead (cq_consumer_queues Q ! i) = 0 \<and> bq_activeProducers (cq_consumer_queues Q ! i) = 0 \<or>
     bq_data (cq_consumer_queues Q ! i) ! nat (targetIndex (cq_consumer_queues Q ! i) p v) = None \<and>
     \<not> bq_active (cq_consumer_queues Q ! i) ! producer_number (cq_consumer_queues Q ! i) p"
proof -
  let ?q = "cq_consumer_queues Q ! i"
  have i: "0 \<le> p" "nat p < length (cq_partition_consumer Q)" "cq_partition_consumer Q ! nat p = int i"
    "i < length (cq_consumer_queues Q)"
    using assms(2) by (auto simp: queue_index_def split: if_splits)
  define op :: "Chunk qop" where "op = (if again then QGetLoop p v else QGet p v)"
  obtain x q ns where sec: "batch_sec op ?q = (x, q, ns)" by (cases "batch_sec op ?q")
  have op: "op = QGet p v \<or> op = QGetLoop p v" by (simp add: op_def)
  have got: "fst (got x (Q\<lparr>cq_consumer_queues := (cq_consumer_queues Q)[i := q]\<rparr>)) = Return (None, 0, msg)"
    using assms(1) i sec by (simp add: multi_GetById_def section_of_def op_def split: prod.splits)
  have "x \<noteq> Return None"
    using sec op by (auto simp: bq_Get_def bq_GetLoop_def readValue_def Let_def
        split: if_splits option.splits list.splits prod.splits)
  with got obtain what where x: "x = Throw (OutOfRange what)"
    and err: "fst (readers_failed (cq_readers Q)) = 0"
    by (auto simp: got_def Let_def split: outcome.splits fault.splits)
  show "\<forall>r \<in> set (cq_readers Q). fst (rt_error r) = 0"
    using err by (auto simp: readers_failed_def collect_errors_eq S2C_ERROR_READER_FAILED_def Let_def split: if_splits)
  have "bq_itemsToRead ?q = 0 \<and> bq_activeProducers ?q = 0 \<or> bq_GetLoop p v ?q = (x, q, ns)"
    using sec op by (auto simp: bq_Get_def split: if_splits)
  moreover have "bq_data ?q ! nat (targetIndex ?q p v) = None \<and> \<not> bq_active ?q ! producer_number ?q p"
    if "bq_GetLoop p v ?q = (x, q, ns)"
    using that x by (auto simp: bq_GetLoop_def Let_def split: if_splits option.splits list.splits prod.splits)
  ultimately show "bq_itemsToRead ?q = 0 \<and> bq_activeProducers ?q = 0 \<or>
     bq_data ?q ! nat (targetIndex ?q p v) = None \<and> \<not> bq_active ?q ! producer_number ?q p"
    by blast
qed

section \<open>Chunks that are not there\<close>

lemma inactive:
  assumes "multi_inv ids chunks l q" "bq_activeProducers q = 0" "j < length ids"
  shows "\<not> bq_active q ! j"
proof -
  have "filter id (bq_active q) = []" using assms(1,2) by (simp add: multi_inv_def)
  moreover have "bq_active q ! j \<in> set (bq_active q)"
    using assms(1,3) by (auto simp: multi_inv_def batch_inv_def shape_ok_def bq_totalProducers_def)
  ultimately show ?thesis by (auto simp: filter_empty_conv)
qed

lemma nothing_left:
  assumes "multi_inv ids chunks l q" "bq_itemsToRead q = 0" "x \<in> set (bq_data q)"
  shows "x = None"
  using assms filled_0 [of "bq_data q"] by (auto simp: multi_inv_def batch_inv_def in_set_conv_nth)

lemma inactive_left:
  assumes "multi_inv ids chunks l q" "multi_programs ids chunks progs" "runs_getters ids progs l" "j < length ids"
    and "\<not> bq_active q ! j"
  shows "QDelete (ids ! j) \<in> set (ops_by j l)"
proof -
  have "deletes (ops_by j l) \<noteq> 0" using assms(1,4,5) by (simp add: multi_inv_def reader_inv_def)
  then show ?thesis
    using pushed_beginning(2) [OF assms(2-4)] by (auto simp: deletes_def filter_empty_conv)
qed

text \<open>When the reader has left and the slot of a chunk is empty, the chunk has been got.\<close>

lemma empty_slot_got:
  assumes "multi_inv ids chunks l q" "multi_programs ids chunks progs" "runs_getters ids progs l" "j < length ids"
    and "\<not> bq_active q ! j" "bq_row q j ! (k mod bsz q) = None" "k < length (chunks j)"
  shows "chunks j ! k \<in> set (got_chunks (ids ! j) l)"
proof -
  have j: "j < bq_totalProducers q" "bq_producerIds q = ids"
    using assms(1,4) by (simp_all add: multi_inv_def bq_totalProducers_def)
  obtain nx where nx: "batch_inv q nx" using assms(1) by (auto simp: multi_inv_def)
  then have sh: "shape_ok q" by (simp add: batch_inv_def)
  have inv: "deletes (ops_by j l) \<noteq> 0"
    "mset (got_chunks (ids ! j) l) + mset (set_values (bq_row q j)) = mset (push_values (ops_by j l))"
    using assms(1,4,5) by (simp_all add: multi_inv_def reader_inv_def)
  have "push_values (ops_by j l) = chunks j"
    using inv(1) prefix_of_prog [OF own_multi_program [OF assms(2-4)]] by auto
  then have "chunks j ! k \<in># mset (got_chunks (ids ! j) l) + mset (set_values (bq_row q j))"
    using inv(2) assms(7) by simp
  moreover have "chunks j ! k \<notin> set (set_values (bq_row q j))"
  proof
    assume "chunks j ! k \<in> set (set_values (bq_row q j))"
    then obtain m where m: "m < length (bq_row q j)" "bq_row q j ! m = Some (chunks j ! k)"
      by (force simp: set_values_def in_set_conv_nth [of _ "bq_row q j"])
    have B: "0 < bsz q" using sh by (simp add: shape_ok_def)
    have "m < bsz q" using m(1) slot_row_nth(2) [OF shape_data [OF sh] j(1) B] by simp
    moreover from this have "bq_data q ! (j * bsz q + m) = Some (chunks j ! k)"
      using m(2) slot_row_nth(1) [OF shape_data [OF sh] j(1)] by simp
    ultimately have "unat (chunk_id (chunks j ! k)) = bcur q * bsz q + m"
      using nx j(1) by (auto simp: batch_inv_def slot_holds_def)
    moreover have "unat (chunk_id (chunks j ! k)) = k" using assms(2,4,7) by (simp add: multi_programs_def)
    ultimately have "k mod bsz q = m" using \<open>m < bsz q\<close> by simp
    with m(2) assms(6) show False by simp
  qed
  ultimately show "chunks j ! k \<in> set (got_chunks (ids ! j) l)" by auto
qed

lemma told_of_nothing:
  assumes "multi_inv ids chunks l q" "j < length ids" "0 \<le> v"
    and "bq_itemsToRead q = 0 \<and> bq_activeProducers q = 0 \<or>
      bq_data q ! nat (targetIndex q (ids ! j) v) = None \<and> \<not> bq_active q ! producer_number q (ids ! j)"
  shows "\<not> bq_active q ! j \<and> bq_row q j ! (nat v mod bsz q) = None"
proof -
  have j: "j < bq_totalProducers q" "bq_producerIds q = ids"
    using assms(1,2) by (simp_all add: multi_inv_def bq_totalProducers_def)
  have sh: "shape_ok q" and d: "distinct ids" using assms(1) j(2) by (auto simp: multi_inv_def batch_inv_def)
  then have B: "0 < bq_batchSize q" "nat v mod bsz q < bsz q" by (simp_all add: shape_ok_def)
  let ?k = "j * bsz q + nat v mod bsz q"
  have row: "bq_row q j ! (nat v mod bsz q) = bq_data q ! ?k"
    using slot_row_nth(1) [OF shape_data [OF sh] j(1) B(2)] .
  have k: "?k < length (bq_data q)" unfolding shape_data [OF sh] by (rule row_index [OF j(1) B(2)])
  have "targetIndex q (ids ! j) v = int ?k" using targetIndex_nth [of q j v] d j B(1) assms(3) by simp
  then have "nat (targetIndex q (ids ! j) v) = ?k" by (simp only: nat_int)
  moreover have "producer_number q (ids ! j) = j" using producer_number_nth [of q j] d j by simp
  ultimately show ?thesis
    using assms(4) row nothing_left [OF assms(1) _ nth_mem [OF k]] inactive [OF assms(1) _ assms(2)] by auto
qed

section \<open>A read of one consumer\<close>

lemma unstopped_programs:
  assumes "distinct (map (\<lambda>r. sint (rt_partition r)) readers)" "length progs = length readers"
    and "\<forall>j < length readers. unstopped_read my cs (readers ! j) (rows (rt_partition (readers ! j))) (progs ! j) (finals ! j)"
  obtains chunks m where "multi_programs (map (\<lambda>r. sint (rt_partition r)) readers) chunks progs"
    "\<And>j. j < length readers \<Longrightarrow>
      chunk_sequence cs (rt_partition (readers ! j)) 0 (take (m j) (rows (rt_partition (readers ! j)))) (chunks j) \<and>
      (fst (rt_error (finals ! j)) = 0 \<longrightarrow> take (m j) (rows (rt_partition (readers ! j))) = rows (rt_partition (readers ! j)))"
proof -
  let ?P = "\<lambda>j. rt_partition (readers ! j)"
  have "\<forall>j < length readers. \<exists>cks m. progs ! j = map QPush cks @ [QDelete (sint (?P j))] \<and>
      chunk_sequence cs (?P j) 0 (take m (rows (?P j))) cks \<and>
      (fst (rt_error (finals ! j)) = 0 \<longrightarrow> take m (rows (?P j)) = rows (?P j))"
    using assms(3) by (metis unstopped_read_ops)
  then obtain chunks m where c: "\<And>j. j < length readers \<Longrightarrow> progs ! j = map QPush (chunks j) @ [QDelete (sint (?P j))] \<and>
      chunk_sequence cs (?P j) 0 (take (m j) (rows (?P j))) (chunks j) \<and>
      (fst (rt_error (finals ! j)) = 0 \<longrightarrow> take (m j) (rows (?P j)) = rows (?P j))"
    by metis
  have len: "length (take (m j) (rows (?P j))) < 2 ^ 31" if "j < length readers" for j
  proof -
    have "length (rows (?P j)) < 2 ^ 31" using assms(3) that by (force simp: unstopped_read_def)
    then show ?thesis by simp
  qed
  have "multi_programs (map (\<lambda>r. sint (rt_partition r)) readers) chunks progs"
    unfolding multi_programs_def value_partition_def length_map
  proof (intro conjI allI impI)
    fix j k
    assume j: "j < length readers"
    show "progs ! j = map QPush (chunks j) @ [QDelete (map (\<lambda>r. sint (rt_partition r)) readers ! j)]" using c j by simp
    show "length (chunks j) \<le> 2 ^ 31" using c [OF j] chunk_sequence_length len [OF j] by fastforce
    assume "k < length (chunks j)"
    then show "unat (chunk_id (chunks j ! k)) = k"
      "sint (partition_id (chunks j ! k)) = map (\<lambda>r. sint (rt_partition r)) readers ! j"
      using chunk_sequence_numbers [OF _ len [OF j]] c [OF j] j by auto
  qed (use assms(1,2) in simp_all)
  with c that show thesis by blast
qed

text \<open>C5. No row is lost silently in a multi-pass read either: whatever goes wrong in its reading threads, as long as
  they are not stopped, a consumer that asks for chunk \<open>v\<close> of a partition of its own and is told neither of a chunk nor
  of an error has got that chunk before, or the partition has no such chunk, and the partition has been read to its end.
  What was got of a partition up to then are chunks of the rows read so far, none of them twice, and until its reader left
  each is the one asked for. Every row has values of its columns' types, and a chunk holds its rows in the
  layout of the schema: a reader gets their values, except from a chunk whose first variable-length value is null
  or empty.
\<close>

theorem multi_pass_no_silent_loss:
  assumes "CreateMultiPassQueue my inits t q src k rt cols capacity sz n cb cl = Some (Inr (Some Q), cl')"
    and "0 < n" "n \<le> INT_MAX" "0 < sint (cl_numWorkers cl)"
    and "0 \<le> sint (cl_workerId cl)" "sint (cl_workerId cl) < sint (cl_numWorkers cl)"
    and "sint (cl_numPartitions cl) + sint (cl_numWorkers cl) \<le> INT_MAX + 1"
    and "i < nat n" "0 < sint capacity" "readers = filter (\<lambda>r. rt_queue r = i) (cq_readers Q)"
    and "sys_reachable batch_sec (cq_consumer_queues Q ! i) s"
    and "runs_getters (map (\<lambda>r. sint (rt_partition r)) readers) progs (sys_log s)"
    and "length progs = length readers" "length finals = length readers"
    and "\<forall>j < length readers.
      unstopped_read my cs (readers ! j) (rows (rt_partition (readers ! j))) (progs ! j) (finals ! j)"
    and "length (cq_consumer_queues Q') = length (cq_consumer_queues Q)" "cq_consumer_queues Q' ! i = sys_q s"
    and "cq_partition_consumer Q' = cq_partition_consumer Q"
    and "errors_visible readers finals (sys_log s) (filter (\<lambda>r. rt_queue r = i) (cq_readers Q'))"
    and "r \<in> set readers" "0 \<le> v"
  shows "\<exists>chunks m. chunk_sequence cs (rt_partition r) 0 (take m (rows (rt_partition r))) chunks \<and>
    gets_right chunks (sint (rt_partition r)) (sys_log s) \<and>
    mset (got_chunks (sint (rt_partition r)) (sys_log s)) \<subseteq># mset chunks \<and>
    (fst (multi_GetById again (sint (rt_partition r)) v Q') = Return (None, 0, '''') \<longrightarrow>
      take m (rows (rt_partition r)) = rows (rt_partition r) \<and>
      (nat v < length chunks \<longrightarrow> chunks ! nat v \<in> set (got_chunks (sint (rt_partition r)) (sys_log s))))"
proof -
  let ?ids = "map (\<lambda>r. sint (rt_partition r)) readers" and ?now = "filter (\<lambda>r. rt_queue r = i) (cq_readers Q')"
  have d: "distinct ?ids" and reach: "sys_reachable batch_sec (ThreadSafeBatchQueue capacity ?ids) s"
    using multi_pass_producers [OF assms(1-8)] assms(10,11) by auto
  obtain chunks m where progs: "multi_programs ?ids chunks progs"
    and c: "\<And>j. j < length readers \<Longrightarrow>
      chunk_sequence cs (rt_partition (readers ! j)) 0 (take (m j) (rows (rt_partition (readers ! j)))) (chunks j) \<and>
      (fst (rt_error (finals ! j)) = 0 \<longrightarrow> take (m j) (rows (rt_partition (readers ! j))) = rows (rt_partition (readers ! j)))"
    using unstopped_programs [OF d assms(13,15)] by blast
  obtain j where j: "j < length readers" "r = readers ! j" using assms(20) by (auto simp: in_set_conv_nth)
  then have ids: "j < length ?ids" "?ids ! j = sint (rt_partition r)" by simp_all
  note inv = reachable_multi_inv [OF reach assms(9) progs assms(12)]
  have "take (m j) (rows (rt_partition r)) = rows (rt_partition r) \<and>
      (nat v < length (chunks j) \<longrightarrow> chunks j ! nat v \<in> set (got_chunks (sint (rt_partition r)) (sys_log s)))"
    if told: "fst (multi_GetById again (sint (rt_partition r)) v Q') = Return (None, 0, '''')"
  proof -
    have "r \<in> set (cq_readers Q)" "rt_queue r = i" using assms(10,20) by simp_all
    with partition_queue [OF assms(1-7), of r]
    have "queue_index (length (cq_consumer_queues Q')) (cq_partition_consumer Q') (sint (rt_partition r)) = Inr i"
      using assms(16,18) by simp
    note t = not_told [OF told this, unfolded assms(17)]
    have e: "\<not> bq_active (sys_q s) ! j" "bq_row (sys_q s) j ! (nat v mod bsz (sys_q s)) = None"
      using told_of_nothing [OF inv ids(1) assms(21)] t(2) ids(2) by simp_all
    have "QDelete (sint (rt_partition (readers ! j))) \<in> set (ops_by j (sys_log s))"
      using inactive_left [OF inv progs assms(12) ids(1) e(1)] ids(2) j(2) by simp
    then have "rt_error (?now ! j) = rt_error (finals ! j)" "j < length ?now"
      using assms(19) j(1) by (simp_all add: errors_visible_def)
    moreover from this(2) have "?now ! j \<in> set (cq_readers Q')" using nth_mem [of j ?now] by simp
    ultimately have "fst (rt_error (finals ! j)) = 0" using t(1) by metis
    with c [OF j(1)] empty_slot_got [OF inv progs assms(12) ids(1) e] ids(2) j(2) show ?thesis by simp
  qed
  with c [OF j(1)] getters_delivered [OF reach assms(9) progs assms(12) ids(1)] ids(2) j(2) show ?thesis by auto
qed

section \<open>An example\<close>

theorem multi_pass_no_silent_loss_witness:
  "\<exists>Q cl' s (Q' :: text_row list list MultiPassQueue). CreateMultiPassQueue serving_mysql (\<lambda>p. (Some [[], [[]]], None)) ''t'' ''q'' None ''k''
      ReadTypeColumnStoreTable [] 1 16 2 True (example_client [[[Some example_plan_text]], []]) = Some (Inr (Some Q), cl') \<and>
    sys_reachable batch_sec (cq_consumer_queues Q ! 1) s \<and> cq_consumer_queues Q' ! 1 = sys_q s \<and>
    fst (multi_GetById False 1 0 Q') = Return (None, 0, '''') \<and>
    (\<exists>chunks. chunk_sequence example_schema 1 0 [demo_row 0, demo_row 1] chunks \<and>
      chunks ! 0 \<in> set (got_chunks 1 (sys_log s)))"
proof -
  let ?m = "[[[Some example_plan_text]], []]"
  obtain Q cl' qry where Q: "CreateMultiPassQueue serving_mysql (\<lambda>p. (Some [[], [[]]], None)) ''t'' ''q'' None ''k''
      ReadTypeColumnStoreTable [] 1 16 2 True (example_client ?m) = Some (Inr (Some Q), cl')"
    and r: "filter (\<lambda>r. rt_queue r = 1) (cq_readers Q) =
      [new_reader (catalog_connection [[], [[]]]\<lparr>c_stmt := True\<rparr>) 1 1 16 qry (Some example_schema)]"
    using example_multi_creation [OF serving_answers, of "\<lambda>p. [[], [[]]]" 1] by blast
  define r0 where "r0 = new_reader (serving_connection [[], [[]]]) 1 1 16 qry (Some example_schema)"
  have r: "filter (\<lambda>r. rt_queue r = 1) (cq_readers Q) = [r0]" "rt_partition r0 = 1" "rt_queue r0 = 1"
    using r by (simp_all add: r0_def serving_connection_def new_reader_def)
  have n: "0 < (2::int)" "(2::int) \<le> INT_MAX" "0 < sint (cl_numWorkers (example_client ?m))"
    "0 \<le> sint (cl_workerId (example_client ?m))"
    "sint (cl_workerId (example_client ?m)) < sint (cl_numWorkers (example_client ?m))"
    "sint (cl_numPartitions (example_client ?m)) + sint (cl_numWorkers (example_client ?m)) \<le> INT_MAX + 1"
    "1 < nat 2" "0 < sint (1 :: u32)"
    by (simp_all add: example_client_def INT_MAX_def)
  have q: "cq_consumer_queues Q ! 1 = ThreadSafeBatchQueue 1 [1]"
    using multi_pass_producers [OF Q n(1-7)] r by auto
  have "r0 \<in> set (filter (\<lambda>r. rt_queue r = 1) (cq_readers Q))" unfolding r(1) by simp
  then have "r0 \<in> set (cq_readers Q)" by simp
  from partition_queue [OF Q n(1-6) this]
  have qi: "queue_index (length (cq_consumer_queues Q)) (cq_partition_consumer Q) 1 = Inr 1" using r by simp
  let ?rows = "map serving_row [[], [[]]]"
  obtain chunks where un: "undisturbed_read serving_mysql example_schema r0 ?rows
      (map QPush chunks @ [QDelete (sint (1 :: u32))])"
    by (rule serving_read [of r0 "[]" "[[[]]]" 1 1 qry]) (simp_all add: r0_def)
  from undisturbed_read_ops [OF un] obtain cks where
    "map QPush chunks @ [QDelete (sint (1 :: u32))] = map QPush cks @ [QDelete (sint (rt_partition r0))]"
    and cs: "chunk_sequence example_schema (rt_partition r0) 0 ?rows cks" .
  then have "chunks = cks" by (simp add: inj_map_eq_map inj_on_def)
  with cs r(2) have cs: "chunk_sequence example_schema 1 0 ?rows chunks" by simp
  have len: "length chunks < 2 ^ 31" using chunk_sequence_length [OF cs] by simp
  have "\<forall>j < length chunks. unat (chunk_id (chunks ! j)) = j \<and> value_partition (chunks ! j) = 1"
    using chunk_sequence_numbers [OF cs] by (simp add: value_partition_def)
  from get_turns_to_the_end [OF this len] obtain s where s: "sys_reachable batch_sec (cq_consumer_queues Q ! 1) s"
    "runs_getters [1] [map QPush chunks @ [QDelete 1]] (sys_log s)"
    "bq_itemsToRead (sys_q s) = 0" "bq_activeProducers (sys_q s) = 0"
    unfolding q by blast
  from un obtain r' where u: "unstopped_read serving_mysql example_schema r0 ?rows
      (map QPush chunks @ [QDelete (sint (1 :: u32))]) r'" and e: "fst (rt_error r') = 0"
    by (rule undisturbed_unstopped)
  define Q' where "Q' = Q\<lparr>cq_consumer_queues := (cq_consumer_queues Q)[1 := sys_q s],
    cq_readers := map (\<lambda>r. r\<lparr>rt_error := rt_error r'\<rparr>) (cq_readers Q)\<rparr>"
  have "1 < length (cq_consumer_queues Q)" using qi by (auto simp: queue_index_def split: if_splits)
  then have q': "cq_consumer_queues Q' ! 1 = sys_q s" "length (cq_consumer_queues Q') = length (cq_consumer_queues Q)"
    "cq_partition_consumer Q' = cq_partition_consumer Q"
    "filter (\<lambda>r. rt_queue r = 1) (cq_readers Q') = [r0\<lparr>rt_error := rt_error r'\<rparr>]"
    using r(1) by (simp_all add: Q'_def filter_map comp_def)
  have get: "fst (multi_GetById False 1 0 Q') = Return (None, 0, '''')"
    using qi q'(1-3) s(3,4) e
    by (auto simp: multi_GetById_def queue_index_def section_of_def bq_Get_def got_def readers_failed_def
        collect_errors_eq Q'_def Let_def split: if_splits)
  have vis: "errors_visible [r0] [r'] (sys_log s) (filter (\<lambda>r. rt_queue r = 1) (cq_readers Q'))"
    unfolding q'(4) by (simp add: errors_visible_def)
  have "\<exists>cks m. chunk_sequence example_schema (rt_partition r0) 0 (take m ?rows) cks \<and>
      gets_right cks (sint (rt_partition r0)) (sys_log s) \<and>
      mset (got_chunks (sint (rt_partition r0)) (sys_log s)) \<subseteq># mset cks \<and>
      (fst (multi_GetById False (sint (rt_partition r0)) 0 Q') = Return (None, 0, '''') \<longrightarrow> take m ?rows = ?rows \<and>
        (nat 0 < length cks \<longrightarrow> cks ! nat 0 \<in> set (got_chunks (sint (rt_partition r0)) (sys_log s))))"
    by (rule multi_pass_no_silent_loss [OF Q n r(1) [symmetric] s(1), where finals = "[r']" and rows = "\<lambda>p. ?rows"
          and progs = "[map QPush chunks @ [QDelete (sint (1 :: u32))]]"])
       (use s(2) u q' vis r(2) in simp_all)
  then obtain cks where k: "chunk_sequence example_schema 1 0 ?rows cks"
    "cks \<noteq> [] \<longrightarrow> cks ! 0 \<in> set (got_chunks 1 (sys_log s))"
    using get r(2) by auto
  moreover from k(1) have "cks \<noteq> []" by (auto simp: chunk_sequence_def)
  moreover have "?rows = [demo_row 0, demo_row 1]" by (simp add: serving_row_def)
  ultimately show ?thesis
    using Q s(1) q'(1) get by (intro exI [of _ Q] exI [of _ cl'] exI [of _ s] exI [of _ Q'] conjI) auto
qed

end
