(* ===== verification/RandomAccess.thy ===== *)
theory RandomAccess
  imports MultiPassQueue SinglePass
begin

text \<open>
  Reading rows by their keys (\<^verbatim>\<open>MultiPassQueue::GetMultipleRows\<close>): what the caller gets when the rows do
  not fit into the memory it asked for.
\<close>

section \<open>The bytes of rows\<close>

definition rows_bytes :: "RowSchema \<Rightarrow> row list \<Rightarrow> nat" where
  "rows_bytes cs rs = fields_bytes (concat (fields_of_rows cs rs))"

lemma chunk_holds_bytes:
  assumes "chunk_holds cs rs ch"
  shows "unat (consumed_size ch) = rows_bytes cs rs" "rows_bytes cs rs \<le> unat (m_size ch)"
proof -
  obtain w where w: "holds (fields_of_rows cs rs) w" "sc_chunk (w_sc w) = ch"
    using assms by (auto simp: chunk_holds_def)
  then have h: "writer_ok w" "off_of w + var_of w = rows_bytes cs rs"
    by (simp_all add: holds_def rows_bytes_def fields_bytes_eq)
  with w(2) consumed_free [OF h(1)] writer_ok_bounds(1,2) [OF h(1)]
  show "unat (consumed_size ch) = rows_bytes cs rs" "rows_bytes cs rs \<le> unat (m_size ch)"
    by (simp_all add: writer_ok_def)
qed

section \<open>The contract\<close>

text \<open>C28. Rows read by their keys: when the query of \<^verbatim>\<open>GetMultipleRows\<close> delivers the rows \<open>rs\<close>, the caller gets a chunk
  with the first of them, as many as fit into the memory it asked for, and no error, also when rows
  are left out. When the very first row does not fit, the exception of the chunk writer is not the
  one the function catches and leaves it. Every row has values of its columns' types, and a chunk holds its rows in the
  layout of the schema: a reader gets their values, except from a chunk whose first variable-length value is null
  or empty.
\<close>

theorem multiple_rows_cut:
  assumes "thread_connection my h1 h2 p threadId Q = Inr (Inr c)" "cq_row_schema Q = Some cs"
    and "alloc sz = Some ptr" "length ptr = unat sz"
    and "Prepare my (MakeRowIdFilterQuery (cq_result_table Q)
           (if cq_read_type Q = ReadTypeOriginalTable then cq_query Q else '''') (cq_key_column Q) p rowIds) True True c =
         (Inr True, c1)"
    and "delivers my rs None c1" "rs \<noteq> []" "rows_ok cs rs" "length rs < 2 ^ 64"
  shows "if too_large sz cs (hd rs)
    then \<exists>msg Q'. multi_GetMultipleRows my h1 h2 alloc sz p rowIds threadId Q = Some (Inl (InvalidArgument msg), Q')
    else \<exists>n ch Q'. multi_GetMultipleRows my h1 h2 alloc sz p rowIds threadId Q = Some (Inr (Some ch, 0, ''''), Q') \<and>
      0 < n \<and> n \<le> length rs \<and> chunk_holds cs (take n rs) ch \<and> rows_bytes cs (take n rs) \<le> unat sz \<and>
      (n < length rs \<longrightarrow> unat sz < rows_bytes cs (take n rs) + row_reserve cs (snd (rs ! n)))"
proof -
  let ?chunk = "NewChunk ptr sz 0 p"
  have f: "fresh ?chunk" "m_size ?chunk = sz" using assms(4) by (simp_all add: fresh_def NewChunk_def)
  have has: "c_last_fetched_row c1 \<noteq> None" "c_last_fetched_lengths c1 \<noteq> None"
    using assms(6,7) by (auto simp: neq_Nil_conv elim: delivers_ConsE)
  have get: "multi_GetMultipleRows my h1 h2 alloc sz p rowIds threadId Q =
      map_option (row_answer threadId Q) (NextChunk my ?chunk cs c1)"
    using assms(1-3,5) has by (auto simp: multi_GetMultipleRows_def GetMultipleRows_def NextChunk_def Let_def)
  show ?thesis
  proof (cases "too_large sz cs (hd rs)")
    case True
    with NextChunk_large [OF assms(6) f(1) assms(8,7)] f(2) show ?thesis by (simp add: get row_answer_def)
  next
    case False
    then have easy: "rs \<noteq> [] \<longrightarrow> \<not> too_large (m_size ?chunk) cs (hd rs)" using f(2) by simp
    obtain n ch d where n: "n \<le> length rs" "rs \<noteq> [] \<longrightarrow> 0 < n" "chunk_holds cs (take n rs) ch"
      "n < length rs \<longrightarrow> no_room cs (rs ! n) ch" "m_size ch = m_size ?chunk"
      and d: "if n = length rs \<and> None \<noteq> (None :: fault option) then NextChunk my ?chunk cs c1 = Some (Inl (the None), d)
        else NextChunk my ?chunk cs c1 = Some (Inr ch, d) \<and> delivers my (drop n rs) None d"
      by (rule NextChunk_fits [OF assms(6) f(1) assms(8,9) easy])
    from chunk_holds_bytes [OF n(3)] n(4,5) have "rows_bytes cs (take n rs) \<le> unat sz"
      "n < length rs \<longrightarrow> unat sz < rows_bytes cs (take n rs) + row_reserve cs (snd (rs ! n))"
      using f(2) by (simp_all add: no_room_def)
    with False n(1-3) d assms(7) show ?thesis by (auto simp: get row_answer_def)
  qed
qed


section \<open>An example\<close>

text \<open>Two rows of eight bytes each, into eight bytes and into four.\<close>

definition example_random :: "text_row list list MultiPassQueue" where
  "example_random = example_multi_pass\<lparr>cq_row_schema := Some example_schema,
     mp_consumers := [Some (serving_connection [[], [[]]])], mp_consumer_threads_num := Some 1\<rparr>"

theorem multiple_rows_cut_witness:
  "(\<exists>ch Q'. multi_GetMultipleRows serving_mysql None None (\<lambda>n. Some (replicate (unat n) 0)) 8 0 [1, 2] 0 example_random =
      Some (Inr (Some ch, 0, ''''), Q') \<and> chunk_holds example_schema [demo_row 0] ch) \<and>
   (\<exists>msg Q'. multi_GetMultipleRows serving_mysql None None (\<lambda>n. Some (replicate (unat n) 0)) 4 0 [1, 2] 0 example_random =
      Some (Inl (InvalidArgument msg), Q'))"
proof -
  let ?rs = "map serving_row [[], [[]]]" and ?c = "serving_connection [[], [[]]]"
  have rs: "?rs = [demo_row 0, demo_row 1]" by (simp add: serving_row_def)
  have t: "thread_connection serving_mysql None None 0 0 example_random = Inr (Inr ?c)"
    "cq_row_schema example_random = Some example_schema"
    by (simp_all add: thread_connection_def example_random_def)
  have p: "Prepare serving_mysql q True True ?c = (Inr True, serving_at [[], [[]]])" for q by (rule serving_Prepare)
  have d: "delivers serving_mysql ?rs None (serving_at [[], [[]]])" by (rule serving_delivers)
  have "rows_fit_in 16 example_schema ?rs"
    using demo_rows_fit_in [of 16 "[0, 1]"] unfolding rs by (simp add: example_schema_def demo_schema_def)
  then have ok: "rows_ok example_schema ?rs" by (simp add: rows_fit_in_def)
  have big: "too_large sz example_schema (serving_row []) \<longleftrightarrow> unat sz < 8" for sz
    by (simp add: serving_row_def too_large_def example_schema_def demo_row_def reserve_def)
  have two: "rows_bytes example_schema ?rs = 16"
    unfolding rs by (simp add: rows_bytes_def fields_of_rows_def fields_bytes_def field_bytes_def example_schema_def demo_row_def)
  let ?al = "\<lambda>n. Some (replicate (unat n) 0)"
  note cut = multiple_rows_cut [OF t _ _ p d _ ok, where alloc = ?al]
  obtain n ch Q' where g: "multi_GetMultipleRows serving_mysql None None ?al 8 0 [1, 2] 0 example_random =
      Some (Inr (Some ch, 0, ''''), Q')" "0 < n" "n \<le> length ?rs" "chunk_holds example_schema (take n ?rs) ch"
    "rows_bytes example_schema (take n ?rs) \<le> unat (8 :: u64)"
    using cut [of 8 "replicate 8 0" "[1, 2]"] by (auto simp: big)
  have "n \<noteq> 2" using g(5) two by auto
  then have "n = 1" using g(2,3) by simp
  moreover obtain msg Q'' where "multi_GetMultipleRows serving_mysql None None ?al 4 0 [1, 2] 0 example_random =
      Some (Inl (InvalidArgument msg), Q'')"
    using cut [of 4 "replicate 4 0" "[1, 2]"] by (auto simp: big)
  ultimately show ?thesis using g(1,4) by (auto simp: serving_row_def)
qed

end
