(* ===== verification/Memory.thy ===== *)
theory Memory
  imports TableReader
begin

text \<open>
  The memory the library hands to its callers, and how it is given back: the schema of a result
  (\<^verbatim>\<open>S2Connection::GetRowSchema\<close>, \<^verbatim>\<open>RowSchemaFree\<close>) and the chunks of a read (\<^verbatim>\<open>ResultTableReader::Read\<close>,
  \<^verbatim>\<open>MoveChunk\<close>, \<^verbatim>\<open>ChunkFree\<close>). The other theories have the values of schemas and chunks; here they are
  objects of a heap that point to each other, and the theorems relate the two.
\<close>

section \<open>The heap\<close>

text \<open>
  An address is a number, and an address is never used twice, so that a dangling pointer stays one.
  Blocks remember how they were allocated: returning one in another way, or one that is not there, is
  undefined behaviour. \<^verbatim>\<open>new\<close> and \<^verbatim>\<open>strndup\<close> are taken to succeed.
\<close>

type_synonym addr = nat

record column_cell =
  cc_type :: ColumnType
  cc_size :: i64
  cc_name :: "addr option"

record chunk_cell =
  k_ptr :: "addr option"
  k_size :: u64
  k_row_count :: u64
  k_consumed_size :: u64
  k_variable_offset :: u64
  k_id :: u64
  k_partition_id :: u32

datatype block =
    Bytes "u8 list"
  | CString string
  | ColumnArray "column_cell list"
  | SchemaObject "addr option" nat
  | ChunkObject chunk_cell

record heap =
  blocks :: "addr \<rightharpoonup> block"
  next_addr :: addr

definition heap_ok :: "heap \<Rightarrow> bool" where
  "heap_ok h \<longleftrightarrow> (\<forall>a \<ge> next_addr h. blocks h a = None)"

definition allocate :: "block \<Rightarrow> (heap, addr) act" where
  "allocate b h = (Inr (next_addr h), h\<lparr>blocks := (blocks h)(next_addr h \<mapsto> b), next_addr := Suc (next_addr h)\<rparr>)"

definition release :: "(block \<Rightarrow> bool) \<Rightarrow> addr option \<Rightarrow> (heap, unit) act" where
  "release kind p h =
     (case p of
        None \<Rightarrow> (Inr (), h)
      | Some a \<Rightarrow>
          (case blocks h a of
             None \<Rightarrow> (Inl UndefinedBehaviour, h)
           | Some b \<Rightarrow> if kind b then (Inr (), h\<lparr>blocks := (blocks h)(a := None)\<rparr>) else (Inl UndefinedBehaviour, h)))"

fun malloced :: "block \<Rightarrow> bool" where
  "malloced (Bytes _) = True"
| "malloced (CString _) = True"
| "malloced _ = False"

fun is_columns :: "block \<Rightarrow> bool" where
  "is_columns (ColumnArray _) = True"
| "is_columns _ = False"

fun is_schema :: "block \<Rightarrow> bool" where
  "is_schema (SchemaObject _ _) = True"
| "is_schema _ = False"

fun is_chunk :: "block \<Rightarrow> bool" where
  "is_chunk (ChunkObject _) = True"
| "is_chunk _ = False"

definition c_free :: "addr option \<Rightarrow> (heap, unit) act" where "c_free = release malloced"

text \<open>Access to the members of an object.\<close>

definition load_schema :: "addr \<Rightarrow> (heap, addr option \<times> nat) act" where
  "load_schema a h = (case blocks h a of Some (SchemaObject info n) \<Rightarrow> (Inr (info, n), h) | _ \<Rightarrow> (Inl UndefinedBehaviour, h))"

definition load_column :: "addr option \<Rightarrow> nat \<Rightarrow> (heap, column_cell) act" where
  "load_column info i h =
     (case Option.bind info (blocks h) of
        Some (ColumnArray cells) \<Rightarrow> if i < length cells then (Inr (cells ! i), h) else (Inl UndefinedBehaviour, h)
      | _ \<Rightarrow> (Inl UndefinedBehaviour, h))"

definition store_column :: "addr option \<Rightarrow> nat \<Rightarrow> column_cell \<Rightarrow> (heap, unit) act" where
  "store_column info i c h =
     (case (info, Option.bind info (blocks h)) of
        (Some a, Some (ColumnArray cells)) \<Rightarrow>
          if i < length cells then (Inr (), h\<lparr>blocks := (blocks h)(a \<mapsto> ColumnArray (cells[i := c]))\<rparr>)
          else (Inl UndefinedBehaviour, h)
      | _ \<Rightarrow> (Inl UndefinedBehaviour, h))"

definition load_chunk :: "addr \<Rightarrow> (heap, chunk_cell) act" where
  "load_chunk a h = (case blocks h a of Some (ChunkObject k) \<Rightarrow> (Inr k, h) | _ \<Rightarrow> (Inl UndefinedBehaviour, h))"

lemma release_Some:
  "blocks h a = Some b \<Longrightarrow> kind b \<Longrightarrow> release kind (Some a) h = (Inr (), h\<lparr>blocks := (blocks h)(a := None)\<rparr>)"
  by (simp add: release_def)

lemma heap_ok_new [simp]: "heap_ok h \<Longrightarrow> blocks h (next_addr h) = None"
  by (simp add: heap_ok_def)

section \<open>Row schemas\<close>

text \<open>
  The part of \<^verbatim>\<open>GetRowSchema\<close> that allocates: the array of columns, filled with zeros, the schema, and
  the names, which \<^verbatim>\<open>FieldsToRowSchema\<close> copies one by one. \<open>field_cell\<close> is its \<^verbatim>\<open>switch\<close>.
\<close>

definition zero_cell :: column_cell where
  "zero_cell = \<lparr>cc_type = Int64, cc_size = 0, cc_name = None\<rparr>"

definition field_cell :: "MYSQL_FIELD \<Rightarrow> column_cell \<Rightarrow> column_cell" where
  "field_cell f c =
     (let col = field_type f \<lparr>col_type = cc_type c, col_size = cc_size c, col_name = ''''\<rparr>
      in c\<lparr>cc_type := col_type col, cc_size := col_size col\<rparr>)"

fun FieldsToRowSchema_mem :: "MYSQL_FIELD list \<Rightarrow> bool \<Rightarrow> addr option \<Rightarrow> nat \<Rightarrow> (heap, unit) act" where
  "FieldsToRowSchema_mem [] useOriginalName info i = give ()"
| "FieldsToRowSchema_mem (f # fs) useOriginalName info i =
     andThen (allocate (CString
       (if useOriginalName then strndup (fld_org_name f) (length (fld_org_name f))
        else strndup (fld_name f) (length (fld_name f))))) (\<lambda>name.
     andThen (load_column info i) (\<lambda>c.
     andThen (store_column info i (field_cell f (c\<lparr>cc_name := Some name\<rparr>))) (\<lambda>_.
     FieldsToRowSchema_mem fs useOriginalName info (Suc i))))"

definition GetRowSchema_mem :: "MYSQL_FIELD list \<Rightarrow> bool \<Rightarrow> (heap, addr) act" where
  "GetRowSchema_mem flds useOriginalName =
     andThen (allocate (ColumnArray (replicate (length flds) zero_cell))) (\<lambda>column_info.
     andThen (allocate (SchemaObject (Some column_info) (length flds))) (\<lambda>row_schema.
     andThen (FieldsToRowSchema_mem flds useOriginalName (Some column_info) 0) (\<lambda>_.
     give row_schema)))"

definition RowSchemaFree :: "addr option \<Rightarrow> (heap, unit) act" where
  "RowSchemaFree schema =
     (case schema of
        None \<Rightarrow> give ()
      | Some a \<Rightarrow>
          andThen (load_schema a) (\<lambda>(info, n).
          andThen (for_each (\<lambda>i. andThen (load_column info i) (\<lambda>c. c_free (cc_name c))) [0..<n]) (\<lambda>_.
          andThen (release is_columns info) (\<lambda>_.
          release is_schema schema))))"

text \<open>The names the cells point to, and what it means that the heap holds a schema at \<open>a\<close>: it owns the
  blocks \<open>own\<close>.\<close>

definition name_ptrs :: "column_cell list \<Rightarrow> addr list" where
  "name_ptrs cells = List.map_filter cc_name cells"

lemma name_ptrs_simps [simp]:
  "name_ptrs [] = []"
  "name_ptrs (c # cs) = (case cc_name c of None \<Rightarrow> name_ptrs cs | Some p \<Rightarrow> p # name_ptrs cs)"
  by (simp_all add: name_ptrs_def List.map_filter_def split: option.splits)

definition column_in :: "heap \<Rightarrow> column_cell \<Rightarrow> Column \<Rightarrow> bool" where
  "column_in h c col \<longleftrightarrow> cc_type c = col_type col \<and> cc_size c = col_size col \<and>
     (case cc_name c of None \<Rightarrow> col_name col = '''' | Some p \<Rightarrow> blocks h p = Some (CString (col_name col)))"

definition schema_in :: "heap \<Rightarrow> addr \<Rightarrow> RowSchema \<Rightarrow> addr set \<Rightarrow> bool" where
  "schema_in h a cols own \<longleftrightarrow>
     (\<exists>info cells. blocks h a = Some (SchemaObject (Some info) (length cells)) \<and> blocks h info = Some (ColumnArray cells) \<and>
        distinct (name_ptrs cells) \<and> list_all2 (column_in h) cells cols \<and> own = {a, info} \<union> set (name_ptrs cells))"

lemma free_names:
  assumes "blocks h info = Some (ColumnArray (cs1 @ cs2))" "distinct (name_ptrs cs2)"
    and "\<forall>p \<in> set (name_ptrs cs2). \<exists>s. blocks h p = Some (CString s)"
  shows "for_each (\<lambda>i. andThen (load_column (Some info) i) (\<lambda>c. c_free (cc_name c))) [length cs1..<length cs1 + length cs2] h =
    (Inr (), h\<lparr>blocks := blocks h |` (- set (name_ptrs cs2))\<rparr>)"
  using assms
proof (induction cs2 arbitrary: cs1 h)
  case Nil
  then show ?case by (simp add: act_simps)
next
  case (Cons c cs2)
  define h1 where "h1 = h\<lparr>blocks := blocks h |` (- set_option (cc_name c))\<rparr>"
  have upt: "[length cs1..<length cs1 + length (c # cs2)] = length cs1 # [length (cs1 @ [c])..<length (cs1 @ [c]) + length cs2]"
    by (simp add: upt_conv_Cons del: upt_Suc)
  have step: "andThen (load_column (Some info) (length cs1)) (\<lambda>c. c_free (cc_name c)) h = (Inr (), h1)"
    using Cons.prems
    by (cases "cc_name c")
       (auto simp: act_simps load_column_def c_free_def release_def h1_def restrict_map_def fun_eq_iff)
  have "for_each (\<lambda>i. andThen (load_column (Some info) i) (\<lambda>c. c_free (cc_name c)))
      [length (cs1 @ [c])..<length (cs1 @ [c]) + length cs2] h1 =
    (Inr (), h1\<lparr>blocks := blocks h1 |` (- set (name_ptrs cs2))\<rparr>)"
    using Cons.prems by (intro Cons.IH) (auto simp: h1_def restrict_map_def split: option.splits)
  moreover have "h1\<lparr>blocks := blocks h1 |` (- set (name_ptrs cs2))\<rparr> = h\<lparr>blocks := blocks h |` (- set (name_ptrs (c # cs2)))\<rparr>"
    by (auto simp: h1_def restrict_map_def fun_eq_iff split: option.splits)
  ultimately show ?case unfolding upt for_each.simps using step by (simp add: andThen_def)
qed

lemma names_in:
  assumes "list_all2 (column_in h) cells cols" "p \<in> set (name_ptrs cells)"
  shows "\<exists>s. blocks h p = Some (CString s)"
  using assms by (induction rule: list_all2_induct) (auto simp: column_in_def split: option.splits)

text \<open>\<^verbatim>\<open>RowSchemaFree\<close> returns exactly the blocks the schema owns; after that its pointer dangles.\<close>

lemma RowSchemaFree_frees:
  assumes "schema_in h a cols own"
  shows "RowSchemaFree (Some a) h = (Inr (), h\<lparr>blocks := blocks h |` (- own)\<rparr>)"
proof -
  obtain info cells where s: "blocks h a = Some (SchemaObject (Some info) (length cells))" "blocks h info = Some (ColumnArray cells)"
    "distinct (name_ptrs cells)" "list_all2 (column_in h) cells cols" "own = {a, info} \<union> set (name_ptrs cells)"
    using assms by (auto simp: schema_in_def)
  note names = names_in [OF s(4)]
  have "a \<notin> set (name_ptrs cells)" "info \<notin> set (name_ptrs cells)" "a \<noteq> info"
    using names [of a] names [of info] s(1,2) by auto
  with s(1,2,5) free_names [of h info "[]" cells] s(3) names show ?thesis
    by (auto simp: RowSchemaFree_def act_simps load_schema_def release_def restrict_map_def fun_eq_iff)
qed

lemma field_cell_column:
  "cc_type (field_cell f c) = col_type (field_type f \<lparr>col_type = cc_type c, col_size = cc_size c, col_name = s\<rparr>)"
  "cc_size (field_cell f c) = col_size (field_type f \<lparr>col_type = cc_type c, col_size = cc_size c, col_name = s\<rparr>)"
  "cc_name (field_cell f c) = cc_name c" "col_name (field_type f col) = col_name col"
  by (simp_all add: field_cell_def field_type_def Let_def split: enum_field_types.splits)

abbreviation zero_column :: Column where
  "zero_column \<equiv> \<lparr>col_type = Int64, col_size = 0, col_name = ''''\<rparr>"

lemma FieldsToRowSchema_mem_fills:
  assumes "heap_ok h" "blocks h info = Some (ColumnArray (cs1 @ replicate (length fs) zero_cell))"
  shows "\<exists>h' cells cols. FieldsToRowSchema_mem fs u (Some info) (length cs1) h = (Inr (), h') \<and>
    FieldsToRowSchema fs u (replicate (length fs) zero_column) = Inr cols \<and> heap_ok h' \<and>
    next_addr h \<le> next_addr h' \<and> length cells = length fs \<and>
    blocks h' info = Some (ColumnArray (cs1 @ cells)) \<and> list_all2 (column_in h') cells cols \<and>
    distinct (name_ptrs cells) \<and> (\<forall>p \<in> set (name_ptrs cells). next_addr h \<le> p) \<and>
    (\<forall>x. x \<noteq> info \<and> x \<notin> set (name_ptrs cells) \<longrightarrow> blocks h' x = blocks h x)"
  using assms
proof (induction fs arbitrary: h cs1)
  case Nil
  then show ?case by (auto simp: act_simps)
next
  case (Cons f fs)
  define s where "s = (if u then strndup (fld_org_name f) (length (fld_org_name f)) else strndup (fld_name f) (length (fld_name f)))"
  define p where "p = next_addr h"
  define cell where "cell = field_cell f (zero_cell\<lparr>cc_name := Some p\<rparr>)"
  define h2 where "h2 = h\<lparr>next_addr := Suc p,
    blocks := (blocks h)(p \<mapsto> CString s, info \<mapsto> ColumnArray ((cs1 @ [cell]) @ replicate (length fs) zero_cell))\<rparr>"
  have less: "info < p" using Cons.prems by (auto simp: heap_ok_def p_def not_less [symmetric])
  have run: "FieldsToRowSchema_mem (f # fs) u (Some info) (length cs1) h =
      FieldsToRowSchema_mem fs u (Some info) (length (cs1 @ [cell])) h2"
    using Cons.prems less
    by (simp add: act_simps allocate_def load_column_def store_column_def h2_def cell_def p_def s_def
        nth_append list_update_append)
  have ok: "heap_ok h2" using Cons.prems(1) less by (auto simp: heap_ok_def h2_def p_def)
  have "blocks h2 info = Some (ColumnArray ((cs1 @ [cell]) @ replicate (length fs) zero_cell))" by (simp add: h2_def)
  from Cons.IH [OF ok this] obtain h' cells cols where ih:
    "FieldsToRowSchema_mem fs u (Some info) (length (cs1 @ [cell])) h2 = (Inr (), h')"
    "FieldsToRowSchema fs u (replicate (length fs) zero_column) = Inr cols" "heap_ok h'"
    "next_addr h2 \<le> next_addr h'" "length cells = length fs"
    "blocks h' info = Some (ColumnArray ((cs1 @ [cell]) @ cells))" "list_all2 (column_in h') cells cols"
    "distinct (name_ptrs cells)" "\<forall>p \<in> set (name_ptrs cells). next_addr h2 \<le> p"
    "\<forall>x. x \<noteq> info \<and> x \<notin> set (name_ptrs cells) \<longrightarrow> blocks h' x = blocks h2 x"
    by blast
  have name: "cc_name cell = Some p" "p \<notin> set (name_ptrs cells)"
    using ih(9) by (auto simp: cell_def field_cell_column h2_def)
  then have "blocks h' p = Some (CString s)" using ih(10) less by (simp add: h2_def)
  then have "column_in h' cell (field_type f (zero_column\<lparr>col_name := s\<rparr>))"
    using name(1) by (simp add: column_in_def cell_def field_cell_column(1,2) [where s = s] field_cell_column(3,4) zero_cell_def)
  moreover have "FieldsToRowSchema (f # fs) u (replicate (length (f # fs)) zero_column) =
      Inr (field_type f (zero_column\<lparr>col_name := s\<rparr>) # cols)"
    using ih(2) by (simp add: s_def)
  moreover have "\<forall>x. x \<noteq> info \<and> x \<notin> set (name_ptrs (cell # cells)) \<longrightarrow> blocks h' x = blocks h x"
    using ih(10) name by (simp add: h2_def)
  moreover have "\<forall>x \<in> set (name_ptrs (cell # cells)). next_addr h \<le> x"
    using ih(9) name by (auto simp: h2_def p_def intro: Suc_leD)
  ultimately show ?case
    unfolding run using ih name
    by (intro exI [of _ h'] exI [of _ "cell # cells"] exI [of _ "field_type f (zero_column\<lparr>col_name := s\<rparr>) # cols"] conjI)
      (simp_all add: h2_def p_def)
qed

text \<open>C30. A schema and its memory: on any heap, \<^verbatim>\<open>GetRowSchema\<close> builds the schema \<open>FieldsToRowSchema\<close> describes out
  of blocks of its own, \<^verbatim>\<open>RowSchemaFree\<close> returns exactly these blocks, so that the heap is what it was
  before, and to free the same schema again is undefined behaviour: the assignment of \<^verbatim>\<open>nullptr\<close> at its
  end changes only the function's own copy of the pointer.
\<close>

theorem schema_freed_exactly:
  assumes "heap_ok h"
  shows "\<exists>a h1 cols own h2. GetRowSchema_mem flds u h = (Inr a, h1) \<and>
    FieldsToRowSchema flds u (replicate (length flds) zero_column) = Inr cols \<and>
    schema_in h1 a cols own \<and> own \<inter> dom (blocks h) = {} \<and>
    RowSchemaFree (Some a) h1 = (Inr (), h2) \<and> blocks h2 = blocks h \<and>
    fst (RowSchemaFree (Some a) h2) = Inl UndefinedBehaviour"
proof -
  define info where "info = next_addr h"
  define h0 where "h0 = h\<lparr>blocks := (blocks h)(info \<mapsto> ColumnArray (replicate (length flds) zero_cell),
    Suc info \<mapsto> SchemaObject (Some info) (length flds)), next_addr := Suc (Suc info)\<rparr>"
  have ok: "heap_ok h0" using assms by (auto simp: heap_ok_def h0_def info_def)
  have "blocks h0 info = Some (ColumnArray ([] @ replicate (length flds) zero_cell))" by (simp add: h0_def)
  from FieldsToRowSchema_mem_fills [OF ok this, of u] obtain h1 cells cols where fill:
    "FieldsToRowSchema_mem flds u (Some info) 0 h0 = (Inr (), h1)"
    "FieldsToRowSchema flds u (replicate (length flds) zero_column) = Inr cols" "length cells = length flds"
    "blocks h1 info = Some (ColumnArray cells)" "list_all2 (column_in h1) cells cols" "distinct (name_ptrs cells)"
    "\<forall>p \<in> set (name_ptrs cells). next_addr h0 \<le> p"
    "\<forall>x. x \<noteq> info \<and> x \<notin> set (name_ptrs cells) \<longrightarrow> blocks h1 x = blocks h0 x"
    by auto
  let ?own = "{Suc info, info} \<union> set (name_ptrs cells)"
  have run: "GetRowSchema_mem flds u h = (Inr (Suc info), h1)"
    using fill(1) by (simp add: GetRowSchema_mem_def act_simps allocate_def info_def h0_def)
  have "Suc info \<notin> set (name_ptrs cells)" using fill(7) by (auto simp: h0_def)
  then have "schema_in h1 (Suc info) cols ?own"
    using fill by (auto simp: schema_in_def h0_def)
  note free = RowSchemaFree_frees [OF this]
  have new: "?own \<inter> dom (blocks h) = {}" using fill(7) assms by (force simp: h0_def info_def heap_ok_def)
  then have "blocks h1 |` (- ?own) = blocks h"
    using fill(8) by (force simp: restrict_map_def fun_eq_iff h0_def)
  moreover have "fst (RowSchemaFree (Some (Suc info)) (h1\<lparr>blocks := blocks h1 |` (- ?own)\<rparr>)) = Inl UndefinedBehaviour"
    by (simp add: RowSchemaFree_def act_simps load_schema_def)
  ultimately show ?thesis using run fill(2) \<open>schema_in h1 (Suc info) cols ?own\<close> new free by fastforce
qed



section \<open>Chunks\<close>

text \<open>
  A chunk is an object that points to its buffer. \<open>alloc_block\<close> is \<^verbatim>\<open>malloc\<close> or \<^verbatim>\<open>new\<close> where neither
  fails, \<open>chunk_cell_of\<close> the object for a chunk value.
\<close>

definition alloc_block :: "block \<Rightarrow> heap \<Rightarrow> addr \<times> heap" where
  "alloc_block b h = (next_addr h, h\<lparr>blocks := (blocks h)(next_addr h \<mapsto> b), next_addr := Suc (next_addr h)\<rparr>)"

definition chunk_cell_of :: "addr \<Rightarrow> Chunk \<Rightarrow> chunk_cell" where
  "chunk_cell_of p ch = \<lparr>k_ptr = Some p, k_size = m_size ch, k_row_count = row_count ch,
     k_consumed_size = consumed_size ch, k_variable_offset = variable_offset ch, k_id = chunk_id ch,
     k_partition_id = partition_id ch\<rparr>"

definition NewChunk_mem :: "addr \<Rightarrow> u64 \<Rightarrow> u64 \<Rightarrow> u32 \<Rightarrow> heap \<Rightarrow> addr \<times> heap" where
  "NewChunk_mem ptr sz cid part = alloc_block (ChunkObject
     \<lparr>k_ptr = Some ptr, k_size = sz, k_row_count = 0, k_consumed_size = 0, k_variable_offset = 0,
      k_id = cid, k_partition_id = part\<rparr>)"

text \<open>
  The loop of \<^verbatim>\<open>Read\<close> with its memory: the addresses it pushes, how it ends, and the heap. \<^verbatim>\<open>NextChunk\<close>
  writes to the buffer and to the members of the chunk; it allocates and frees nothing of the chunk. What it leaves in the
  buffer when it throws is not of interest and left as it was.
\<close>

definition put_chunk :: "addr \<Rightarrow> addr \<Rightarrow> Chunk \<Rightarrow> heap \<Rightarrow> heap" where
  "put_chunk p a ch h = h\<lparr>blocks := (blocks h)(p \<mapsto> Bytes (m_ptr ch), a \<mapsto> ChunkObject (chunk_cell_of p ch))\<rparr>"

partial_function (option) read_loop_mem ::
  "'m mysql \<Rightarrow> (nat \<Rightarrow> bool) \<Rightarrow> (nat \<Rightarrow> u8 list option) \<Rightarrow> u64 \<Rightarrow> u32 \<Rightarrow> RowSchema \<Rightarrow> nat \<Rightarrow> addr list \<Rightarrow>
   'm S2Connection \<Rightarrow> heap \<Rightarrow> (addr list \<times> (fault + (nat \<times> string) option) \<times> 'm S2Connection \<times> heap) option" where
  "read_loop_mem my stopped alloc sz part schema chunkId done c h =
     (if stopped chunkId \<or> \<not> HasNextRow c then Some (done, Inr None, c, h) else
      case alloc chunkId of
        None \<Rightarrow> Some (done, Inr (Some (S2C_ERROR_MEMORY_ALLOCATION,
                  ''ResultTableReader cannot allocate chunk size: '' @ nat_to_string (unat sz))), c, h)
      | Some bytes \<Rightarrow>
          let (ptr, h1) = alloc_block (Bytes bytes) h;
              (chunk, h2) = NewChunk_mem ptr sz (of_nat chunkId) part h1
          in case NextChunk my (NewChunk bytes sz (of_nat chunkId) part) schema c of
            None \<Rightarrow> None
          | Some (Inl e, c') \<Rightarrow> Some (done, caught e, c', h2)
          | Some (Inr ch, c') \<Rightarrow>
              let h3 = put_chunk ptr chunk ch h2 in
              if row_count ch = 0 then
                (case andThen (c_free (Some ptr)) (\<lambda>_. release is_chunk (Some chunk)) h3 of
                   (Inl e, h4) \<Rightarrow> Some (done, Inl e, c', h4)
                 | (Inr _, h4) \<Rightarrow> Some (done, Inr None, c', h4))
              else if 2 ^ 31 \<le> Suc chunkId then Some (done @ [chunk], Inl UndefinedBehaviour, c', h3)
              else read_loop_mem my stopped alloc sz part schema (Suc chunkId) (done @ [chunk]) c' h3)"

text \<open>
  What becomes of a chunk that was pushed. \<^verbatim>\<open>GetNextChunk\<close> moves it into the chunk of the caller, who gives
  the buffer back with \<^verbatim>\<open>ChunkFree\<close>; the destructor of a queue frees the buffer and deletes the object.
\<close>

definition MoveChunk_mem :: "chunk_cell \<Rightarrow> addr \<Rightarrow> (heap, chunk_cell) act" where
  "MoveChunk_mem out inp =
     andThen (load_chunk inp) (\<lambda>k.
     andThen (release is_chunk (Some inp)) (\<lambda>_.
     give (out\<lparr>k_ptr := k_ptr k, k_size := k_size k, k_row_count := k_row_count k, k_id := k_id k,
       k_partition_id := k_partition_id k, k_consumed_size := k_consumed_size k\<rparr>)))"

definition ChunkFree :: "chunk_cell option \<Rightarrow> (heap, unit) act" where
  "ChunkFree chunk = (case chunk of None \<Rightarrow> give () | Some k \<Rightarrow> c_free (k_ptr k))"

definition drop_chunk :: "addr \<Rightarrow> (heap, unit) act" where
  "drop_chunk a = andThen (load_chunk a) (\<lambda>k. andThen (ChunkFree (Some k)) (\<lambda>_. release is_chunk (Some a)))"

definition dispose :: "chunk_cell option \<times> addr \<Rightarrow> (heap, unit) act" where
  "dispose d =
     (case d of
        (None, a) \<Rightarrow> drop_chunk a
      | (Some out, a) \<Rightarrow> andThen (MoveChunk_mem out a) (\<lambda>k. ChunkFree (Some k)))"

text \<open>
  The heap holds the chunk \<open>ch\<close> at \<open>a\<close>, with its buffer at \<open>p\<close>. \<open>chunks_in h0 h as chs lost\<close>: what \<open>h\<close> has more
  than \<open>h0\<close> are the chunks \<open>chs\<close> at the addresses \<open>as\<close> and the blocks \<open>lost\<close>.
\<close>

definition chunk_in :: "heap \<Rightarrow> addr \<Rightarrow> addr \<Rightarrow> Chunk \<Rightarrow> bool" where
  "chunk_in h a p ch \<longleftrightarrow> blocks h a = Some (ChunkObject (chunk_cell_of p ch)) \<and> blocks h p = Some (Bytes (m_ptr ch))"

definition chunks_in :: "heap \<Rightarrow> heap \<Rightarrow> addr list \<Rightarrow> addr list \<Rightarrow> Chunk list \<Rightarrow> addr set \<Rightarrow> bool" where
  "chunks_in h0 h as ps chs lost \<longleftrightarrow> heap_ok h \<and> next_addr h0 \<le> next_addr h \<and>
     length as = length chs \<and> length ps = length chs \<and> distinct (as @ ps) \<and> lost \<inter> set (as @ ps) = {} \<and>
     (\<forall>i < length chs. chunk_in h (as ! i) (ps ! i) (chs ! i)) \<and>
     (\<forall>x \<in> set (as @ ps) \<union> lost. next_addr h0 \<le> x) \<and> lost \<subseteq> dom (blocks h) \<and>
     (\<forall>x. x \<notin> set (as @ ps) \<union> lost \<longrightarrow> blocks h x = blocks h0 x)"

lemma chunks_in_fresh:
  assumes "chunks_in h0 h as ps chs lost" "next_addr h \<le> x"
  shows "x \<notin> set (as @ ps) \<union> lost" "blocks h0 x = None"
proof -
  have none: "blocks h x = None" using assms by (simp add: chunks_in_def heap_ok_def)
  have "x \<noteq> as ! i" "x \<noteq> ps ! i" if "i < length chs" for i
  proof -
    have "chunk_in h (as ! i) (ps ! i) (chs ! i)" using assms(1) that by (simp add: chunks_in_def)
    then have "blocks h (as ! i) \<noteq> None" "blocks h (ps ! i) \<noteq> None" by (simp_all add: chunk_in_def)
    with none show "x \<noteq> as ! i" "x \<noteq> ps ! i" by metis+
  qed
  moreover have "x \<notin> lost" using assms(1) none by (auto simp: chunks_in_def)
  ultimately show "x \<notin> set (as @ ps) \<union> lost" using assms(1) by (auto simp: chunks_in_def in_set_conv_nth)
  with assms(1) none show "blocks h0 x = None" by (auto simp: chunks_in_def)
qed

lemma chunks_in_same:
  assumes "chunks_in h0 h as ps chs lost" "\<forall>x. x < next_addr h \<longrightarrow> blocks h' x = blocks h x" "i < length chs"
  shows "chunk_in h' (as ! i) (ps ! i) (chs ! i)"
proof -
  have "as ! i < next_addr h" "ps ! i < next_addr h"
  proof -
    have "as ! i \<in> set (as @ ps) \<union> lost" "ps ! i \<in> set (as @ ps) \<union> lost"
      using assms(1,3) by (simp_all add: chunks_in_def)
    with chunks_in_fresh(1) [OF assms(1)] show "as ! i < next_addr h" "ps ! i < next_addr h"
      using not_less by blast+
  qed
  moreover have "chunk_in h (as ! i) (ps ! i) (chs ! i)" using assms(1,3) by (simp add: chunks_in_def)
  ultimately show ?thesis using assms(2) by (simp add: chunk_in_def)
qed

text \<open>The three things that can become of the chunk an iteration has made: it is pushed, lost, or freed.\<close>

lemma chunk_pushed:
  assumes "chunks_in h0 h as ps chs {}" "p = next_addr h" "a = Suc p" "next_addr h' = Suc a"
    and "blocks h' = (blocks h)(p \<mapsto> Bytes (m_ptr ch), a \<mapsto> ChunkObject (chunk_cell_of p ch))"
  shows "chunks_in h0 h' (as @ [a]) (ps @ [p]) (chs @ [ch]) {}"
proof -
  note f = chunks_in_fresh [OF assms(1), of p] chunks_in_fresh [OF assms(1), of a]
  have "chunk_in h' ((as @ [a]) ! i) ((ps @ [p]) ! i) ((chs @ [ch]) ! i)" if "i < length (chs @ [ch])" for i
  proof (cases "i < length chs")
    case True
    then show ?thesis using chunks_in_same [OF assms(1), of h' i] assms by (simp add: chunks_in_def nth_append)
  next
    case False
    then show ?thesis using that assms by (simp add: chunks_in_def nth_append chunk_in_def)
  qed
  then show ?thesis using assms f by (auto simp: chunks_in_def heap_ok_def)
qed

lemma chunk_lost:
  assumes "chunks_in h0 h as ps chs {}" "p = next_addr h" "a = Suc p" "next_addr h' = Suc a"
    and "blocks h' = (blocks h)(p \<mapsto> b, a \<mapsto> b')"
  shows "chunks_in h0 h' as ps chs {p, a}"
proof -
  note f = chunks_in_fresh [OF assms(1), of p] chunks_in_fresh [OF assms(1), of a]
  have "chunk_in h' (as ! i) (ps ! i) (chs ! i)" if "i < length chs" for i
    using chunks_in_same [OF assms(1) _ that, of h'] assms by simp
  then show ?thesis using assms f by (auto simp: chunks_in_def heap_ok_def)
qed

lemma chunk_freed:
  assumes "chunks_in h0 h as ps chs {}" "next_addr h \<le> next_addr h'" "blocks h' = blocks h"
  shows "chunks_in h0 h' as ps chs {}"
  using assms by (auto simp: chunks_in_def heap_ok_def chunk_in_def)

lemma read_loop_mem_refines:
  assumes "read_loop my stopped alloc sz part schema k acc c = Some (chunks, x, c')" "chunks_in h0 h as ps acc {}"
  shows "\<exists>as' ps' h' lost. read_loop_mem my stopped alloc sz part schema k as c h = Some (as', x, c', h') \<and>
    chunks_in h0 h' as' ps' chunks lost \<and> card lost \<in> {0, 2} \<and> (x = Inr None \<longrightarrow> lost = {})"
proof -
  have "\<forall>as ps h. chunks_in h0 h as ps acc {} \<longrightarrow>
      (\<exists>as' ps' h' lost. read_loop_mem my stopped alloc sz part schema k as c h = Some (as', fst (snd r), snd (snd r), h') \<and>
        chunks_in h0 h' as' ps' (fst r) lost \<and> card lost \<in> {0, 2} \<and> (fst (snd r) = Inr None \<longrightarrow> lost = {}))"
    if "read_loop my stopped alloc sz part schema k acc c = Some r"
    for my :: "'a mysql" and stopped alloc sz part schema k acc c r
    using that
  proof (rule read_loop.raw_induct [rotated], goal_cases)
    case (1 f my stopped alloc sz part schema k acc c r)
    show ?case
    proof (intro allI impI)
      fix as ps h assume inv: "chunks_in h0 h as ps acc {}"
      define p where "p = next_addr h"
      let ?run = "read_loop_mem my stopped alloc sz part schema k as c h"
      let ?goal = "\<exists>as' ps' h' lost. ?run = Some (as', fst (snd r), snd (snd r), h') \<and>
        chunks_in h0 h' as' ps' (fst r) lost \<and> card lost \<in> {0, 2} \<and> (fst (snd r) = Inr None \<longrightarrow> lost = {})"
      consider (ends) "stopped k \<or> \<not> HasNextRow c" | (full) "\<not> (stopped k \<or> \<not> HasNextRow c)" "alloc k = None"
        | (memory) bytes where "\<not> (stopped k \<or> \<not> HasNextRow c)" "alloc k = Some bytes"
        by blast
      then show ?goal
      proof cases
        case ends
        with 1(2) inv show ?thesis
          by (intro exI [of _ as] exI [of _ ps] exI [of _ h] exI [of _ "{}"]) (auto simp: read_loop_mem.simps [of my])
      next
        case full
        with 1(2) inv show ?thesis
          by (intro exI [of _ as] exI [of _ ps] exI [of _ h] exI [of _ "{}"]) (auto simp: read_loop_mem.simps [of my])
      next
        case (memory bytes)
        obtain h1 h2 where new: "alloc_block (Bytes bytes) h = (p, h1)"
          "NewChunk_mem p sz (of_nat k) part h1 = (Suc p, h2)" "next_addr h2 = Suc (Suc p)"
          and "\<exists>b'. blocks h2 = (blocks h)(p \<mapsto> Bytes bytes, Suc p \<mapsto> b')"
          by (auto simp: alloc_block_def p_def NewChunk_mem_def)
        note h2 = new(3) this(4)
        obtain y d where n: "NextChunk my (NewChunk bytes sz (of_nat k) part) schema c = Some (y, d)"
          using 1(2) memory by (auto split: option.splits)
        have run: "?run = (case y of Inl e \<Rightarrow> Some (as, caught e, d, h2)
            | Inr ch \<Rightarrow>
              if row_count ch = 0 then
                (case andThen (c_free (Some p)) (\<lambda>_. release is_chunk (Some (Suc p))) (put_chunk p (Suc p) ch h2) of
                   (Inl e, h4) \<Rightarrow> Some (as, Inl e, d, h4)
                 | (Inr _, h4) \<Rightarrow> Some (as, Inr None, d, h4))
              else if 2 ^ 31 \<le> Suc k then Some (as @ [Suc p], Inl UndefinedBehaviour, d, put_chunk p (Suc p) ch h2)
              else read_loop_mem my stopped alloc sz part schema (Suc k) (as @ [Suc p]) d (put_chunk p (Suc p) ch h2))"
          using memory n new
          by (cases y) (simp_all add: read_loop_mem.simps [of my stopped alloc sz part schema k] Let_def)
        show ?thesis
        proof (cases y)
          case (Inl e)
          obtain b' where "blocks h2 = (blocks h)(p \<mapsto> Bytes bytes, Suc p \<mapsto> b')" using h2(2) by blast
          from chunk_lost [OF inv p_def refl h2(1) this] have "chunks_in h0 h2 as ps acc {p, Suc p}" .
          moreover have "r = (acc, caught e, d)" using 1(2) memory n Inl by simp
          moreover have "caught e \<noteq> Inr None" by (simp add: caught_def split: fault.splits)
          ultimately show ?thesis
            using run Inl by (intro exI [of _ as] exI [of _ ps] exI [of _ h2] exI [of _ "{p, Suc p}"]) simp
        next
          case (Inr ch)
          define h3 where "h3 = put_chunk p (Suc p) ch h2"
          have h3: "next_addr h3 = Suc (Suc p)"
            "blocks h3 = (blocks h)(p \<mapsto> Bytes (m_ptr ch), Suc p \<mapsto> ChunkObject (chunk_cell_of p ch))"
            using h2 by (auto simp: h3_def put_chunk_def fun_eq_iff)
          note pushed = chunk_pushed [OF inv p_def refl h3]
          show ?thesis
          proof (cases "row_count ch = 0")
            case True
            have "blocks h p = None" "blocks h (Suc p) = None" using inv by (simp_all add: p_def chunks_in_def heap_ok_def)
            then have "(blocks h3)(p := None, Suc p := None) = blocks h" using h3(2) by (auto simp: fun_eq_iff)
            moreover have "andThen (c_free (Some p)) (\<lambda>_. release is_chunk (Some (Suc p))) h3 =
                (Inr (), h3\<lparr>blocks := (blocks h3)(p := None, Suc p := None)\<rparr>)"
              using h3(2) by (simp add: act_simps c_free_def release_def)
            ultimately obtain h4 where h4: "andThen (c_free (Some p)) (\<lambda>_. release is_chunk (Some (Suc p))) h3 = (Inr (), h4)"
              "next_addr h4 = next_addr h3" "blocks h4 = blocks h"
              by (simp add: that)
            moreover have "r = (acc, Inr None, d)" using 1(2) memory n Inr True by simp
            moreover have "chunks_in h0 h4 as ps acc {}" using h4 h3(1) by (intro chunk_freed [OF inv]) (simp_all add: p_def)
            ultimately show ?thesis
              using run Inr True by (intro exI [of _ as] exI [of _ ps] exI [of _ h4] exI [of _ "{}"]) (simp add: h3_def)
          next
            case False
            show ?thesis
            proof (cases "2 ^ 31 \<le> Suc k")
              case True
              then have "r = (acc @ [ch], Inl UndefinedBehaviour, d)" using 1(2) memory n Inr False by simp
              then show ?thesis using run Inr False True pushed
                by (intro exI [of _ "as @ [Suc p]"] exI [of _ "ps @ [p]"] exI [of _ h3] exI [of _ "{}"]) (simp add: h3_def)
            next
              case small: False
              then have "f my stopped alloc sz part schema (Suc k) (acc @ [ch]) d = Some r"
                using 1(2) memory n Inr False by simp
              from 1(1) [OF this] pushed show ?thesis using run Inr False small by (simp add: h3_def)
            qed
          qed
        qed
      qed
    qed
  qed
  from this [OF assms(1)] assms(2) show ?thesis by simp
qed

lemma dispose_frees:
  assumes "chunk_in h a p ch"
  shows "dispose (out, a) h = (Inr (), h\<lparr>blocks := blocks h |` (- {a, p})\<rparr>)"
proof -
  have "a \<noteq> p" using assms by (auto simp: chunk_in_def)
  moreover from this have "blocks h |` (- {a, p}) = (blocks h)(a := None, p := None)"
    by (auto simp: restrict_map_def fun_eq_iff)
  ultimately show ?thesis using assms
    by (cases out) (simp_all add: dispose_def drop_chunk_def MoveChunk_mem_def ChunkFree_def act_simps load_chunk_def
      release_def c_free_def chunk_in_def chunk_cell_of_def fun_upd_twist)
qed

lemma dispose_all:
  assumes "distinct (map snd ds)" "\<forall>a \<in> snd ` set ds. \<exists>ch. chunk_in h a (buf a) ch" "inj_on buf (snd ` set ds)"
  shows "for_each dispose ds h = (Inr (), h\<lparr>blocks := blocks h |` (- (snd ` set ds \<union> buf ` snd ` set ds))\<rparr>)"
  using assms
proof (induction ds arbitrary: h)
  case Nil
  then show ?case by (simp add: act_simps)
next
  case (Cons d ds)
  obtain out a where d: "d = (out, a)" by (cases d)
  define h1 where "h1 = h\<lparr>blocks := blocks h |` (- {a, buf a})\<rparr>"
  obtain ch where "chunk_in h a (buf a) ch" using Cons.prems(2) d by auto
  note step = dispose_frees [OF this, of out, folded h1_def]
  have "\<exists>ch. chunk_in h1 b (buf b) ch" if b: "b \<in> snd ` set ds" for b
  proof -
    obtain ch' where ch': "chunk_in h b (buf b) ch'" using Cons.prems(2) b by auto
    have "b \<noteq> a" "buf b \<noteq> buf a" using Cons.prems(1,3) d b by (auto simp: inj_on_def)
    moreover have "b \<noteq> buf a" "buf b \<noteq> a"
      using ch' \<open>chunk_in h a (buf a) ch\<close> by (auto simp: chunk_in_def)
    ultimately show ?thesis using ch' by (auto simp: chunk_in_def h1_def)
  qed
  then have "for_each dispose ds h1 = (Inr (), h1\<lparr>blocks := blocks h1 |` (- (snd ` set ds \<union> buf ` snd ` set ds))\<rparr>)"
    using Cons.prems(1,3) by (intro Cons.IH) (auto simp: inj_on_def)
  then show ?case using d step
    by (auto simp: andThen_def h1_def restrict_map_def fun_eq_iff)
qed

definition chunk_at :: "heap \<Rightarrow> addr \<Rightarrow> Chunk option" where
  "chunk_at h a =
     (case blocks h a of
        Some (ChunkObject k) \<Rightarrow>
          (case Option.bind (k_ptr k) (blocks h) of
             Some (Bytes bs) \<Rightarrow> Some \<lparr>m_ptr = bs, m_size = k_size k, row_count = k_row_count k, consumed_size = k_consumed_size k,
               variable_offset = k_variable_offset k, chunk_id = k_id k, partition_id = k_partition_id k\<rparr>
           | _ \<Rightarrow> None)
      | _ \<Rightarrow> None)"

lemma chunk_in_at: "chunk_in h a p ch \<Longrightarrow> chunk_at h a = Some ch"
  by (simp add: chunk_in_def chunk_at_def chunk_cell_of_def)

text \<open>C29. The memory of a read: the reading thread pushes pointers to exactly the chunks the read consists of, and
  when every one of them is disposed of, in any order, each either by the consumer (\<^verbatim>\<open>GetNextChunk\<close>,
  then \<^verbatim>\<open>ChunkFree\<close>) or by the destructor of the queue, nothing is freed twice and the heap is what it was before the
  read. Only when an exception ends the read can more be left: the one chunk it was filling, object and buffer.
\<close>

theorem read_memory_returned:
  assumes "heap_ok h" "read_loop my stopped alloc sz part cs 0 [] c = Some (chunks, x, c')"
  shows "\<exists>as h1. read_loop_mem my stopped alloc sz part cs 0 [] c h = Some (as, x, c', h1) \<and>
    map (chunk_at h1) as = map Some chunks \<and> distinct as \<and>
    (\<forall>ds. distinct (map snd ds) \<and> snd ` set ds = set as \<longrightarrow>
      (\<exists>h2. for_each dispose ds h1 = (Inr (), h2) \<and> (\<forall>a \<in> dom (blocks h). blocks h2 a = blocks h a) \<and>
        card (dom (blocks h2) - dom (blocks h)) \<in> {0, 2} \<and> (x = Inr None \<longrightarrow> blocks h2 = blocks h)))"
proof -
  have "chunks_in h h [] [] [] {}" using assms(1) by (simp add: chunks_in_def)
  from read_loop_mem_refines [OF assms(2) this] obtain as ps h1 lost where
    run: "read_loop_mem my stopped alloc sz part cs 0 [] c h = Some (as, x, c', h1)" and
    inv: "chunks_in h h1 as ps chunks lost" and lost: "card lost \<in> {0, 2}" "x = Inr None \<longrightarrow> lost = {}"
    by blast
  have len: "length as = length chunks" "length ps = length chunks" "distinct as" "distinct ps"
    and new: "set as \<inter> dom (blocks h) = {}" "lost \<inter> dom (blocks h) = {}" "lost \<inter> (set as \<union> set ps) = {}"
      "lost \<subseteq> dom (blocks h1)"
      "\<And>a. a \<in> set as \<union> set ps \<Longrightarrow> blocks h a = None"
      "\<And>a. a \<notin> set as \<union> set ps \<union> lost \<Longrightarrow> blocks h1 a = blocks h a"
    and held: "\<And>i. i < length chunks \<Longrightarrow> chunk_in h1 (as ! i) (ps ! i) (chunks ! i)"
    using inv assms(1) by (auto simp: chunks_in_def heap_ok_def)
  have at: "map (chunk_at h1) as = map Some chunks"
    using len(1) held by (intro nth_equalityI) (auto intro: chunk_in_at)
  define buf where "buf = (\<lambda>a. the (map_of (zip as ps) a))"
  have buf: "buf (as ! i) = ps ! i" if "i < length chunks" for i
    using that len map_of_zip_nth [of as ps i] by (simp add: buf_def)
  then have ps: "map buf as = ps" using len by (intro nth_equalityI) auto
  have inj: "inj_on buf (set as)" "buf ` set as = set ps"
    using len(4) ps [symmetric] by (simp_all add: distinct_map)
  have held': "\<forall>a \<in> set as. \<exists>ch. chunk_in h1 a (buf a) ch"
    using held buf len(1) by (metis in_set_conv_nth)
  have "\<exists>h2. for_each dispose ds h1 = (Inr (), h2) \<and> (\<forall>a \<in> dom (blocks h). blocks h2 a = blocks h a) \<and>
      card (dom (blocks h2) - dom (blocks h)) \<in> {0, 2} \<and> (x = Inr None \<longrightarrow> blocks h2 = blocks h)"
    if ds: "distinct (map snd ds)" "snd ` set ds = set as" for ds
  proof -
    define h2 where "h2 = h1\<lparr>blocks := blocks h1 |` (- (set as \<union> set ps))\<rparr>"
    have "for_each dispose ds h1 = (Inr (), h2)"
      using dispose_all [OF ds(1), of h1 buf] inj held' by (simp add: ds(2) h2_def)
    moreover have "blocks h2 a = (if a \<in> lost then blocks h1 a else blocks h a)" for a
      using new by (auto simp: h2_def restrict_map_def)
    moreover from this have "dom (blocks h2) - dom (blocks h) = lost" using new by (auto simp: dom_def split: if_splits)
    ultimately show ?thesis using lost new(2) by auto
  qed
  with run at len(3) show ?thesis by blast
qed

text \<open>That chunk is left indeed, whenever \<^verbatim>\<open>NextChunk\<close> throws: no handler of \<^verbatim>\<open>Read\<close> knows of it.\<close>

lemma failed_chunk_leaks:
  assumes "\<not> stopped k" "HasNextRow c" "alloc k = Some bytes" "heap_ok h"
    and "NextChunk my (NewChunk bytes sz (of_nat k) part) cs c = Some (Inl e, c')"
  shows "\<exists>h1. read_loop_mem my stopped alloc sz part cs k as c h = Some (as, caught e, c', h1) \<and>
    dom (blocks h1) = dom (blocks h) \<union> {next_addr h, Suc (next_addr h)} \<and>
    dom (blocks h) \<inter> {next_addr h, Suc (next_addr h)} = {}"
  using assms
  by (auto simp: read_loop_mem.simps [of my stopped alloc sz part cs k] alloc_block_def NewChunk_mem_def heap_ok_def)


section \<open>Examples\<close>

definition empty_heap :: heap where
  "empty_heap = \<lparr>blocks = (\<lambda>_. None), next_addr = 0\<rparr>"

lemma empty_heap_ok: "heap_ok empty_heap" "blocks empty_heap = (\<lambda>_. None)"
  by (simp_all add: heap_ok_def empty_heap_def)

definition two_fields :: "MYSQL_FIELD list" where
  "two_fields =
     [\<lparr>fld_name = ''a'', fld_org_name = ''a'', fld_length = 11, fld_type = MYSQL_TYPE_LONG\<rparr>,
      \<lparr>fld_name = ''b'', fld_org_name = ''b'', fld_length = 20, fld_type = MYSQL_TYPE_STRING\<rparr>]"

theorem schema_freed_exactly_witness:
  "\<exists>a h1 own h2. GetRowSchema_mem two_fields False empty_heap = (Inr a, h1) \<and>
    schema_in h1 a [\<lparr>col_type = Int32, col_size = 4, col_name = ''a''\<rparr>, \<lparr>col_type = Fixed, col_size = 20, col_name = ''b''\<rparr>] own \<and>
    RowSchemaFree (Some a) h1 = (Inr (), h2) \<and> blocks h2 = (\<lambda>_. None)"
proof -
  have "FieldsToRowSchema two_fields False (replicate (length two_fields) zero_column) =
      Inr [\<lparr>col_type = Int32, col_size = 4, col_name = ''a''\<rparr>, \<lparr>col_type = Fixed, col_size = 20, col_name = ''b''\<rparr>]"
    by (simp add: two_fields_def field_type_def strndup_def)
  with schema_freed_exactly [OF empty_heap_ok(1), of two_fields False] show ?thesis
    by (auto simp: empty_heap_ok(2))
qed

theorem read_memory_returned_witness:
  "\<exists>as c' h1 chunks h2. read_loop_mem demo_mysql (\<lambda>k. False) (\<lambda>k. Some (replicate (unat (16 :: u64)) 0)) 16 3 demo_schema 0 []
      (demo_at [5, 7, 9]) empty_heap = Some (as, Inr None, c', h1) \<and>
    map (chunk_at h1) as = map Some chunks \<and>
    chunk_sequence demo_schema 3 0 [demo_row 5, demo_row 7, demo_row 9] chunks \<and>
    for_each dispose (map (Pair None) as) h1 = (Inr (), h2) \<and> blocks h2 = (\<lambda>_. None)"
proof -
  let ?rs = "map demo_row [5, 7, 9]"
  obtain chunks m c' where l: "read_loop demo_mysql (\<lambda>k. False) (\<lambda>k. Some (replicate (unat (16 :: u64)) 0)) 16 3 demo_schema 0 []
      (demo_at [5, 7, 9]) = Some (chunks, Inr None, c')" "chunk_sequence demo_schema 3 0 (take m ?rs) chunks" "m = length ?rs"
    using read_loop_undisturbed [OF demo_delivers [of "[5, 7, 9]"] undisturbed_demo [of 16] demo_rows_fit_in [of 16 "[5, 7, 9]"],
      of 0 3 "[]"] by auto
  from read_memory_returned [OF empty_heap_ok(1) l(1)] obtain as h1 where
    r: "read_loop_mem demo_mysql (\<lambda>k. False) (\<lambda>k. Some (replicate (unat (16 :: u64)) 0)) 16 3 demo_schema 0 []
      (demo_at [5, 7, 9]) empty_heap = Some (as, Inr None, c', h1)" "map (chunk_at h1) as = map Some chunks" "distinct as"
    and d: "\<forall>ds. distinct (map snd ds) \<and> snd ` set ds = set as \<longrightarrow>
      (\<exists>h2. for_each dispose ds h1 = (Inr (), h2) \<and> (\<forall>a \<in> dom (blocks empty_heap). blocks h2 a = blocks empty_heap a) \<and>
        card (dom (blocks h2) - dom (blocks empty_heap)) \<in> {0, 2} \<and>
        ((Inr None :: fault + (nat \<times> string) option) = Inr None \<longrightarrow> blocks h2 = blocks empty_heap))"
    by (elim exE conjE) (rule that)
  from d [rule_format, of "map (Pair None) as"] r(3) obtain h2 where
    "for_each dispose (map (Pair None) as) h1 = (Inr (), h2)" "blocks h2 = (\<lambda>_. None)"
    by (auto simp: comp_def image_image empty_heap_ok(2))
  with r l show ?thesis by auto
qed

end
