(* ===== verification/Progress.thy ===== *)
theory Progress
  imports MultiPass
begin

text \<open>
  Waiting in the batch queue: readers that push the chunks of their partitions and consumers that get chunks by
  number, in any interleaving, and what is true of those that wait. The wakeup \<^verbatim>\<open>DeleteProducer\<close>
  loses (\<open>BatchProtocol\<close>) is the only one, and readers never hold each other up for good.
\<close>

section \<open>Runs of the threads\<close>

text \<open>
  \<open>follows\<close>: what the threads have done and what they wait in belongs to their programs. \<open>multi_runs\<close>: the states
  threads with these programs can reach.
\<close>

definition follows :: "int list \<Rightarrow> Chunk qop list list \<Rightarrow> (Chunk, BatchQueue) sys \<Rightarrow> bool" where
  "follows ids progs s \<longleftrightarrow> runs_getters ids progs (sys_log s) \<and>
     (\<forall>(t, op, c) \<in> set (sys_wait s). runs_getters ids progs (sys_log s @ [(t, op, Wait c)]))"

inductive multi_runs :: "u32 \<Rightarrow> int list \<Rightarrow> Chunk qop list list \<Rightarrow> (Chunk, BatchQueue) sys \<Rightarrow> bool" for B ids progs where
  runs_init: "multi_runs B ids progs \<lparr>sys_q = ThreadSafeBatchQueue B ids, sys_wait = [], sys_ready = [], sys_log = []\<rparr>"
| runs_step: "multi_runs B ids progs s \<Longrightarrow> sys_step batch_sec s s' \<Longrightarrow> follows ids progs s' \<Longrightarrow> multi_runs B ids progs s'"

lemma multi_runs_reachable:
  assumes "multi_runs B ids progs s"
  shows "sys_reachable batch_sec (ThreadSafeBatchQueue B ids) s" "runs_getters ids progs (sys_log s)"
proof -
  show "sys_reachable batch_sec (ThreadSafeBatchQueue B ids) s"
    using assms by induction (rule reach_init, rule reach_step)
  show "runs_getters ids progs (sys_log s)"
    using assms by cases (simp_all add: runs_getters_def follows_def)
qed

text \<open>After notifications nobody new waits, and nobody on a condition variable all of whose waiters were woken.\<close>

lemma notified_waits:
  assumes "notified ns s s'"
  shows "set (sys_wait s') \<subseteq> set (sys_wait s) \<and> (\<forall>c. NotifyAll c \<in> set ns \<longrightarrow> (\<forall>(t, op, c') \<in> set (sys_wait s'). c' \<noteq> c))"
  using assms
proof (induction rule: notified.induct)
  case (notified_one s xs t op c ys ns s')
  then show ?case by auto
next
  case (notified_all s c ns s')
  then show ?case by fastforce
qed auto

section \<open>What those that wait wait for\<close>

text \<open>
  A reader waits for its batch: its next chunk is the first of the batch after the current one. A
  consumer waits for a chunk of a reader that is active, unless that reader has left since, and the chunk is not
  there.
\<close>

definition wait_legit :: "int list \<Rightarrow> Chunk log \<Rightarrow> BatchQueue \<Rightarrow> nat \<times> Chunk qop \<times> cv \<Rightarrow> bool" where
  "wait_legit ids l q w \<longleftrightarrow>
     (case w of (t, op, c) \<Rightarrow>
        if t < length ids then c = BusyCV \<and> (\<exists>ch. op = QPush ch) \<and> bq_active q ! t \<and>
          length (push_values (ops_by t l)) = Suc (bcur q) * bsz q
        else \<exists>i v. op = QGet (ids ! i) v \<and> c = DataCV i \<and> i < length ids \<and> 0 \<le> v \<and>
          (bq_active q ! i \<longrightarrow> bq_row q i ! (nat v mod bsz q) = None \<or> nat v div bsz q \<noteq> bcur q))"

definition waits_inv :: "int list \<Rightarrow> Chunk log \<Rightarrow> BatchQueue \<Rightarrow> (nat \<times> Chunk qop \<times> cv) set \<Rightarrow> bool" where
  "waits_inv ids l q W \<longleftrightarrow> (\<forall>w \<in> W. wait_legit ids l q w) \<and> (bq_activeProducers q = 0 \<or> \<not> isBatchFinished q)"

lemma waits_invI:
  "(\<And>w. w \<in> W \<Longrightarrow> wait_legit ids l q w) \<Longrightarrow> bq_activeProducers q = 0 \<or> \<not> isBatchFinished q \<Longrightarrow> waits_inv ids l q W"
  by (simp add: waits_inv_def)

text \<open>The end of a section that may finish the batch: either all is as before, or everybody is woken.\<close>

lemma finish_batch_cases:
  assumes "finish_batch q1 = (q', ns)"
  obtains (same) "q' = q1" "\<not> isBatchFinished q'"
    | (woken) "NotifyAll BusyCV \<in> set ns" "\<And>i. i < bq_totalProducers q1 \<Longrightarrow> NotifyAll (DataCV i) \<in> set ns"
      "bq_readInBatch q' = replicate (bq_totalProducers q1) 0"
  using assms by (auto simp: finish_batch_def resetBatch_def split: if_splits)

lemma get_finishes:
  assumes "bq_GetLoop p v q = (Return a, q', ns)"
  obtains q1 where "finish_batch q1 = (q', ns)" "bq_currentBatch q1 = bq_currentBatch q" "bq_producerIds q1 = bq_producerIds q"
  using assms by (auto simp: bq_GetLoop_def Let_def readValue_def split: if_splits option.splits list.splits prod.splits)

lemma delete_finishes:
  assumes "bq_DeleteProducer p q = (Return a, q', ns)"
  obtains q1 ns1 where "finish_batch q1 = (q', ns1)" "set ns1 \<subseteq> set ns" "bq_currentBatch q1 = bq_currentBatch q"
    "bq_producerIds q1 = bq_producerIds q"
proof -
  let ?q1 = "q\<lparr>bq_active := (bq_active q)[producer_number q p := False], bq_activeProducers := bq_activeProducers q - 1\<rparr>"
  obtain q2 ns2 where fb: "finish_batch ?q1 = (q2, ns2)" by fastforce
  then have "q' = q2" "set ns2 \<subseteq> set ns" using assms by (auto simp: bq_DeleteProducer_def Let_def split: if_splits)
  with fb that [of ?q1 ns2] show thesis by simp
qed

text \<open>A batch that has just begun is not finished while somebody is active.\<close>

lemma fresh_batch:
  assumes "multi_inv ids chunks l q" "bq_readInBatch q = replicate (length ids) 0"
  shows "bq_activeProducers q = 0 \<or> \<not> isBatchFinished q"
proof -
  obtain nx where "batch_inv q nx" using assms(1) by (auto simp: multi_inv_def)
  then have sh: "shape_ok q" by (simp add: batch_inv_def)
  have n: "bq_totalProducers q = length ids" and a: "bq_activeProducers q = int (length (filter id (bq_active q)))"
    using assms(1) by (simp_all add: multi_inv_def bq_totalProducers_def)
  show ?thesis
  proof (cases "filter id (bq_active q) = []")
    case False
    then obtain i where i: "i < length ids" "bq_active q ! i"
      using sh n by (auto simp: filter_empty_conv in_set_conv_nth shape_ok_def)
    moreover have "bq_readInBatch q ! i \<noteq> bq_batchSize q" using i assms(2) sh by (simp add: shape_ok_def)
    ultimately show ?thesis using n by (auto simp: isBatchFinished_def list_all_iff)
  qed (simp add: a)
qed

text \<open>A section that wakes everybody keeps the invariant.\<close>

lemma all_woken:
  assumes "multi_inv ids chunks l q" "bq_readInBatch q = replicate (length ids) 0"
    and "NotifyAll BusyCV \<in> set ns" "\<And>i. i < length ids \<Longrightarrow> NotifyAll (DataCV i) \<in> set ns"
    and "\<forall>c. NotifyAll c \<in> set ns \<longrightarrow> (\<forall>(t, op, c') \<in> W. c' \<noteq> c)"
    and "\<forall>(t, op, c) \<in> W. c = BusyCV \<or> (\<exists>i < length ids. c = DataCV i)"
  shows "waits_inv ids l q W"
proof (rule waits_invI)
  fix w assume w: "w \<in> W"
  obtain t op c where e: "w = (t, op, c)" by (cases w)
  have "c = BusyCV \<or> (\<exists>i < length ids. c = DataCV i)" using assms(6) w e by blast
  then have "NotifyAll c \<in> set ns" using assms(3,4) by blast
  with assms(5) w e show "wait_legit ids l q w" by blast
qed (rule fresh_batch [OF assms(1,2)])

lemma wait_legit_cv:
  "wait_legit ids l q (t, op, c) \<Longrightarrow> c = BusyCV \<or> (\<exists>i < length ids. c = DataCV i)"
  by (auto simp: wait_legit_def split: if_splits)

text \<open>A wait that the section does not concern.\<close>

lemma wait_legit_keep:
  assumes "wait_legit ids l q (u, op, c)" "bq_batchSize q' = bq_batchSize q" "bq_currentBatch q' = bq_currentBatch q"
    and "u < length ids \<Longrightarrow> bq_active q' ! u = bq_active q ! u \<and> push_values (ops_by u l') = push_values (ops_by u l)"
    and "\<And>i. c = DataCV i \<Longrightarrow> i < length ids \<Longrightarrow> bq_active q' ! i \<Longrightarrow>
      bq_active q ! i \<and> (\<forall>k. bq_row q i ! k = None \<longrightarrow> bq_row q' i ! k = None)"
  shows "wait_legit ids l' q' (u, op, c)"
proof (cases "u < length ids")
  case True
  with assms show ?thesis by (simp add: wait_legit_def)
next
  case False
  with assms(1) obtain i v where w: "op = QGet (ids ! i) v" "c = DataCV i" "i < length ids" "0 \<le> v"
    "bq_active q ! i \<longrightarrow> bq_row q i ! (nat v mod bsz q) = None \<or> nat v div bsz q \<noteq> bcur q"
    by (auto simp: wait_legit_def)
  with assms(2,3,5) False show ?thesis unfolding wait_legit_def by auto
qed

text \<open>What the system looks like when a section starts, and what is known of those that wait after it.\<close>

definition waits_after :: "nat \<Rightarrow> Chunk qop \<Rightarrow> Chunk answer outcome \<Rightarrow> notice list \<Rightarrow>
  (nat \<times> Chunk qop \<times> cv) set \<Rightarrow> (nat \<times> Chunk qop \<times> cv) set \<Rightarrow> bool" where
  "waits_after t op r ns W W' \<longleftrightarrow> W' \<subseteq> W \<union> {(t, op, c) |c. r = Wait c} \<and>
     (\<forall>c. NotifyAll c \<in> set ns \<longrightarrow> (\<forall>(t, op, c') \<in> W'. c' \<noteq> c))"

lemma push_waits:
  assumes "multi_inv ids chunks l q" "multi_programs ids chunks progs" "i < length ids"
    and "deletes (ops_by i l) = 0" "length (push_values (ops_by i l)) < length (chunks i)"
    and "c = chunks i ! length (push_values (ops_by i l))"
    and "bq_Push c q = (r, q', ns)" "waits_inv ids l q W" "waits_after i (QPush c) r ns W W'"
  shows "waits_inv ids (if \<exists>cv. r = Wait cv then l else l @ [(i, QPush c, r)]) q' W'"
proof -
  let ?n = "length (push_values (ops_by i l))"
  obtain nx where nx: "batch_inv q nx" "\<forall>j < length ids. nx (ids ! j) = length (push_values (ops_by j l))"
    using assms(1) by (auto simp: multi_inv_def)
  have q: "bq_producerIds q = ids" "bq_batchSize q < 2 ^ 31" and i: "i < bq_totalProducers q"
    and ri: "reader_inv (chunks i) (ids ! i) i l (bq_active q ! i) (bq_row q i)"
    using assms(1,3) by (simp_all add: multi_inv_def bq_totalProducers_def)
  have sh: "shape_ok q" and d: "distinct ids" using nx(1) q(1) by (simp_all add: batch_inv_def)
  have c: "value_partition c = bq_producerIds q ! i" "unat (chunk_id c) = nx (bq_producerIds q ! i)"
    "unat (chunk_id c) = ?n" "?n < 2 ^ 31"
    using assms(2,3,5,6) nx(2) q(1) by (auto simp: multi_programs_def)
  have act: "bq_active q ! i" using ri assms(4) by (simp add: reader_inv_def)
  then have le: "?n \<le> bcur q * bsz q + bsz q"
    using nx assms(3) q(1) i by (auto simp: batch_inv_def active_ok_def Let_def)
  have push: "if ?n < bcur q * bsz q + bsz q then \<exists>q' ns. bq_Push c q = (Return None, q', ns)
    else bq_Push c q = (Wait BusyCV, q, [])"
    using push_next [OF nx(1) i act q(2) c(1,2)] c(2,3,4) by (auto split: if_splits)
  show ?thesis
  proof (cases "?n < bcur q * bsz q + bsz q")
    case False
    then have r: "r = Wait BusyCV" "q' = q" "ns = []" using push assms(7) by simp_all
    have "wait_legit ids l q (i, QPush c, BusyCV)"
      using False le act assms(3) by (simp add: wait_legit_def)
    then show ?thesis using assms(8,9) r by (auto simp: waits_inv_def waits_after_def)
  next
    case True
    then have r: "r = Return None" using push assms(7) by auto
    note ids = section_ids(1) [OF assms(7)]
    have s: "bq_currentBatch q' = bq_currentBatch q" "bq_itemsToRead q' = bq_itemsToRead q + 1"
      "NotifyAll (DataCV (producer_number q (value_partition c))) \<in> set ns"
      using assms(7) r by (auto simp: bq_Push_def Let_def split: if_splits)
    have pn: "producer_number q (value_partition c) = i"
      using producer_number_nth [of q i] d i c(1) q(1) by simp
    obtain k where k: "k < bsz q" "bq_data q' = (bq_data q)[i * bsz q + k := Some c]" "bq_active q' = bq_active q"
      using push_slot [OF sh _ i c(1)] assms(7) d q(1) r c(3,4) by auto
    have row: "bq_row q' j = bq_row q j" if "j < length ids" "j \<noteq> i" for j
      using row_update [OF sh i k(1,2)] ids that q(1) by (simp add: bq_totalProducers_def)
    have "wait_legit ids (l @ [(i, QPush c, r)]) q' (u, op, cv)" if w: "(u, op, cv) \<in> W'" for u op cv
    proof (rule wait_legit_keep [of ids l q])
      show legit: "wait_legit ids l q (u, op, cv)" using assms(8,9) r w by (auto simp: waits_inv_def waits_after_def)
      show "bq_active q' ! u = bq_active q ! u \<and> push_values (ops_by u (l @ [(i, QPush c, r)])) = push_values (ops_by u l)"
        if "u < length ids"
      proof -
        have "u \<noteq> i" using legit that True by (auto simp: wait_legit_def)
        then show ?thesis using k(3) by simp
      qed
      show "bq_active q ! j \<and> (\<forall>k. bq_row q j ! k = None \<longrightarrow> bq_row q' j ! k = None)"
        if "cv = DataCV j" "j < length ids" "bq_active q' ! j" for j
      proof -
        have "j \<noteq> i" using assms(9) s(3) pn w that(1) by (auto simp: waits_after_def)
        then show ?thesis using row that k(3) by simp
      qed
    qed (use ids s in simp_all)
    moreover have "\<not> isBatchFinished q'"
      using s(2) nx(1) by (simp add: isBatchFinished_def batch_inv_def)
    ultimately show ?thesis using r by (auto intro!: waits_invI)
  qed
qed

lemma update_None: "xs ! m = None \<Longrightarrow> xs[k := None] ! m = None"
  by (cases "k < length xs"; cases "m = k") (simp_all add: list_update_beyond)

lemma get_waits:
  assumes "multi_inv ids chunks l q" "i < length ids" "length ids \<le> t" "0 \<le> v"
    and "batch_sec op' q = (r, q', ns)" "op' = QGet (ids ! i) v \<or> op' = QGetLoop (ids ! i) v"
    and "waits_inv ids l q W" "waits_after t (QGet (ids ! i) v) r ns W W'"
    and "\<forall>cv. r \<noteq> Wait cv \<Longrightarrow> multi_inv ids chunks (l @ [(t, QGet (ids ! i) v, r)]) q'"
  shows "waits_inv ids (if \<exists>cv. r = Wait cv then l else l @ [(t, QGet (ids ! i) v, r)]) q' W'"
proof -
  let ?l = "l @ [(t, QGet (ids ! i) v, r)]"
  obtain nx where nx: "batch_inv q nx" using assms(1) by (auto simp: multi_inv_def)
  have q: "bq_producerIds q = ids" and i: "i < bq_totalProducers q"
    using assms(1,2) by (simp_all add: multi_inv_def bq_totalProducers_def)
  have sh: "shape_ok q" and d: "distinct ids" and cur: "0 \<le> bq_currentBatch q"
    using nx q by (simp_all add: batch_inv_def)
  have B: "0 < bq_batchSize q" "0 < bsz q" using sh by (simp_all add: shape_ok_def)
  note pn = producer_number_nth [of q i, unfolded q, OF d i]
  consider (waits) cv where "r = Wait cv" | (returns) a where "r = Return a" | (throws) e where "r = Throw e" by (cases r) auto
  then show ?thesis
  proof cases
    case waits
    let ?k = "nat v mod bsz q"
    have k: "?k < bsz q" using B(2) by simp
    have ti: "nat (targetIndex q (ids ! i) v) = i * bsz q + ?k"
      using targetIndex_nth [of q i v] d i q B(1) assms(4) by (metis nat_int)
    have w: "q' = q" "cv = DataCV i" "bq_data q ! (i * bsz q + ?k) = None \<or> v sdiv bq_batchSize q \<noteq> bq_currentBatch q"
      using assms(5,6) waits by (auto simp: bq_Get_def bq_GetLoop_def Let_def ti pn
          split: if_splits option.splits list.splits prod.splits)
    have "v sdiv bq_batchSize q = int (nat v div bsz q)" using smod_nat(2) [of "nat v" "bsz q"] assms(4) B(1) by simp
    then have "bq_row q i ! ?k = None \<or> nat v div bsz q \<noteq> bcur q"
      using w(3) slot_row_nth(1) [OF shape_data [OF sh] i k] cur by auto
    then have "wait_legit ids l q (t, QGet (ids ! i) v, DataCV i)"
      using assms(2-4) by (auto simp: wait_legit_def)
    with assms(7,8) w(1,2) waits show ?thesis by (auto simp: waits_inv_def waits_after_def)
  next
    case throws
    have "q' = q" using get_other(1) [OF assms(5,6)] throws by simp
    moreover have "wait_legit ids ?l q (u, op, cv)" if w: "(u, op, cv) \<in> W'" for u op cv
    proof (rule wait_legit_keep [of ids l q])
      show "wait_legit ids l q (u, op, cv)" using assms(7,8) throws w by (auto simp: waits_inv_def waits_after_def)
    qed (use assms(3) in auto)
    ultimately show ?thesis using throws assms(7) by (auto intro!: waits_invI simp: waits_inv_def)
  next
    case returns
    have loop: "bq_GetLoop (ids ! i) v q = (Return a, q', ns)" using get_return assms(5,6) returns by blast
    note ids = section_ids(3) [OF loop]
    have inv': "multi_inv ids chunks ?l q'" using assms(9) returns by simp
    have W: "wait_legit ids l q w" if "w \<in> W'" for w
      using assms(7,8) returns that by (auto simp: waits_inv_def waits_after_def)
    obtain q1 where q1: "finish_batch q1 = (q', ns)" "bq_currentBatch q1 = bq_currentBatch q" "bq_producerIds q1 = bq_producerIds q"
      using loop by (rule get_finishes)
    from q1(1) have "waits_inv ids ?l q' W'"
    proof (cases rule: finish_batch_cases)
      case woken
      have n: "bq_totalProducers q1 = length ids" using q1(3) q by (simp add: bq_totalProducers_def)
      show ?thesis
      proof (rule all_woken [OF inv' _ woken(1)])
        show "\<forall>c. NotifyAll c \<in> set ns \<longrightarrow> (\<forall>(t, op, c') \<in> W'. c' \<noteq> c)" using assms(8) by (simp add: waits_after_def)
        show "\<forall>(t, op, c) \<in> W'. c = BusyCV \<or> (\<exists>i < length ids. c = DataCV i)" using W wait_legit_cv by blast
      qed (use woken n in simp_all)
    next
      case same
      obtain k c where k: "k < bsz q" "bq_data q' = (bq_data q)[i * bsz q + k := None]" "bq_active q' = bq_active q"
        using get_slot [of q i v a q' ns] sh d i assms(4) loop q by auto
      have "wait_legit ids ?l q' (u, op, cv)" if w: "(u, op, cv) \<in> W'" for u op cv
      proof (rule wait_legit_keep [OF W [OF w]])
        show "bq_active q ! j \<and> (\<forall>m. bq_row q j ! m = None \<longrightarrow> bq_row q' j ! m = None)"
          if "cv = DataCV j" "j < length ids" "bq_active q' ! j" for j
          using row_update [OF sh i k(1,2), of j] ids that q k(3)
          by (auto simp: bq_totalProducers_def update_None)
      qed (use ids same(1) q1(2) k(3) assms(3) in auto)
      with same(2) show ?thesis by (auto intro!: waits_invI)
    qed
    with returns show ?thesis by simp
  qed
qed

lemma delete_waits:
  assumes "multi_inv ids chunks l q" "i < length ids"
    and "bq_DeleteProducer (ids ! i) q = (Return a, q', ns)"
    and "waits_inv ids l q W" "waits_after i (QDelete (ids ! i)) (Return a) ns W W'"
    and "multi_inv ids chunks (l @ [(i, QDelete (ids ! i), Return a)]) q'" "\<forall>(t, op, c) \<in> W'. t \<noteq> i"
  shows "waits_inv ids (l @ [(i, QDelete (ids ! i), Return a)]) q' W'"
proof -
  let ?l = "l @ [(i, QDelete (ids ! i), Return a)]"
  obtain nx where nx: "batch_inv q nx" using assms(1) by (auto simp: multi_inv_def)
  have q: "bq_producerIds q = ids" and i: "i < bq_totalProducers q"
    using assms(1,2) by (simp_all add: multi_inv_def bq_totalProducers_def)
  have sh: "shape_ok q" and d: "distinct ids" using nx q by (simp_all add: batch_inv_def)
  have active_length: "i < length (bq_active q)" using sh i by (simp add: shape_ok_def)
  note ids = section_ids(4) [OF assms(3)]
  note s = delete_slot [OF sh _ i, unfolded q, OF d assms(3)]
  have W: "wait_legit ids l q w" if "w \<in> W'" for w
    using assms(4,5) that by (auto simp: waits_inv_def waits_after_def)
  obtain q1 ns1 where q1: "finish_batch q1 = (q', ns1)" "set ns1 \<subseteq> set ns" "bq_currentBatch q1 = bq_currentBatch q"
    "bq_producerIds q1 = bq_producerIds q"
    using assms(3) by (rule delete_finishes)
  from q1(1) show ?thesis
  proof (cases rule: finish_batch_cases)
    case woken
    have n: "bq_totalProducers q1 = length ids" using q1(4) q by (simp add: bq_totalProducers_def)
    show ?thesis
    proof (rule all_woken [OF assms(6) _ subsetD [OF q1(2) woken(1)]])
      show "\<forall>c. NotifyAll c \<in> set ns \<longrightarrow> (\<forall>(t, op, c') \<in> W'. c' \<noteq> c)" using assms(5) by (simp add: waits_after_def)
      show "\<forall>(t, op, c) \<in> W'. c = BusyCV \<or> (\<exists>i < length ids. c = DataCV i)" using W wait_legit_cv by blast
      show "NotifyAll (DataCV j) \<in> set ns" if "j < length ids" for j using woken(2) [of j] n that q1(2) by auto
    qed (use woken n in simp)
  next
    case same
    have "wait_legit ids ?l q' (u, op, cv)" if w: "(u, op, cv) \<in> W'" for u op cv
    proof (rule wait_legit_keep [OF W [OF w]])
      show "bq_active q' ! u = bq_active q ! u \<and> push_values (ops_by u ?l) = push_values (ops_by u l)" if "u < length ids"
      proof -
        have "u \<noteq> i" using assms(7) w by auto
        then show ?thesis using s(3) by simp
      qed
      show "bq_active q ! j \<and> (\<forall>m. bq_row q j ! m = None \<longrightarrow> bq_row q' j ! m = None)"
        if "cv = DataCV j" "j < length ids" "bq_active q' ! j" for j
        using that s(2,3) ids active_length by (cases "j = i") simp_all
    qed (use ids same(1) q1(3) in auto)
    with same(2) show ?thesis by (auto intro!: waits_invI)
  qed
qed

section \<open>The invariant in every state\<close>

lemma section_waits:
  assumes "multi_inv ids chunks l q" "multi_programs ids chunks progs" "runs_getters ids progs (l @ [(t, op, r)])"
    and "batch_sec op' q = (r, q', ns)" "op' = op \<or> op' = resumed op"
    and "waits_inv ids l q W" "waits_after t op r ns W W'"
    and "l' = (if \<exists>cv. r = Wait cv then l else l @ [(t, op, r)])"
    and "\<forall>(u, op, c) \<in> W'. runs_getters ids progs (l' @ [(u, op, Wait c)])"
  shows "waits_inv ids l' q' W'"
proof -
  have len: "length progs = length ids" using assms(2) by (simp add: multi_programs_def)
  have inv': "multi_inv ids chunks (l @ [(t, op, r)]) q'" if "\<forall>cv. r \<noteq> Wait cv"
    using multi_step [OF assms(1-5) that] .
  show ?thesis
  proof (cases "t < length ids")
    case True
    have "prefix (ops_by t l @ [op]) (map QPush (chunks t) @ [QDelete (ids ! t)])"
      using own_multi_program [OF assms(2,3) True] by simp
    note n = next_op [OF this]
    then consider (del) "op = QDelete (ids ! t)"
      | (push) "length (push_values (ops_by t l)) < length (chunks t)" "op = QPush (chunks t ! length (push_values (ops_by t l)))"
      by blast
    then show ?thesis
    proof cases
      case push
      have sec: "bq_Push (chunks t ! length (push_values (ops_by t l))) q = (r, q', ns)" using assms(4,5) push(2) by auto
      have after: "waits_after t (QPush (chunks t ! length (push_values (ops_by t l)))) r ns W W'"
        using assms(7) push(2) by simp
      show ?thesis
        unfolding assms(8) push(2)
        by (rule push_waits [OF assms(1,2) True conjunct1 [OF n] push(1) refl sec assms(6) after])
    next
      case del
      then have r: "bq_DeleteProducer (ids ! t) q = (Return None, q', ns)" "r = Return None"
        using multi_delete [OF assms(1) True] n assms(4,5) by auto
      have l': "l' = l @ [(t, QDelete (ids ! t), Return None)]" using assms(8) r(2) del by simp
      have "u \<noteq> t" if w: "(u, op2, c) \<in> W'" for u op2 c
      proof
        assume u: "u = t"
        have "runs_getters ids progs (l' @ [(u, op2, Wait c)])" using assms(9) w by blast
        then have "prefix ((ops_by t l @ [QDelete (ids ! t)]) @ [op2]) (map QPush (chunks t) @ [QDelete (ids ! t)])"
          using own_multi_program [OF assms(2) _ True] u l' by fastforce
        from next_op [OF this] show False by simp
      qed
      with delete_waits [OF assms(1) True r(1) assms(6)] assms(7) del r(2) inv' l' show ?thesis by auto
    qed
  next
    case False
    then obtain p v where op: "op = QGet p v" "p \<in> set ids" "0 \<le> v"
      using assms(3) len by (auto simp: runs_getters_def)
    then obtain i where i: "i < length ids" "p = ids ! i" by (auto simp: in_set_conv_nth)
    have t: "length ids \<le> t" and e: "op = QGet (ids ! i) v" and sec: "op' = QGet (ids ! i) v \<or> op' = QGetLoop (ids ! i) v"
      using False op(1) i(2) assms(5) by auto
    show ?thesis
      unfolding assms(8) e
      by (rule get_waits [OF assms(1) i(1) t op(3) assms(4) sec assms(6) assms(7) [unfolded e] inv' [unfolded e]])
  qed
qed

lemma wait_notifies_nobody: "batch_sec op q = (Wait c, q', ns) \<Longrightarrow> ns = []"
  by (cases op) (auto simp: bq_Push_def bq_Pop_def bq_Get_def bq_GetLoop_def bq_DeleteProducer_def Let_def
      split: if_splits option.splits list.splits prod.splits)

lemma ended_waits:
  "set (sys_wait (ended t op r q' s)) = set (sys_wait s) \<union> {(t, op, c) |c. r = Wait c}"
  "sys_log (ended t op r q' s) = (if \<exists>cv. r = Wait cv then sys_log s else sys_log s @ [(t, op, r)])"
  by (auto simp: ended_def split: outcome.splits)

text \<open>One section of the system; \<open>s\<close> is the state before it, without the thread if that was woken.\<close>

lemma run_section:
  assumes "multi_inv ids chunks (sys_log s) (sys_q s)" "multi_programs ids chunks progs"
    and "waits_inv ids (sys_log s) (sys_q s) (set (sys_wait s))"
    and "batch_sec op' (sys_q s) = (r, q', ns)" "op' = op \<or> op' = resumed op"
    and "notified ns (ended t op r q' s) s'" "follows ids progs s'"
  shows "waits_inv ids (sys_log s') (sys_q s') (set (sys_wait s'))"
proof -
  note f = notified_frame [OF assms(6)] and w = notified_waits [OF assms(6)]
  have log: "sys_log s' = (if \<exists>cv. r = Wait cv then sys_log s else sys_log s @ [(t, op, r)])"
    using f ended_waits(2) [of t op r q' s] by simp
  have after: "waits_after t op r ns (set (sys_wait s)) (set (sys_wait s'))"
    using w unfolding waits_after_def ended_waits(1) by blast
  have runs: "runs_getters ids progs (sys_log s @ [(t, op, r)])"
  proof (cases "\<exists>cv. r = Wait cv")
    case False
    then show ?thesis using assms(7) log by (simp add: follows_def)
  next
    case True
    then obtain cv where cv: "r = Wait cv" ..
    then have "ns = []" using wait_notifies_nobody assms(4) by blast
    then have "s' = ended t op r q' s" using assms(6) by (auto elim: notified_NilE)
    then have "(t, op, cv) \<in> set (sys_wait s')" using ended_waits(1) [of t op r q' s] cv by simp
    then show ?thesis using assms(7) log cv by (auto simp: follows_def)
  qed
  show ?thesis
    using section_waits [OF assms(1,2) runs assms(4,5,3) after log] assms(7) f by (auto simp: follows_def)
qed

lemma runs_waits:
  assumes "multi_runs B ids progs s" "0 < sint B" "multi_programs ids chunks progs"
  shows "waits_inv ids (sys_log s) (sys_q s) (set (sys_wait s))"
  using assms(1)
proof (induction rule: multi_runs.induct)
  case runs_init
  have "multi_inv ids chunks [] (ThreadSafeBatchQueue B ids)"
    using multi_inv_init [OF assms(2)] assms(3) by (simp add: multi_programs_def)
  from fresh_batch [OF this] show ?case by (auto intro!: waits_invI simp: ThreadSafeBatchQueue_def)
next
  case (runs_step s s')
  note r = multi_runs_reachable [OF runs_step.hyps(1)]
  have inv: "multi_inv ids chunks (sys_log s) (sys_q s)" using reachable_multi_inv [OF r(1) assms(2,3) r(2)] .
  from runs_step.hyps(2) show ?case
  proof cases
    case (step_call t op r q' ns)
    show ?thesis by (rule run_section [OF inv assms(3) runs_step.IH step_call(3) _ step_call(4) runs_step.hyps(3)]) simp
  next
    case (step_resume xs t op ys r q' ns)
    let ?s = "s\<lparr>sys_ready := xs @ ys\<rparr>"
    show ?thesis
      by (rule run_section [of ids chunks ?s progs "resumed op" r q' ns op t])
         (use inv assms(3) runs_step.IH step_resume(2,3) runs_step.hyps(3) in simp_all)
  next
    case (step_spurious xs t op c ys)
    then show ?thesis using runs_step.IH by (auto simp: waits_inv_def)
  qed
qed

text \<open>When something is in the queue, it can be got at once.\<close>

lemma something_to_get:
  assumes "multi_inv ids chunks l q" "bq_itemsToRead q \<noteq> 0"
  shows "\<exists>i < length ids. \<exists>v c. fst (batch_sec (QGet (ids ! i) v) q) = Return (Some c)"
proof -
  obtain nx where nx: "batch_inv q nx" using assms(1) by (auto simp: multi_inv_def)
  have ids: "bq_producerIds q = ids" "bq_totalProducers q = length ids"
    using assms(1) by (simp_all add: multi_inv_def bq_totalProducers_def)
  have inv: "shape_ok q" "0 \<le> bq_currentBatch q" "distinct ids" "filled (bq_data q) \<noteq> 0"
    "length (bq_queue q) = filled (bq_data q)"
    using nx ids(1) assms(2) by (simp_all add: batch_inv_def)
  have B: "0 < bq_batchSize q" "0 < bsz q" using inv(1) by (simp_all add: shape_ok_def)
  obtain idx where "idx < length (bq_data q)" "bq_data q ! idx \<noteq> None"
    using inv(4) filled_all_None [of "bq_data q"] by metis
  then obtain c where idx: "idx < length (bq_data q)" "bq_data q ! idx = Some c" by auto
  then have "in_data q (int idx)" by (simp add: in_data_def)
  from slot_split [OF inv(1) this] obtain i k where ik: "i < length ids" "k < bsz q" "idx = i * bsz q + k"
    using ids(2) by auto
  define w where "w = bcur q * bsz q + k"
  have dm: "w mod bsz q = k" "w div bsz q = bcur q" using ik(2) by (simp_all add: w_def)
  have "targetIndex q (ids ! i) (int w) = int (i * bsz q + nat (int w) mod bsz q)"
    using targetIndex_nth [of q i "int w"] inv(3) ids ik B(1) by simp
  then have ti: "targetIndex q (ids ! i) (int w) = int idx" unfolding nat_int dm(1) ik(3) .
  have sd: "int w sdiv bq_batchSize q = bq_currentBatch q"
    using smod_nat(2) [of w "bsz q"] dm(2) B(1) inv(2) by simp
  obtain d rest where d: "bq_queue q = d # rest" using inv(4,5) by (cases "bq_queue q") auto
  obtain q1 where rv: "readValue idx q = (Some c, q1)" "bq_queue q1 = d # rest"
    using idx(2) d by (simp add: readValue_def Let_def)
  have "fst (bq_GetLoop (ids ! i) (int w) q) = Return (Some c)"
    unfolding bq_GetLoop_def Let_def ti
    using B(1) idx sd rv by (simp add: in_data_def split: prod.splits)
  then have "fst (batch_sec (QGet (ids ! i) (int w)) q) = Return (Some c)"
    using assms(2) by (simp add: bq_Get_def)
  with ik(1) show ?thesis by blast
qed

text \<open>When nothing is in the queue, the current batch waits for a reader that has not pushed all of it.\<close>

lemma unfinished_reader:
  assumes "multi_inv ids chunks l q" "bq_itemsToRead q = 0" "waits_inv ids l q W" "bq_active q ! t" "t < length ids"
  shows "\<exists>j < length ids. bq_active q ! j \<and> bq_readInBatch q ! j \<noteq> bq_batchSize q"
proof -
  obtain nx where "batch_inv q nx" using assms(1) by (auto simp: multi_inv_def)
  then have "length (bq_active q) = length ids"
    using assms(1) by (simp add: batch_inv_def shape_ok_def multi_inv_def bq_totalProducers_def)
  then have "bq_active q ! t \<in> set (filter id (bq_active q))" using assms(4,5) nth_mem [of t "bq_active q"] by simp
  then have "filter id (bq_active q) \<noteq> []" by force
  then have "bq_activeProducers q \<noteq> 0" using assms(1) by (simp add: multi_inv_def)
  then have "\<not> isBatchFinished q" using assms(3) by (simp add: waits_inv_def)
  then show ?thesis
    using assms(1,2) by (auto simp: isBatchFinished_def list_all_iff multi_inv_def bq_totalProducers_def)
qed

lemma read_to_the_end:
  assumes "multi_inv ids chunks l q" "bq_itemsToRead q = 0" "j < length ids" "bq_active q ! j"
    and "length (push_values (ops_by j l)) = Suc (bcur q) * bsz q"
  shows "bq_readInBatch q ! j = bq_batchSize q"
proof -
  obtain nx where nx: "batch_inv q nx" "\<forall>j < length ids. nx (ids ! j) = length (push_values (ops_by j l))"
    using assms(1) by (auto simp: multi_inv_def)
  have j: "j < bq_totalProducers q" "bq_producerIds q = ids"
    using assms(1,3) by (simp_all add: multi_inv_def bq_totalProducers_def)
  have "\<forall>x \<in> set (bq_data q). x = None"
    using filled_0 [of "bq_data q"] nx(1) assms(2) by (auto simp: batch_inv_def in_set_conv_nth)
  moreover have "set (bq_row q j) \<subseteq> set (bq_data q)"
    unfolding slot_row_def by (meson order_trans set_drop_subset set_take_subset)
  ultimately have "filled (bq_row q j) = 0" by (auto simp: filled_def filter_empty_conv)
  then have "bq_readInBatch q ! j = int (bsz q)"
    using nx j assms(3-5) by (auto simp: batch_inv_def active_ok_def Let_def)
  then show ?thesis using nx(1) by (simp add: batch_inv_def shape_ok_def)
qed

text \<open>Those that wait would wait again.\<close>

lemma reader_waits_again:
  assumes "multi_inv ids chunks l q" "multi_programs ids chunks progs" "runs_getters ids progs (l @ [(t, op, Wait c)])"
    and "t < length ids" "wait_legit ids l q (t, op, c)"
  shows "fst (batch_sec (resumed op) q) = Wait BusyCV"
proof -
  let ?n = "length (push_values (ops_by t l))"
  obtain ch where w: "op = QPush ch" "bq_active q ! t" "?n = Suc (bcur q) * bsz q"
    using assms(4,5) by (auto simp: wait_legit_def)
  have "prefix (ops_by t l @ [op]) (map QPush (chunks t) @ [QDelete (ids ! t)])"
    using own_multi_program [OF assms(2,3,4)] by simp
  from next_op [OF this] w(1) have ch: "?n < length (chunks t)" "ch = chunks t ! ?n" by auto
  obtain nx where nx: "batch_inv q nx" "\<forall>j < length ids. nx (ids ! j) = length (push_values (ops_by j l))"
    using assms(1) by (auto simp: multi_inv_def)
  have q: "bq_producerIds q = ids" "bq_batchSize q < 2 ^ 31" "t < bq_totalProducers q"
    using assms(1,4) by (simp_all add: multi_inv_def bq_totalProducers_def)
  have "bq_Push ch q = (Wait BusyCV, q, [])"
    using push_next [OF nx(1) q(3) w(2) q(2), of ch] nx(2) assms(2,4) ch q(1) w(3)
    by (auto simp: multi_programs_def)
  then show ?thesis using w(1) by simp
qed

lemma consumer_waits_again:
  assumes "multi_inv ids chunks l q" "i < length ids" "0 \<le> v" "bq_active q ! i"
    and "bq_row q i ! (nat v mod bsz q) = None \<or> nat v div bsz q \<noteq> bcur q"
  shows "fst (batch_sec (QGetLoop (ids ! i) v) q) = Wait (DataCV i)"
proof -
  obtain nx where nx: "batch_inv q nx" using assms(1) by (auto simp: multi_inv_def)
  have q: "bq_producerIds q = ids" and i: "i < bq_totalProducers q"
    using assms(1,2) by (simp_all add: multi_inv_def bq_totalProducers_def)
  have sh: "shape_ok q" and d: "distinct ids" and cur: "0 \<le> bq_currentBatch q"
    using nx q by (simp_all add: batch_inv_def)
  have B: "0 < bq_batchSize q" "0 < bsz q" using sh by (simp_all add: shape_ok_def)
  let ?k = "nat v mod bsz q"
  have k: "?k < bsz q" using B(2) by simp
  note pn = producer_number_nth [of q i, unfolded q, OF d i]
  have ti: "targetIndex q (ids ! i) v = int (i * bsz q + ?k)"
    using targetIndex_nth [of q i v] d i q B(1) assms(3) by simp
  then have ni: "nat (targetIndex q (ids ! i) v) = i * bsz q + ?k" by (metis nat_int)
  have "in_data q (targetIndex q (ids ! i) v)"
    unfolding ti in_data_def using row_index [OF i k] shape_data [OF sh] by (simp only: of_nat_less_iff of_nat_0_le_iff)
  moreover have "v sdiv bq_batchSize q = int (nat v div bsz q)" using smod_nat(2) [of "nat v" "bsz q"] assms(3) B(1) by simp
  moreover have "bq_data q ! (i * bsz q + ?k) = bq_row q i ! ?k" using slot_row_nth(1) [OF shape_data [OF sh] i k] by simp
  ultimately show ?thesis
    using assms(4,5) B(1) cur by (auto simp: bq_GetLoop_def Let_def ni pn)
qed

section \<open>The contract\<close>

text \<open>C18. Nobody waits in vain in the batch queue, but for the consumers of a reader that has left, and the readers never
  hold each other up. In every state that readers pushing the chunks of their partitions and consumers getting
  chunks by number can reach: whoever waits would wait again if it looked now, unless it is a consumer that
  asks for a chunk of a reader that has left (the wakeup \<^verbatim>\<open>DeleteProducer\<close> loses); and while some reader waits
  and nobody has been woken, another reader is active outside the queue, or a chunk is there that some \<^verbatim>\<open>Get\<close> returns
  at once.
\<close>

theorem multi_pass_progress:
  assumes "multi_runs B ids progs s" "0 < sint B" "multi_programs ids chunks progs"
  shows "(\<forall>(t, op, c) \<in> set (sys_wait s).
      (\<exists>cv. fst (batch_sec (resumed op) (sys_q s)) = Wait cv) \<or>
      (\<exists>i v. op = QGet (ids ! i) v \<and> i < length ids \<and> \<not> bq_active (sys_q s) ! i)) \<and>
    (sys_ready s = [] \<and> (\<exists>t < length ids. t \<in> inside s) \<longrightarrow>
      (\<exists>i < length ids. bq_active (sys_q s) ! i \<and> i \<notin> inside s) \<or>
      (\<exists>i < length ids. \<exists>v c. fst (batch_sec (QGet (ids ! i) v) (sys_q s)) = Return (Some c)))"
proof
  let ?q = "sys_q s" and ?l = "sys_log s"
  note r = multi_runs_reachable [OF assms(1)]
  have inv: "multi_inv ids chunks ?l ?q" using reachable_multi_inv [OF r(1) assms(2,3) r(2)] .
  have W: "wait_legit ids ?l ?q w" if "w \<in> set (sys_wait s)" for w
    using runs_waits [OF assms] that by (simp add: waits_inv_def)
  show "\<forall>(t, op, c) \<in> set (sys_wait s). (\<exists>cv. fst (batch_sec (resumed op) ?q) = Wait cv) \<or>
      (\<exists>i v. op = QGet (ids ! i) v \<and> i < length ids \<and> \<not> bq_active ?q ! i)"
  proof (intro ballI, clarify)
    fix t op c
    assume w: "(t, op, c) \<in> set (sys_wait s)"
      and n: "\<not> (\<exists>i v. op = QGet (ids ! i) v \<and> i < length ids \<and> \<not> bq_active ?q ! i)"
    show "\<exists>cv. fst (batch_sec (resumed op) ?q) = Wait cv"
    proof (cases "t < length ids")
      case True
      have "runs_getters ids progs (?l @ [(t, op, Wait c)])"
        using assms(1) w by cases (auto simp: follows_def)
      from reader_waits_again [OF inv assms(3) this True W [OF w]] show ?thesis by blast
    next
      case False
      then show ?thesis using W [OF w] n consumer_waits_again [OF inv] by (fastforce simp: wait_legit_def)
    qed
  qed
  show "sys_ready s = [] \<and> (\<exists>t < length ids. t \<in> inside s) \<longrightarrow>
      (\<exists>i < length ids. bq_active ?q ! i \<and> i \<notin> inside s) \<or>
      (\<exists>i < length ids. \<exists>v c. fst (batch_sec (QGet (ids ! i) v) ?q) = Return (Some c))"
  proof (intro impI, elim conjE exE)
    fix t assume ready: "sys_ready s = []" and t: "t < length ids" "t \<in> inside s"
    have busy: "bq_active ?q ! j \<and> length (push_values (ops_by j ?l)) = Suc (bcur ?q) * bsz ?q"
      if "j < length ids" "j \<in> inside s" for j
      using that ready W by (auto simp: inside_def wait_legit_def)
    show "(\<exists>i < length ids. bq_active ?q ! i \<and> i \<notin> inside s) \<or>
        (\<exists>i < length ids. \<exists>v c. fst (batch_sec (QGet (ids ! i) v) ?q) = Return (Some c))"
    proof (cases "bq_itemsToRead ?q = 0")
      case False
      from something_to_get [OF inv this] show ?thesis by blast
    next
      case True
      obtain j where j: "j < length ids" "bq_active ?q ! j" "bq_readInBatch ?q ! j \<noteq> bq_batchSize ?q"
        using unfinished_reader [OF inv True] runs_waits [OF assms] busy [OF t] t(1) by blast
      have "j \<notin> inside s" using read_to_the_end [OF inv True j(1,2)] busy [OF j(1)] j(3) by auto
      with j show ?thesis by blast
    qed
  qed
qed

section \<open>An example\<close>

text \<open>A reader has pushed its first chunk, in batches of one, and waits to push the second.\<close>

definition ahead_progs :: "Chunk qop list list" where
  "ahead_progs = [[QPush (example_batch_chunk 0 5), QPush (example_batch_chunk 1 5), QDelete 5]]"

definition ahead_q :: BatchQueue where
  "ahead_q = one_slot 5 0\<lparr>bq_queue := [example_batch_chunk 0 5], bq_data := [Some (example_batch_chunk 0 5)], bq_itemsToRead := 1\<rparr>"

definition ahead :: "(Chunk, BatchQueue) sys" where
  "ahead = \<lparr>sys_q = ahead_q, sys_wait = [(0, QPush (example_batch_chunk 1 5), BusyCV)], sys_ready = [],
     sys_log = [(0, QPush (example_batch_chunk 0 5), Return None)]\<rparr>"

lemma ahead_chunks:
  "unat (chunk_id (example_batch_chunk 0 5)) = 0" "unat (chunk_id (example_batch_chunk 1 5)) = 1"
  "value_partition (example_batch_chunk k 5) = 5"
  by (simp_all add: example_batch_chunk_def NewChunk_def value_partition_def)

lemma ahead_runs: "multi_runs 1 [5] ahead_progs ahead"
proof -
  let ?c = "\<lambda>k. example_batch_chunk k 5"
  let ?s0 = "\<lparr>sys_q = ThreadSafeBatchQueue 1 [5], sys_wait = [], sys_ready = [], sys_log = []\<rparr>"
  let ?s1 = "ended 0 (QPush (?c 0)) (Return None) ahead_q ?s0"
  have q0: "ThreadSafeBatchQueue 1 [5] = one_slot 5 0" by (simp add: one_slot_def ThreadSafeBatchQueue_def)
  have push: "batch_sec (QPush (?c 0)) (one_slot 5 0) = (Return None, ahead_q, [NotifyOne EmptyCV, NotifyAll (DataCV 0)])"
    using one_slot_sections(1) [of "?c 0" 0 5] ahead_chunks by (simp add: ahead_q_def)
  have "sys_step batch_sec ?s0 ?s1"
    by (rule step_call_idle [OF _ _ _ refl]) (use push q0 in \<open>auto simp: inside_def ended_def\<close>)
  moreover have "follows [5] ahead_progs ?s1"
    by (simp add: follows_def runs_getters_def ended_def ahead_progs_def)
  ultimately have r1: "multi_runs 1 [5] ahead_progs ?s1" by (rule runs_step [OF runs_init])
  have "value_batch ahead_q (?c 1) = int (unat (chunk_id (?c 1)) div bsz ahead_q)"
    by (rule value_conversions(2)) (use ahead_chunks(2) in \<open>simp_all add: ahead_q_def one_slot_def ThreadSafeBatchQueue_def\<close>)
  then have "value_batch ahead_q (?c 1) = 1"
    unfolding ahead_chunks(2) by (simp add: ahead_q_def one_slot_def ThreadSafeBatchQueue_def)
  then have "batch_sec (QPush (?c 1)) ahead_q = (Wait BusyCV, ahead_q, [])"
    by (simp add: bq_Push_def ahead_q_def one_slot_def ThreadSafeBatchQueue_def)
  then have "sys_step batch_sec ?s1 ahead"
    by (intro step_call_idle [where t = 0 and op = "QPush (?c 1)" and r = "Wait BusyCV" and q' = ahead_q and ns = "[]"])
       (auto simp: inside_def ended_def ahead_def)
  moreover have "follows [5] ahead_progs ahead"
    by (simp add: follows_def runs_getters_def ahead_def ahead_progs_def)
  ultimately show ?thesis by (rule runs_step [OF r1])
qed

theorem multi_pass_progress_witness:
  "multi_runs 1 [5] ahead_progs ahead \<and> sys_wait ahead = [(0, QPush (example_batch_chunk 1 5), BusyCV)] \<and>
    (\<exists>v c. fst (batch_sec (QGet 5 v) (sys_q ahead)) = Return (Some c))"
proof -
  have "multi_programs [5] (\<lambda>_. [example_batch_chunk 0 5, example_batch_chunk 1 5]) ahead_progs"
    using ahead_chunks by (simp add: multi_programs_def ahead_progs_def less_Suc_eq all_conj_distrib)
  from multi_pass_progress [OF ahead_runs _ this] ahead_runs show ?thesis
    by (auto simp: ahead_def inside_def)
qed

end
