(* ===== verification/Spec2Isabelle.thy ===== *)
theory Spec2Isabelle
  imports Hdat_Roundtrip SqlText SimpleQueue BatchProtocol TsvWriter LoadData ExplainText ParallelRead SinglePass MultiPass RowTypes Failures MultiFailures RandomAccess Memory Progress
begin

text \<open>
  A verification development for \<^verbatim>\<open>libs2client\<close> (\<^verbatim>\<open>sas-libclient\<close>), the C++ library by which the
  workers of SAS CAS read from and write to a SingleStore database in parallel. Paths below are under
  \<^verbatim>\<open>src/\<close>.

  \<^bold>\<open>The program.\<close> A client (\<^verbatim>\<open>S2Client\<close>) holds one connection (\<^verbatim>\<open>S2Connection\<close>, a wrapper around the MySQL
  C client). For a read the controller calls \<^verbatim>\<open>ParallelReadInit\<close>, which decides where the rows are read
  from and may create a table; every worker then calls \<^verbatim>\<open>ParallelReadGetQueue\<close> and gets a \<^verbatim>\<open>ChunkQueue\<close>.
  The queue owns one \<^verbatim>\<open>ResultTableReader\<close> per partition of the worker, each with a connection and a
  thread of its own, and one thread-safe queue per consumer. A reader fetches rows, packs them into
  chunks in the hdat format (\<^verbatim>\<open>SuperChunkWriter\<close>) and pushes them to the queue of the consumer its
  partition belongs to; the consumer's threads take them by \<^verbatim>\<open>GetNextChunk\<close> and, in multi-pass mode, by
  \<^verbatim>\<open>GetChunkMulti\<close> and the functions for single rows. For a load the rows of a chunk become
  tab-separated text, or an Avro buffer is taken as it is, and the server fetches the bytes through the
  handlers of \<^verbatim>\<open>LOAD DATA LOCAL INFILE\<close>.

  \<^bold>\<open>The theories\<close>, each above those it uses:
  \<^item> \<open>S2Prelude\<close>: machine integers, faults (thrown exceptions, failed assertions, undefined behaviour
    as values of a sum), byte memory with bounds, the locale \<open>byte_codec\<close> with its interpretations for
    little-endian words, and the collections of simp rules. \<open>Effects\<close>: operations of an object
    that can throw, as functions that return a value or a fault and the state either way.
  \<^item> \<open>Utils\<close>, \<open>Versions\<close>: the helpers of \<^verbatim>\<open>utils.cpp\<close> (\<open>WorkerPartitions\<close>, \<open>ConsumerPartitions\<close>,
    \<open>FillCredentials\<close>, \<open>IsNullBuffer\<close>, \<open>CompareVersions\<close>). \<open>Calendar\<close>: the conversions of dates and times of
    \<^verbatim>\<open>hdat/common.hpp\<close>, with a proleptic Gregorian calendar for \<^verbatim>\<open>timegm\<close> and \<^verbatim>\<open>gmtime\<close>.
  \<^item> \<open>Hdat_Chunk\<close>, \<open>Hdat_Writer\<close>, \<open>Hdat_Reader\<close>: the chunk format (\<^verbatim>\<open>hdat/super_chunk.hpp\<close>,
    \<^verbatim>\<open>hdat/chunk_writer.cpp\<close>, \<^verbatim>\<open>hdat/chunk_reader.cpp\<close>), over a buffer that is a list of bytes; every pointer
    is an offset, every size a 64-bit word. \<open>Hdat_Layout\<close> says what the bytes mean, \<open>Hdat_Roundtrip\<close> has the
    contract: how writing a row ends, what it leaves in the chunk, and that rows are read back as they were
    written.
  \<^item> \<open>SqlText\<close>: the statements of namespace \<^verbatim>\<open>sql\<close>. \<open>RowSchemas\<close>: schemas from the fields of a result and
    from the text of an \<^verbatim>\<open>EXPLAIN\<close> (\<^verbatim>\<open>utils.cpp\<close>); \<open>ExplainText\<close>: a printer for such texts, and that the
    parser recovers what was printed.
  \<^item> \<open>Connection\<close>, \<open>RowCursor\<close>, \<open>ReadType\<close>, \<open>LoadData\<close>: the operations of \<^verbatim>\<open>s2_connection.cpp\<close> (connecting
    and metadata; rows on both protocols and chunks of rows; the choice of the read type; loads, with the
    handlers of \<^verbatim>\<open>tsv_table_writer.cpp\<close> and \<^verbatim>\<open>avro_table_writer.cpp\<close> as interpretations of the locale
    \<open>infile_source\<close>). \<open>TsvWriter\<close>: \<open>ChunkToTSV\<close>. \<open>RowStream\<close>: the rows a connection delivers as a list, and
    \<open>NextChunk\<close> as an operation on that list. \<open>RowTypes\<close>: rows have the types of the schema, on both protocols.
  \<^item> \<open>TableReader\<close>: \<^verbatim>\<open>result_table_reader.cpp\<close>; \<open>Read\<close> yields the operations the reading thread performs on
    its queue. \<open>Client\<close>: \<^verbatim>\<open>s2_client.cpp\<close>.
  \<^item> \<open>ThreadSafeQueue\<close>: the interface \<^verbatim>\<open>queue/thread_safe_queue.hpp\<close> as the locale \<open>thread_safe_queue\<close>, and
    systems of threads: an operation is a sequence of critical sections, a step runs one section of some
    thread or wakes a thread up, notified or not. \<open>SimpleQueue\<close> and \<open>BatchQueue\<close> are the two
    implementations and interpret the locale; \<open>BatchProtocol\<close> is the batch queue as its clients use it.
  \<^item> \<open>ChunkQueue\<close>, \<open>StreamingQueue\<close>, \<open>MultiPassQueue\<close>, \<open>ParallelRead\<close>: \<^verbatim>\<open>queue/chunk_queue.hpp\<close>,
    \<^verbatim>\<open>queue/streaming_queue.cpp\<close>, \<^verbatim>\<open>queue/multi_pass_queue.cpp\<close> and \<^verbatim>\<open>parallel_read.cpp\<close>.
    \<open>Delivery\<close>, \<open>SinglePass\<close> and \<open>MultiPass\<close> compose them: the readers of a created queue of either kind and
    its consumers, in any interleaving. \<open>Failures\<close> and \<open>MultiFailures\<close> do so for reads in which anything
    fails, and \<open>Progress\<close> for the threads that wait in a batch queue. \<open>RandomAccess\<close>: rows read by their keys that do not fit into
    the memory asked for. \<open>Memory\<close>: schemas and chunks as objects of a heap with addresses, and the
    operations that allocate, hand over and free them.

  \<^bold>\<open>How state and errors are modelled.\<close> A class is a record with the members of the class (\<open>cq_\<close>, \<open>rt_\<close>, \<open>c_\<close>,
  \<open>cl_\<close>, \<open>sq_\<close>, \<open>bq_\<close>, \<open>w_\<close>, \<open>sc_\<close>, \<open>mp_\<close> prefixes); a method takes the record and returns it updated. A thrown
  exception is \<open>Inl\<close> of a fault, and a \<^verbatim>\<open>catch\<close> clause a case over the faults it catches. What the C++
  standard leaves undefined (an index out of bounds, a NULL dereference, signed overflow) is the fault
  \<open>UndefinedBehaviour\<close>, so a theorem that a function returns \<open>Inr\<close> excludes it. Calls of the error
  callback are collected in a list. Integers have their width where it can matter. An exception does not undo
  what was done before it: \<open>WriteRow\<close> leaves the columns before the one that throws in the chunk, not counted as a
  row.

  \<^bold>\<open>Assertions.\<close> The model is of a build in which \<^verbatim>\<open>assert\<close> checks: a failed one is the fault \<open>AssertionFailed\<close> and
  ends the computation. The script \<^verbatim>\<open>build_and_test.sh\<close> builds \<^verbatim>\<open>RelWithDebInfo\<close> by default, which defines \<^verbatim>\<open>NDEBUG\<close>
  and leaves the assertions out. A theorem that a function returns, or throws an exception, shows that no
  assertion on its way fails, so it holds in both builds; one that assumes that a function has returned is about
  the runs in which none fails; one that excludes only undefined behaviour
  (that reads stay in the buffer, in \<^verbatim>\<open>Hdat_Roundtrip\<close>) counts a failed assertion as a safe end, and in a build without assertions the pointer of
  \<open>PtrAt\<close> may be the end of the buffer or beyond it there; and the theorems that an assertion fails
  (for a null value in front of all others) are about builds with assertions. A chunk whose first variable-length value is null
  or empty (\<open>first_text\<close> is false) is such a case: it is written as any other and holds its rows, but the reader's
  assertion stops at that value. What is said of reading a chunk back is therefore said under \<open>first_text\<close>, and the
  theorems about whole reads (\<open>chunk_holds\<close>) state the layout of every chunk and the values read from those.

  \<^bold>\<open>Parameters.\<close> The MySQL client library and the server behind it are the record \<open>my\<close> of the functions the
  code calls, over a handle whose state the model leaves open; \<^verbatim>\<open>malloc\<close> is \<open>alloc\<close>, \<open>new_fails\<close> says when \<^verbatim>\<open>operator new\<close> throws
  \<^verbatim>\<open>std::bad_alloc\<close> for the arrays of a fetched row (other uses of it are taken to succeed), the handles of
  \<^verbatim>\<open>mysql_init\<close> are \<open>h\<close> and \<open>inits\<close>, \<^verbatim>\<open>sprintf("%.17e")\<close> is \<open>print_e\<close> and \<^verbatim>\<open>json_dumps\<close> of libjansson is
  \<open>json_dumps\<close>. Theorems assume of them only what they state; every such theorem has an example with a
  concrete server.

  \<^bold>\<open>Loops.\<close> Loops over data are structural recursions or functions with a termination proof. Loops
  whose end depends on the server or on malformed input (\<open>fill\<close>, \<open>read_loop\<close>, \<open>send_infile\<close>,
  \<open>skip_doubled\<close>, \<open>split_fields\<close>) are partial functions with \<open>None\<close> for a loop that does not end; the theorems about
  them state that they do return. \<open>drain\<close> has as fuel the number of chunks in the queue plus one, which is
  as many iterations as it can make before it waits or ends (\<open>free_consumer_queue_frees_all\<close>).

  \<^bold>\<open>What is shown\<close>, in groups:
  \<^item> The format: round trip of chunks, the outcomes of \<open>WriteRow\<close>, no read outside the buffer; round trips of
    dates and times; the text of a load reads back as the values of the rows, and a load sends exactly
    that text, an Avro load exactly the caller's buffer.
  \<^item> The queues: first in first out, bounded, no lost wakeup and no deadlock for the simple queue, in every
    interleaving; consecutive pushes find their slot, \<open>Get\<close> finds the right chunk and the destructor frees
    everything for the batch queue, and the wakeup it can lose, which is the only one; its readers never hold
    each other up for good.
  \<^item> The read: every partition of the database is read by exactly one reader; queues are created for exactly
    their readers; a reader pushes exactly the rows of its partition and unregisters once, however it ends;
    its errors are recorded and reported; and, end to end, the consumer of a single-pass read gets every
    row of its partitions once and in order, and the consumer of a multi-pass read gets the chunks it asks for
    by number, none twice and in the end all. Whatever fails, a consumer of either kind that
    is told neither of a chunk nor of an error has lost no row.
  \<^item> Memory: \<^verbatim>\<open>RowSchemaFree\<close> returns what \<^verbatim>\<open>GetRowSchema\<close> has allocated, and the chunks of a read, each disposed
    of once, give back all memory of it unless an exception ends the read.
  \<^item> Statements and metadata: names and literals stay single tokens, the schema of a plan and of a result is
    recovered, the read type is chosen exactly when the keys and the plan allow it.
  \<^item> Error behaviour, with the inputs that show it: the faults and divergences found while modelling are
    theorems as well.

  \<^bold>\<open>Not modelled.\<close> The third-party code under \<^verbatim>\<open>vendor/\<close>, the tests, and the build files. The memory of connections,
  result sets and fetched rows: outside \<open>Memory\<close> the model has values, not addresses. The start and join of
  threads: \<open>Read\<close> is the body of a reading thread, and the systems of threads start from the created
  queues. The two atomic flags of a reader appear as what each look at them sees. Data races outside the mutexes are not modelled.
\<close>

end
